(* ===== verification/Seeker_Prelude.thy ===== *)
theory Seeker_Prelude
  imports Main "HOL-Library.Word" "HOL-Library.Sublist"
begin

text \<open>
  Shared vocabulary of the development: machine integers, the outcome of a Rust
  computation, the sequencing of stateful fallible code, and generic lemmas on words,
  lists and partial memories.

  A Rust function that borrows a state mutably and returns \<^verbatim>\<open>std::io::Result\<close> is a
  function from the state to an outcome and the state it leaves behind.  The outcome
  keeps apart a value, an error value (propagated by the \<^verbatim>\<open>?\<close> operator), a panic
  and non-termination.  Sizes and positions (\<^verbatim>\<open>usize\<close>) are \<open>nat\<close>: no buffer of
  the program is longer than \<open>2 ^ 63 - 1\<close> bytes, the bound of a Rust allocation.
  Narrower integers keep their width and wrap around, as the release profile does.
\<close>

unbundle bit_operations_syntax

type_synonym u8 = "8 word"
type_synonym u16 = "16 word"
type_synonym u32 = "32 word"
type_synonym u64 = "64 word"

named_theorems outcome_simps "unfolding the sequencing of stateful computations"
named_theorems be_simps "big-endian splitting and joining of words"

subsection \<open>Outcomes and sequencing\<close>

text \<open>The errors of smoltcp that the code tells apart, and any other.\<close>

datatype smol_error = Exhausted | Checksum | Malformed | DroppedPacket | OtherSmol

datatype error_kind =
    InvalidInput | NotFound | TimedOut | UnexpectedEof | InvalidData | Other
  | AeadDecryptFailed | SodiumError | UnknownCipherType | Smoltcp smol_error

datatype 'a outcome = Ok 'a | Err error_kind | Panic | Diverge

type_synonym ('s, 'a) rust = "'s \<Rightarrow> 'a outcome \<times> 's"

definition return :: "'a \<Rightarrow> ('s, 'a) rust" where
  "return x = (\<lambda>s. (Ok x, s))"

definition throw :: "error_kind \<Rightarrow> ('s, 'a) rust" where
  "throw e = (\<lambda>s. (Err e, s))"

definition panic :: "('s, 'a) rust" where
  "panic = (\<lambda>s. (Panic, s))"

definition bind :: "('s, 'a) rust \<Rightarrow> ('a \<Rightarrow> ('s, 'b) rust) \<Rightarrow> ('s, 'b) rust" where
  "bind m f = (\<lambda>s. case m s of
      (Ok x, s') \<Rightarrow> f x s'
    | (Err e, s') \<Rightarrow> (Err e, s')
    | (Panic, s') \<Rightarrow> (Panic, s')
    | (Diverge, s') \<Rightarrow> (Diverge, s'))"

abbreviation andthen :: "('s, 'a) rust \<Rightarrow> ('s, 'b) rust \<Rightarrow> ('s, 'b) rust" where
  "andthen m n \<equiv> bind m (\<lambda>_. n)"

fun for_each :: "('a \<Rightarrow> ('s, unit) rust) \<Rightarrow> 'a list \<Rightarrow> ('s, unit) rust" where
  "for_each f [] = return ()"
| "for_each f (x # xs) = andthen (f x) (for_each f xs)"

fun repeat :: "nat \<Rightarrow> ('s, 'a) rust \<Rightarrow> ('s, 'a list) rust" where
  "repeat 0 m = return []"
| "repeat (Suc n) m = bind m (\<lambda>x. bind (repeat n m) (\<lambda>xs. return (x # xs)))"

text \<open>A computation without a state that may fail is an outcome; \<open>chain\<close> is the sequencing of two
  of them, and \<open>lifted\<close> runs one inside a stateful computation.\<close>

fun chain :: "'a outcome \<Rightarrow> ('a \<Rightarrow> 'b outcome) \<Rightarrow> 'b outcome" where
  "chain (Ok x) f = f x"
| "chain (Err e) f = Err e"
| "chain Panic f = Panic"
| "chain Diverge f = Diverge"

definition lifted :: "'a outcome \<Rightarrow> ('s, 'a) rust" where
  "lifted r = (\<lambda>s. (r, s))"

definition unwrap :: "'a option \<Rightarrow> 'a outcome" where
  "unwrap x = (case x of Some y \<Rightarrow> Ok y | None \<Rightarrow> Panic)"

lemma chain_eq_Ok: "chain r f = Ok y \<longleftrightarrow> (\<exists>x. r = Ok x \<and> f x = Ok y)"
  by (cases r) auto

lemma lifted_apply [simp]: "lifted r s = (r, s)"
  by (simp add: lifted_def)

lemma unwrap_simps [simp]: "unwrap (Some x) = Ok x" "unwrap None = Panic"
  by (simp_all add: unwrap_def)

lemma unwrap_eq_Ok: "unwrap x = Ok y \<longleftrightarrow> x = Some y"
  by (cases x) simp_all

lemma return_apply [simp]: "return x s = (Ok x, s)"
  by (simp add: return_def)

lemma throw_apply [simp]: "throw e s = (Err e, s)"
  by (simp add: throw_def)

lemma panic_apply [simp]: "panic s = (Panic, s)"
  by (simp add: panic_def)

lemma bind_Ok [simp]: "m s = (Ok x, s') \<Longrightarrow> bind m f s = f x s'"
  by (simp add: bind_def)

lemma bind_Err [simp]: "m s = (Err e, s') \<Longrightarrow> bind m f s = (Err e, s')"
  by (simp add: bind_def)

lemma bind_Panic [simp]: "m s = (Panic, s') \<Longrightarrow> bind m f s = (Panic, s')"
  by (simp add: bind_def)

lemma bind_Diverge [simp]: "m s = (Diverge, s') \<Longrightarrow> bind m f s = (Diverge, s')"
  by (simp add: bind_def)

lemma bind_eq_Ok:
  "bind m f s = (Ok y, s') \<longleftrightarrow> (\<exists>x s1. m s = (Ok x, s1) \<and> f x s1 = (Ok y, s'))"
  by (auto simp: bind_def split: prod.splits outcome.splits)

lemma bind_return [simp]: "bind (return x) f = f x"
  by (rule ext) (simp add: bind_def)

lemma bind_assoc: "bind (bind m f) g = bind m (\<lambda>x. bind (f x) g)"
  by (rule ext) (simp add: bind_def split: prod.splits outcome.splits)

lemma for_each_append:
  "for_each f (xs @ ys) = andthen (for_each f xs) (for_each f ys)"
  by (induction xs) (simp_all add: bind_assoc)

text \<open>A computation that always returns a value or an error: it neither panics nor runs forever.\<close>

definition responds :: "('s, 'a) rust \<Rightarrow> bool" where
  "responds m \<longleftrightarrow> (\<forall>s. \<exists>s'. (\<exists>x. m s = (Ok x, s')) \<or> (\<exists>e. m s = (Err e, s')))"

lemma responds_return: "responds (return x)"
  by (simp add: responds_def)

lemma responds_throw: "responds (throw e)"
  by (simp add: responds_def)

lemma responds_bind:
  assumes "responds m" "\<And>x. responds (f x)"
  shows "responds (bind m f)"
  unfolding responds_def
proof
  fix s
  obtain s1 where "(\<exists>x. m s = (Ok x, s1)) \<or> (\<exists>e. m s = (Err e, s1))"
    using assms(1) unfolding responds_def by blast
  then show "\<exists>s'. (\<exists>x. bind m f s = (Ok x, s')) \<or> (\<exists>e. bind m f s = (Err e, s'))"
  proof (elim disjE exE)
    fix x
    assume "m s = (Ok x, s1)"
    with assms(2) [of x] show ?thesis by (simp add: responds_def)
  qed simp
qed

lemma responds_repeat: "responds m \<Longrightarrow> responds (repeat n m)"
  by (induction n) (auto intro!: responds_bind simp: responds_return simp del: return_apply)

subsection \<open>Big-endian words\<close>

definition be16 :: "u16 \<Rightarrow> u8 list" where
  "be16 v = [ucast (drop_bit 8 v), ucast (v AND 0xFF)]"

definition be32 :: "u32 \<Rightarrow> u8 list" where
  "be32 v = [ucast (drop_bit 24 v AND 0xFF), ucast (drop_bit 16 v AND 0xFF),
             ucast (drop_bit 8 v AND 0xFF), ucast (v AND 0xFF)]"

definition join16 :: "u8 \<Rightarrow> u8 \<Rightarrow> u16" where
  "join16 a b = push_bit 8 (ucast a) OR ucast b"

definition join32 :: "u8 \<Rightarrow> u8 \<Rightarrow> u8 \<Rightarrow> u8 \<Rightarrow> u32" where
  "join32 a b c d =
     push_bit 24 (ucast a) OR push_bit 16 (ucast b) OR push_bit 8 (ucast c) OR ucast d"

lemma length_be16 [simp]: "length (be16 v) = 2"
  by (simp add: be16_def)

lemma length_be32 [simp]: "length (be32 v) = 4"
  by (simp add: be32_def)

lemma and_255: "(x :: 'a::len word) AND 255 = take_bit 8 x"
  by (simp add: take_bit_eq_mask mask_eq_exp_minus_1)

lemma join16_be16 [be_simps]:
  "join16 (ucast (drop_bit 8 v)) (ucast (v AND 0xFF)) = v"
  unfolding join16_def and_255
  by (rule bit_word_eqI) (auto simp: bit_simps le_add_diff_inverse)

lemma join32_be32 [be_simps]:
  "join32 (ucast (drop_bit 24 v AND 0xFF)) (ucast (drop_bit 16 v AND 0xFF))
     (ucast (drop_bit 8 v AND 0xFF)) (ucast (v AND 0xFF)) = v"
  unfolding join32_def and_255
proof (rule bit_word_eqI)
  fix n :: nat
  consider "n < 8" | "8 \<le> n \<and> n < 16" | "16 \<le> n \<and> n < 24" | "24 \<le> n" by linarith
  then show "bit (push_bit 24 (ucast (ucast (take_bit 8 (drop_bit 24 v)) :: u8)) OR
      push_bit 16 (ucast (ucast (take_bit 8 (drop_bit 16 v)) :: u8)) OR
      push_bit 8 (ucast (ucast (take_bit 8 (drop_bit 8 v)) :: u8)) OR
      ucast (ucast (take_bit 8 v) :: u8) :: u32) n = bit v n"
    by cases (auto simp: bit_simps dest: bit_imp_le_length)
qed

lemma join16_hi_lo [be_simps]:
  "ucast (drop_bit 8 (join16 a b)) = a" "ucast (join16 a b AND 0xFF) = b"
  unfolding join16_def and_255
  by (rule bit_word_eqI, auto simp: bit_simps dest: bit_imp_le_length)+

lemma be16_join16 [be_simps]: "be16 (join16 a b) = [a, b]"
  by (simp add: be16_def join16_hi_lo)

subsection \<open>Bytes and characters\<close>

text \<open>A Rust \<^verbatim>\<open>String\<close> is its sequence of UTF-8 bytes: a HOL \<open>string\<close> with one character
  per byte.\<close>

definition byte_of :: "char \<Rightarrow> u8" where
  "byte_of c = of_nat (of_char c)"

definition chr_of :: "u8 \<Rightarrow> char" where
  "chr_of b = char_of (unat b)"

definition as_bytes :: "string \<Rightarrow> u8 list" where
  "as_bytes s = map byte_of s"

definition of_bytes :: "u8 list \<Rightarrow> string" where
  "of_bytes bs = map chr_of bs"

lemma unat_byte_of [simp]: "unat (byte_of c) = of_char c"
proof -
  have "(of_char c :: nat) < 256" by (rule nat_of_char_less_256)
  then show ?thesis by (simp add: byte_of_def unat_of_nat)
qed

lemma chr_of_byte_of [simp]: "chr_of (byte_of c) = c"
  by (simp add: chr_of_def)

lemma byte_of_chr_of [simp]: "byte_of (chr_of b) = b"
proof -
  have "unat b < 2 ^ LENGTH(8)" by (rule unsigned_less)
  then have "unat b < 256" by simp
  then show ?thesis by (simp add: byte_of_def chr_of_def)
qed

lemma of_bytes_as_bytes [simp]: "of_bytes (as_bytes s) = s"
  by (simp add: of_bytes_def as_bytes_def comp_def)

lemma as_bytes_of_bytes [simp]: "as_bytes (of_bytes bs) = bs"
  by (simp add: of_bytes_def as_bytes_def comp_def)

lemma length_as_bytes [simp]: "length (as_bytes s) = length s"
  by (simp add: as_bytes_def)

lemma length_of_bytes [simp]: "length (of_bytes bs) = length bs"
  by (simp add: of_bytes_def)

lemma as_bytes_append [simp]: "as_bytes (s @ t) = as_bytes s @ as_bytes t"
  by (simp add: as_bytes_def)

lemma as_bytes_Nil [simp]: "as_bytes [] = []"
  by (simp add: as_bytes_def)

subsection \<open>Partial memories over a byte buffer\<close>

text \<open>
  The bytes of a buffer outside a set of holes, as a partial map from positions.  Facts
  about what is stored in a buffer are stated over such a memory and are monotone in it:
  appending to the buffer, filling a hole and closing it all enlarge the memory.
\<close>

type_synonym memory = "nat \<rightharpoonup> u8"

definition mem_of :: "u8 list \<Rightarrow> nat set \<Rightarrow> memory" where
  "mem_of buf H = (\<lambda>i. if i < length buf \<and> i \<notin> H then Some (buf ! i) else None)"

definition bytes_at :: "memory \<Rightarrow> nat \<Rightarrow> u8 list \<Rightarrow> bool" where
  "bytes_at m p bs \<longleftrightarrow> (\<forall>i < length bs. m (p + i) = Some (bs ! i))"

lemma mem_of_Some: "mem_of buf H i = Some b \<longleftrightarrow> i < length buf \<and> i \<notin> H \<and> b = buf ! i"
  by (auto simp: mem_of_def)

lemma mem_of_append: "mem_of buf H \<subseteq>\<^sub>m mem_of (buf @ xs) H"
  by (auto simp: map_le_def mem_of_def nth_append)

lemma mem_of_holes: "H' \<subseteq> H \<Longrightarrow> mem_of buf H \<subseteq>\<^sub>m mem_of buf H'"
  by (auto simp: map_le_def mem_of_def)

lemma mem_of_update: "p \<in> H \<Longrightarrow> mem_of (buf[p := v]) H = mem_of buf H"
  unfolding mem_of_def by (rule ext) (metis length_list_update nth_list_update_neq)

lemma bytes_at_mono: "m \<subseteq>\<^sub>m m' \<Longrightarrow> bytes_at m p bs \<Longrightarrow> bytes_at m' p bs"
  unfolding bytes_at_def map_le_def by (metis domI)

lemma bytes_at_Nil [simp]: "bytes_at m p []"
  by (simp add: bytes_at_def)

lemma bytes_at_Cons [simp]:
  "bytes_at m p (b # bs) \<longleftrightarrow> m p = Some b \<and> bytes_at m (Suc p) bs"
  by (auto simp: bytes_at_def nth_Cons less_Suc_eq_0_disj split: nat.splits)

lemma bytes_at_append [simp]:
  "bytes_at m p (as @ bs) \<longleftrightarrow> bytes_at m p as \<and> bytes_at m (p + length as) bs"
  by (induction as arbitrary: p) (auto simp: add.commute)

lemma bytes_at_mem_of_append:
  "(\<forall>i \<in> H. i < length buf) \<Longrightarrow> bytes_at (mem_of (buf @ bs) H) (length buf) bs"
  by (auto simp: bytes_at_def mem_of_def nth_append)

lemma bytes_at_take_drop:
  "bytes_at (mem_of buf H) p bs \<Longrightarrow> bs \<noteq> [] \<Longrightarrow>
     p + length bs \<le> length buf \<and> take (length bs) (drop p buf) = bs"
proof (induction bs arbitrary: p)
  case Nil
  then show ?case by simp
next
  case (Cons b bs)
  from Cons.prems have p: "p < length buf" "b = buf ! p"
    by (auto simp: mem_of_Some)
  show ?case
  proof (cases "bs = []")
    case True
    with p show ?thesis by (simp add: take_Suc_conv_app_nth)
  next
    case False
    from Cons.prems have "bytes_at (mem_of buf H) (Suc p) bs" by simp
    from Cons.IH [OF this False] have IH: "Suc p + length bs \<le> length buf"
      "take (length bs) (drop (Suc p) buf) = bs" by simp_all
    from p have "drop p buf = b # drop (Suc p) buf"
      by (simp add: Cons_nth_drop_Suc)
    with IH show ?thesis by simp
  qed
qed

end
