(* ===== verification/Rust_Std.thy ===== *)
theory Rust_Std
  imports Seeker_Prelude
begin

text \<open>
  The parts of Rust's standard library that the program's own logic rests on: splitting,
  joining and matching of strings, UTF-8 checking and lossy decoding, decimal parsing and
  printing, IPv4 and IPv6 addresses and socket addresses with their textual form.

  \<^verbatim>\<open>str::to_lowercase\<close> consults the Unicode case tables; every definition that calls it
  takes it as an argument, and the theorems rely on its documented behaviour on ASCII
  strings only (\<open>ascii_lowercase\<close>).
\<close>

subsection \<open>Splitting and joining\<close>

fun split_on :: "char \<Rightarrow> string \<Rightarrow> string list" where
  "split_on c [] = [[]]"
| "split_on c (x # xs) =
     (if x = c then [] # split_on c xs
      else (case split_on c xs of [] \<Rightarrow> [[x]] | w # ws \<Rightarrow> (x # w) # ws))"

fun join :: "string \<Rightarrow> string list \<Rightarrow> string" where
  "join sep [] = []"
| "join sep [w] = w"
| "join sep (w # v # ws) = w @ sep @ join sep (v # ws)"

text \<open>\<^verbatim>\<open>str::splitn\<close>: at most \<open>n\<close> pieces, the last one keeping the rest of the string.\<close>

fun splitn :: "nat \<Rightarrow> char \<Rightarrow> string \<Rightarrow> string list" where
  "splitn 0 c s = []"
| "splitn (Suc 0) c s = [s]"
| "splitn (Suc (Suc n)) c s =
     (if c \<in> set s
      then takeWhile (\<lambda>x. x \<noteq> c) s # splitn (Suc n) c (tl (dropWhile (\<lambda>x. x \<noteq> c) s))
      else [s])"

definition ends_with :: "string \<Rightarrow> string \<Rightarrow> bool" where
  "ends_with s t \<longleftrightarrow> length t \<le> length s \<and> drop (length s - length t) s = t"

definition starts_with :: "string \<Rightarrow> string \<Rightarrow> bool" where
  "starts_with s t \<longleftrightarrow> take (length t) s = t"

fun contains_str :: "string \<Rightarrow> string \<Rightarrow> bool" where
  "contains_str [] t = (t = [])"
| "contains_str (x # xs) t = (starts_with (x # xs) t \<or> contains_str xs t)"

lemma split_on_neq_Nil [simp]: "split_on c s \<noteq> []"
  by (induction s) (auto split: list.splits)

lemma join_Cons: "join sep (w # ws) = (if ws = [] then w else w @ sep @ join sep ws)"
  by (cases ws) auto

lemma join_split_on [simp]: "join [c] (split_on c s) = s"
proof (induction s)
  case Nil
  then show ?case by simp
next
  case (Cons x xs)
  then show ?case
    by (cases "split_on c xs") (auto simp: join_Cons)
qed

lemma split_on_no_sep: "c \<notin> set w \<Longrightarrow> split_on c w = [w]"
  by (induction w) auto

lemma split_on_append_sep:
  "c \<notin> set w \<Longrightarrow> split_on c (w @ c # s) = w # split_on c s"
  by (induction w) auto

lemma split_on_join:
  "ws \<noteq> [] \<Longrightarrow> \<forall>w \<in> set ws. c \<notin> set w \<Longrightarrow> split_on c (join [c] ws) = ws"
proof (induction ws)
  case Nil
  then show ?case by simp
next
  case (Cons w ws)
  then show ?case
    by (cases ws) (auto simp: split_on_no_sep split_on_append_sep)
qed

lemma split_on_pieces: "w \<in> set (split_on c s) \<Longrightarrow> c \<notin> set w"
proof (induction s arbitrary: w)
  case Nil
  then show ?case by simp
next
  case (Cons x xs)
  then show ?case
    by (cases "split_on c xs") (auto split: if_splits)
qed

lemma split_on_chars: "w \<in> set (split_on c s) \<Longrightarrow> set w \<subseteq> set s"
proof (induction s arbitrary: w)
  case (Cons x xs)
  then show ?case
    by (cases "split_on c xs") (auto split: if_splits, blast+)
qed simp

lemma ends_with_suffix: "ends_with s t \<longleftrightarrow> suffix t s"
proof
  assume "ends_with s t"
  then have "s = take (length s - length t) s @ t"
    unfolding ends_with_def by (metis append_take_drop_id)
  then show "suffix t s" unfolding suffix_def by blast
next
  assume "suffix t s"
  then obtain u where "s = u @ t" by (auto simp: suffix_def)
  then show "ends_with s t" by (simp add: ends_with_def)
qed

lemma starts_with_prefix: "starts_with s t \<longleftrightarrow> prefix t s"
proof
  assume "starts_with s t"
  then have "s = t @ drop (length t) s"
    unfolding starts_with_def by (metis append_take_drop_id)
  then show "prefix t s" unfolding prefix_def by blast
next
  assume "prefix t s"
  then show "starts_with s t" by (auto simp: prefix_def starts_with_def)
qed

lemma contains_str_sublist: "contains_str s t \<longleftrightarrow> (\<exists>u v. s = u @ t @ v)"
proof (induction s)
  case Nil
  then show ?case by auto
next
  case (Cons x xs)
  have "(\<exists>u v. x # xs = u @ t @ v) \<longleftrightarrow>
      (\<exists>v. x # xs = t @ v) \<or> (\<exists>u v. xs = u @ t @ v)"
    by (metis append_Cons append_Nil list.inject neq_Nil_conv)
  with Cons show ?case by (auto simp: starts_with_prefix prefix_def)
qed

subsection \<open>ASCII and UTF-8\<close>

definition is_ascii :: "string \<Rightarrow> bool" where
  "is_ascii s \<longleftrightarrow> (\<forall>c \<in> set s. of_char c < (128 :: nat))"

definition ascii_lower :: "char \<Rightarrow> char" where
  "ascii_lower c =
     (let n = (of_char c :: nat) in if 65 \<le> n \<and> n \<le> 90 then char_of (n + 32) else c)"

definition ascii_lowercase :: "(string \<Rightarrow> string) \<Rightarrow> bool" where
  "ascii_lowercase lc \<longleftrightarrow> (\<forall>s. is_ascii s \<longrightarrow> lc s = map ascii_lower s)"

definition lower_ascii :: "string \<Rightarrow> bool" where
  "lower_ascii s \<longleftrightarrow> (\<forall>c \<in> set s. of_char c < (128 :: nat) \<and> ascii_lower c = c)"

lemma lower_ascii_lowercase:
  "ascii_lowercase lc \<Longrightarrow> lower_ascii s \<Longrightarrow> lc s = s"
  by (simp add: ascii_lowercase_def lower_ascii_def is_ascii_def map_idI)

lemma lower_ascii_ascii: "lower_ascii s \<Longrightarrow> is_ascii s"
  by (auto simp: lower_ascii_def is_ascii_def)

text \<open>One step of the UTF-8 scanner of \<^verbatim>\<open>core::str\<close>: whether the bytes start with a
  well-formed sequence, and how many bytes that sequence, or the ill-formed one, takes.
  A missing byte reads as 0.\<close>

definition byte_or_0 :: "u8 list \<Rightarrow> nat \<Rightarrow> nat" where
  "byte_or_0 bs i = (if i < length bs then unat (bs ! i) else 0)"

definition is_cont :: "nat \<Rightarrow> bool" where
  "is_cont b \<longleftrightarrow> 0x80 \<le> b \<and> b \<le> 0xBF"

definition utf8_step :: "u8 list \<Rightarrow> bool \<times> nat" where
  "utf8_step bs =
     (let a = byte_or_0 bs 0; b = byte_or_0 bs 1; c = byte_or_0 bs 2; d = byte_or_0 bs 3 in
      if a < 0x80 then (True, 1)
      else if 0xC2 \<le> a \<and> a \<le> 0xDF then (if is_cont b then (True, 2) else (False, 1))
      else if 0xE0 \<le> a \<and> a \<le> 0xEF then
        (if \<not> (is_cont b \<and> (a = 0xE0 \<longrightarrow> 0xA0 \<le> b) \<and> (a = 0xED \<longrightarrow> b \<le> 0x9F)) then (False, 1)
         else if is_cont c then (True, 3) else (False, 2))
      else if 0xF0 \<le> a \<and> a \<le> 0xF4 then
        (if \<not> (is_cont b \<and> (a = 0xF0 \<longrightarrow> 0x90 \<le> b) \<and> (a = 0xF4 \<longrightarrow> b \<le> 0x8F)) then (False, 1)
         else if \<not> is_cont c then (False, 2)
         else if is_cont d then (True, 4) else (False, 3))
      else (False, 1))"

lemma utf8_step_pos: "utf8_step bs = (v, n) \<Longrightarrow> 0 < n"
  by (auto simp: utf8_step_def Let_def split: if_splits)

function lossy_bytes :: "u8 list \<Rightarrow> u8 list" where
  "lossy_bytes [] = []"
| "lossy_bytes (x # xs) =
     (case utf8_step (x # xs) of
        (True, n) \<Rightarrow> take n (x # xs) @ lossy_bytes (drop n (x # xs))
      | (False, n) \<Rightarrow> [0xEF, 0xBF, 0xBD] @ lossy_bytes (drop n (x # xs)))"
  by pat_completeness auto
termination
  by (relation "measure length") (auto dest: utf8_step_pos [OF sym])

function utf8_valid :: "u8 list \<Rightarrow> bool" where
  "utf8_valid [] = True"
| "utf8_valid (x # xs) =
     (case utf8_step (x # xs) of
        (True, n) \<Rightarrow> utf8_valid (drop n (x # xs))
      | (False, n) \<Rightarrow> False)"
  by pat_completeness auto
termination
  by (relation "measure length") (auto dest: utf8_step_pos [OF sym])

definition from_utf8_lossy :: "u8 list \<Rightarrow> string" where
  "from_utf8_lossy bs = of_bytes (lossy_bytes bs)"

definition from_utf8 :: "u8 list \<Rightarrow> string option" where
  "from_utf8 bs = (if utf8_valid bs then Some (of_bytes bs) else None)"

lemma utf8_step_ascii: "unat x < 128 \<Longrightarrow> utf8_step (x # xs) = (True, 1)"
  by (simp add: utf8_step_def byte_or_0_def)

lemma lossy_bytes_ascii: "\<forall>b \<in> set bs. unat b < 128 \<Longrightarrow> lossy_bytes bs = bs"
  by (induction bs) (simp_all add: utf8_step_ascii)

lemma utf8_valid_ascii: "\<forall>b \<in> set bs. unat b < 128 \<Longrightarrow> utf8_valid bs"
  by (induction bs) (simp_all add: utf8_step_ascii)

lemma ascii_byte: "is_ascii s \<Longrightarrow> b \<in> set (as_bytes s) \<Longrightarrow> unat b < 128"
  by (auto simp: is_ascii_def as_bytes_def)

lemma from_utf8_lossy_ascii [simp]: "is_ascii s \<Longrightarrow> from_utf8_lossy (as_bytes s) = s"
  unfolding from_utf8_lossy_def
  by (subst lossy_bytes_ascii) (auto simp: ascii_byte)

lemma from_utf8_ascii [simp]: "is_ascii s \<Longrightarrow> from_utf8 (as_bytes s) = Some s"
  unfolding from_utf8_def
  by (simp add: utf8_valid_ascii ascii_byte)

lemma from_utf8_Some: "from_utf8 bs = Some s \<Longrightarrow> as_bytes s = bs"
  by (auto simp: from_utf8_def split: if_splits)

subsection \<open>Decimal numbers\<close>

definition is_digit :: "char \<Rightarrow> bool" where
  "is_digit c \<longleftrightarrow> 48 \<le> (of_char c :: nat) \<and> (of_char c :: nat) \<le> 57"

definition digit_val :: "char \<Rightarrow> nat" where
  "digit_val c = of_char c - 48"

definition digits_val :: "string \<Rightarrow> nat" where
  "digits_val s = foldl (\<lambda>n c. 10 * n + digit_val c) 0 s"

fun show_nat :: "nat \<Rightarrow> string" where
  "show_nat n = (if n < 10 then [char_of (48 + n)] else show_nat (n div 10) @ [char_of (48 + n mod 10)])"

declare show_nat.simps [simp del]

text \<open>\<^verbatim>\<open>str::parse\<close> for an unsigned integer type with the given number of values: an optional
  plus sign, then at least one digit and nothing else, within range.\<close>

definition parse_uint :: "nat \<Rightarrow> string \<Rightarrow> nat option" where
  "parse_uint bound s =
     (let ds = (case s of c # cs \<Rightarrow> if c = CHR ''+'' \<and> cs \<noteq> [] then cs else s | [] \<Rightarrow> s) in
      if ds \<noteq> [] \<and> list_all is_digit ds \<and> digits_val ds < bound then Some (digits_val ds) else None)"

lemma digits_val_snoc [simp]: "digits_val (s @ [c]) = 10 * digits_val s + digit_val c"
  by (simp add: digits_val_def)

lemma digits_val_Nil [simp]: "digits_val [] = 0"
  by (simp add: digits_val_def)

lemma of_char_digit: "d < 10 \<Longrightarrow> of_char (char_of (48 + d :: nat)) = 48 + d"
  by simp

lemma is_digit_char: "d < 10 \<Longrightarrow> is_digit (char_of (48 + d :: nat))"
  by (simp add: is_digit_def of_char_digit)

lemma digit_val_char: "d < 10 \<Longrightarrow> digit_val (char_of (48 + d :: nat)) = d"
  by (simp add: digit_val_def of_char_digit)

lemma show_nat_digits: "list_all is_digit (show_nat n) \<and> show_nat n \<noteq> [] \<and> digits_val (show_nat n) = n"
proof (induction n rule: show_nat.induct)
  case (1 n)
  show ?case
  proof (cases "n < 10")
    case True
    have "digits_val [char_of (48 + n)] = digit_val (char_of (48 + n))"
      by (simp add: digits_val_def)
    with True show ?thesis
      by (simp add: show_nat.simps [of n] is_digit_char digit_val_char)
  next
    case False
    with 1 show ?thesis
      by (simp add: show_nat.simps [of n] is_digit_char digit_val_char)
  qed
qed

lemma show_nat_hd: "\<exists>c cs. show_nat n = c # cs \<and> is_digit c"
  using show_nat_digits [of n] by (cases "show_nat n") auto

lemma is_digit_not_plus: "is_digit c \<Longrightarrow> c \<noteq> CHR ''+'' \<and> c \<noteq> CHR ''.''"
  by (auto simp: is_digit_def)

lemma parse_show_nat: "n < bound \<Longrightarrow> parse_uint bound (show_nat n) = Some n"
  using show_nat_digits [of n] show_nat_hd [of n] is_digit_not_plus
  by (fastforce simp: parse_uint_def Let_def)

lemma show_nat_ascii: "is_ascii (show_nat n)"
  using show_nat_digits [of n] by (auto simp: is_ascii_def list_all_iff is_digit_def)

lemma length_show_nat_byte: "n < 1000 \<Longrightarrow> length (show_nat n) \<le> 3"
  by (simp add: show_nat.simps [of n] show_nat.simps [of "n div 10"] show_nat.simps [of "n div 10 div 10"])

lemma parse_uint_bound: "parse_uint bound s = Some n \<Longrightarrow> n < bound"
  by (auto simp: parse_uint_def Let_def split: if_splits)

subsection \<open>Network addresses\<close>

datatype ipv4 = Ipv4Addr u8 u8 u8 u8

datatype ipv6 = Ipv6Addr u16 u16 u16 u16 u16 u16 u16 u16

datatype ip_addr = IpV4 ipv4 | IpV6 ipv6

datatype socket_addr =
    V4 ipv4 u16                  \<comment> \<open>address and port\<close>
  | V6 ipv6 u16 u32 u32          \<comment> \<open>address, port, flow info and scope id\<close>

fun octets :: "ipv4 \<Rightarrow> u8 list" where
  "octets (Ipv4Addr a b c d) = [a, b, c, d]"

fun segments :: "ipv6 \<Rightarrow> u16 list" where
  "segments (Ipv6Addr a b c d e f g h) = [a, b, c, d, e, f, g, h]"

lemma length_octets [simp]: "length (octets a) = 4"
  by (cases a) simp

lemma length_segments [simp]: "length (segments a) = 8"
  by (cases a) simp

fun socket_port :: "socket_addr \<Rightarrow> u16" where
  "socket_port (V4 _ p) = p"
| "socket_port (V6 _ p _ _) = p"

fun socket_ip :: "socket_addr \<Rightarrow> ip_addr" where
  "socket_ip (V4 a _) = IpV4 a"
| "socket_ip (V6 a _ _ _) = IpV6 a"

definition new_socket_addr :: "ip_addr \<Rightarrow> u16 \<Rightarrow> socket_addr" where
  "new_socket_addr ip port = (case ip of IpV4 a \<Rightarrow> V4 a port | IpV6 a \<Rightarrow> V6 a port 0 0)"

definition show_ipv4 :: "ipv4 \<Rightarrow> string" where
  "show_ipv4 a = join ''.'' (map (\<lambda>b. show_nat (unat b)) (octets a))"

text \<open>The dotted-quad parser of \<^verbatim>\<open>std::net\<close>: four numbers of one to three digits, each at most 255.\<close>

definition parse_octet :: "string \<Rightarrow> u8 option" where
  "parse_octet s =
     (if s \<noteq> [] \<and> length s \<le> 3 \<and> list_all is_digit s \<and> digits_val s < 256
      then Some (of_nat (digits_val s)) else None)"

definition parse_ipv4 :: "string \<Rightarrow> ipv4 option" where
  "parse_ipv4 s = (case split_on CHR ''.'' s of
      [w, x, y, z] \<Rightarrow>
        (case (parse_octet w, parse_octet x, parse_octet y, parse_octet z) of
           (Some a, Some b, Some c, Some d) \<Rightarrow> Some (Ipv4Addr a b c d)
         | _ \<Rightarrow> None)
    | _ \<Rightarrow> None)"

definition u32_to_be_bytes :: "u32 \<Rightarrow> u8 list" where
  "u32_to_be_bytes v = be32 v"

lemma parse_octet_show: "parse_octet (show_nat (unat b)) = Some b"
proof -
  have "unat b < 2 ^ LENGTH(8)" by (rule unsigned_less)
  then have b: "unat b < 256" by simp
  with show_nat_digits [of "unat b"] length_show_nat_byte [of "unat b"]
  show ?thesis by (simp add: parse_octet_def)
qed

lemma dot_notin_show_nat: "CHR ''.'' \<notin> set (show_nat n)"
  using show_nat_digits [of n] is_digit_not_plus by (auto simp: list_all_iff)

lemma parse_show_ipv4 [simp]: "parse_ipv4 (show_ipv4 a) = Some a"
proof (cases a)
  case (Ipv4Addr w x y z)
  have "split_on CHR ''.'' (show_ipv4 a) = map (\<lambda>b. show_nat (unat b)) (octets a)"
    unfolding show_ipv4_def
    by (rule split_on_join) (auto simp: Ipv4Addr dot_notin_show_nat)
  then show ?thesis by (simp add: parse_ipv4_def Ipv4Addr parse_octet_show)
qed

lemma show_ipv4_inj: "show_ipv4 a = show_ipv4 b \<Longrightarrow> a = b"
  by (metis option.inject parse_show_ipv4)

end
