(* ===== verification/Buffer_Reader.thy ===== *)
theory Buffer_Reader
  imports Packet_Buffer
begin

text \<open>
  The contract of reading from a packet buffer, the client lemmas of the provided reading
  methods, and the three implementations' proofs of the contract.

  \<open>yields ok contents pos c s v e\<close> says that the computation \<open>c\<close> started in \<open>s\<close>
  returns \<open>v\<close>, keeps the contents of the buffer and leaves the position \<open>e\<close>.  The lazily
  filled stream buffer changes its state on every read but not its contents, which are the
  bytes buffered and the bytes still to come.
\<close>

definition yields :: "('s \<Rightarrow> bool) \<Rightarrow> ('s \<Rightarrow> u8 list) \<Rightarrow> ('s \<Rightarrow> nat) \<Rightarrow>
    ('s, 'a) rust \<Rightarrow> 's \<Rightarrow> 'a \<Rightarrow> nat \<Rightarrow> bool" where
  "yields ok contents pos c s v e \<longleftrightarrow>
     (\<exists>s'. c s = (Ok v, s') \<and> ok s' \<and> contents s' = contents s \<and> pos s' = e)"

lemma yields_bind:
  assumes "yields ok contents pos c s v e"
    and "\<And>s'. ok s' \<Longrightarrow> contents s' = contents s \<Longrightarrow> pos s' = e \<Longrightarrow>
      yields ok contents pos (f v) s' w e'"
  shows "yields ok contents pos (bind c f) s w e'"
proof -
  obtain s1 where s1: "c s = (Ok v, s1)" "ok s1" "contents s1 = contents s" "pos s1 = e"
    using assms(1) by (auto simp: yields_def)
  then obtain s2 where "f v s1 = (Ok w, s2)" "ok s2" "contents s2 = contents s1" "pos s2 = e'"
    using assms(2) by (fastforce simp: yields_def)
  with s1 show ?thesis by (auto simp: yields_def)
qed

lemma yields_return: "ok s \<Longrightarrow> pos s = e \<Longrightarrow> yields ok contents pos (return v) s v e"
  by (simp add: yields_def)

lemma length_byte_small: "length l < 64 \<Longrightarrow> unat (of_nat (length l) :: u8) = length l"
  by (simp add: unat_of_nat)

lemma label_len_no_pointer: "n < 64 \<Longrightarrow> (of_nat n :: u8) AND 0xC0 = 0"
proof -
  assume n: "n < 64"
  have "bit (of_nat n :: u8) k \<Longrightarrow> k < 6" for k
  proof -
    assume b: "bit (of_nat n :: u8) k"
    have "take_bit 6 n = n" using n by (simp add: take_bit_nat_eq_self)
    with b show "k < 6" by (metis bit_take_bit_iff bit_of_nat_iff)
  qed
  moreover have "bit (0xC0 :: u8) k \<Longrightarrow> 6 \<le> k" for k
  proof -
    assume "bit (0xC0 :: u8) k"
    moreover have "(0xC0 :: u8) = push_bit 6 3" by simp
    ultimately show "6 \<le> k" by (metis bit_push_bit_iff)
  qed
  ultimately show ?thesis
    by (intro bit_word_eqI) (auto simp: bit_and_iff, fastforce)
qed

locale buffer_reader =
  fixes ops :: "'s buffer_ops"
    and ok :: "'s \<Rightarrow> bool"
    and contents :: "'s \<Rightarrow> u8 list"
    and slack :: nat
  assumes slack_le: "slack \<le> 1"
    and read_ok: "ok s \<Longrightarrow> b_pos ops s < length (contents s) \<Longrightarrow>
      yields ok contents (b_pos ops) (b_read ops) s (contents s ! b_pos ops s) (b_pos ops s + 1)"
    and get_ok: "ok s \<Longrightarrow> p < length (contents s) \<Longrightarrow>
      yields ok contents (b_pos ops) (b_get ops p) s (contents s ! p) (b_pos ops s)"
    and range_ok: "ok s \<Longrightarrow> start + len + slack \<le> length (contents s) \<Longrightarrow>
      yields ok contents (b_pos ops) (b_get_range ops start len) s
        (take len (drop start (contents s))) (b_pos ops s)"
    and seek_ok: "ok s \<Longrightarrow> yields ok contents (b_pos ops) (b_seek ops p) s () p"
    and step_ok: "ok s \<Longrightarrow> yields ok contents (b_pos ops) (b_step ops n) s () (b_pos ops s + n)"
begin

abbreviation stored :: "'s \<Rightarrow> memory" where
  "stored s \<equiv> mem_of (contents s) {}"

abbreviation reads :: "('s, 'a) rust \<Rightarrow> 's \<Rightarrow> 'a \<Rightarrow> nat \<Rightarrow> bool" where
  "reads \<equiv> yields ok contents (b_pos ops)"

lemma read_stored:
  "ok s \<Longrightarrow> stored s (b_pos ops s) = Some b \<Longrightarrow> e = Suc (b_pos ops s) \<Longrightarrow> reads (b_read ops) s b e"
  using read_ok [of s] by (simp add: mem_of_Some)

lemma read_u16_reads:
  assumes "ok s" "bytes_at (stored s) (b_pos ops s) (be16 v)"
  shows "reads (read_u16 ops) s v (b_pos ops s + 2)"
proof -
  from assms(2) have
    "stored s (b_pos ops s) = Some (ucast (drop_bit 8 v))"
    "stored s (Suc (b_pos ops s)) = Some (ucast (v AND 0xFF))"
    by (simp_all add: be16_def)
  then show ?thesis
    unfolding read_u16_def
    by (intro yields_bind [OF read_stored] yields_bind [OF read_stored [OF _ _ refl]])
       (auto simp: assms(1) be_simps intro!: yields_return)
qed

lemma read_u32_reads:
  assumes "ok s" "bytes_at (stored s) (b_pos ops s) (be32 v)"
  shows "reads (read_u32 ops) s v (b_pos ops s + 4)"
proof -
  let ?p = "b_pos ops s"
  from assms(2) have
    "stored s ?p = Some (ucast (drop_bit 24 v AND 0xFF))"
    "stored s (Suc ?p) = Some (ucast (drop_bit 16 v AND 0xFF))"
    "stored s (Suc (Suc ?p)) = Some (ucast (drop_bit 8 v AND 0xFF))"
    "stored s (Suc (Suc (Suc ?p))) = Some (ucast (v AND 0xFF))"
    by (simp_all add: be32_def)
  then show ?thesis
    unfolding read_u32_def
    by (intro yields_bind [OF read_stored] yields_bind [OF read_stored [OF _ _ refl]])
       (auto simp: assms(1) be_simps intro!: yields_return)
qed

lemma get_stored:
  "ok s \<Longrightarrow> stored s p = Some b \<Longrightarrow>
     \<exists>s1. b_get ops p s = (Ok b, s1) \<and> ok s1 \<and> contents s1 = contents s \<and> b_pos ops s1 = b_pos ops s"
  using get_ok [of s p] by (auto simp: mem_of_Some yields_def)

lemma range_stored:
  assumes "ok s" "bytes_at (stored s) p bs" "bs \<noteq> []" "stored s (p + length bs) = Some b"
  shows "\<exists>s1. b_get_range ops p (length bs) s = (Ok bs, s1) \<and> ok s1 \<and>
    contents s1 = contents s \<and> b_pos ops s1 = b_pos ops s"
proof -
  from assms(4) have "p + length bs < length (contents s)" by (simp add: mem_of_Some)
  with slack_le have "p + length bs + slack \<le> length (contents s)" by simp
  from range_ok [OF assms(1) this] bytes_at_take_drop [OF assms(2,3)]
  show ?thesis by (auto simp: yields_def)
qed

lemma seek_stored:
  "ok s \<Longrightarrow> \<exists>s1. b_seek ops p s = (Ok (), s1) \<and> ok s1 \<and> contents s1 = contents s \<and> b_pos ops s1 = p"
  using seek_ok [of s p] by (auto simp: yields_def)

lemma name_at_first_byte: "name_at m p ls e \<Longrightarrow> \<exists>b. m p = Some b"
  by (erule name_at.cases) auto

text \<open>The state of the loop after it has read a name: the labels are appended to the output
  and either no jump was taken and the loop's position is the end of the name, or the shared
  position was moved there by the first jump.\<close>

definition name_read :: "'s \<Rightarrow> bool \<Rightarrow> nat \<Rightarrow> nat \<Rightarrow> bool \<Rightarrow> 's \<Rightarrow> bool" where
  "name_read s jumped e p' jumped' s' \<longleftrightarrow> ok s' \<and> contents s' = contents s \<and>
     (jumped \<longrightarrow> jumped' \<and> b_pos ops s' = b_pos ops s) \<and>
     (\<not> jumped \<longrightarrow> (if jumped' then b_pos ops s' = e else p' = e))"

definition delimited :: "string \<Rightarrow> string list \<Rightarrow> string" where
  "delimited delim ls = (if ls = [] then [] else delim @ join ''.'' ls)"

lemma read_loop_end:
  assumes "ok s" "stored s p = Some 0"
  shows "\<exists>p' j' s'. read_qname_loop ops lc p jumped delim out s = Some (Ok (p', j', out), s') \<and>
    name_read s jumped (Suc p) p' j' s'"
proof -
  obtain s1 where "b_get ops p s = (Ok 0, s1)" "ok s1" "contents s1 = contents s"
      "b_pos ops s1 = b_pos ops s"
    using get_stored [OF assms] by blast
  then have "read_qname_loop ops lc p jumped delim out s = Some (Ok (Suc p, jumped, out), s1) \<and>
      name_read s jumped (Suc p) (Suc p) jumped s1"
    by (simp add: read_qname_loop.simps [of ops lc p] name_read_def)
  then show ?thesis by blast
qed

lemma read_loop_label:
  assumes lc: "ascii_lowercase lc" "lower_ascii l"
    and l: "l \<noteq> []" "length l < 64" "stored s p = Some (of_nat (length l))"
      "bytes_at (stored s) (Suc p) (as_bytes l)" "stored s (Suc p + length l) = Some b"
    and s: "ok s"
  shows "\<exists>s1. ok s1 \<and> contents s1 = contents s \<and> b_pos ops s1 = b_pos ops s \<and>
    read_qname_loop ops lc p jumped delim out s =
    read_qname_loop ops lc (Suc p + length l) jumped ''.'' (out @ delim @ l) s1"
proof -
  obtain s0 where s0: "b_get ops p s = (Ok (of_nat (length l)), s0)" "ok s0"
      "contents s0 = contents s" "b_pos ops s0 = b_pos ops s"
    using get_stored [OF s l(3)] by auto
  have "as_bytes l \<noteq> []" using l(1) by (simp add: as_bytes_def)
  with range_stored [of s0 "Suc p" "as_bytes l" b] s0 l
  obtain s1 where s1: "b_get_range ops (Suc p) (length l) s0 = (Ok (as_bytes l), s1)" "ok s1"
      "contents s1 = contents s" "b_pos ops s1 = b_pos ops s"
    by auto
  have len: "unat (of_nat (length l) :: u8) = length l" "(of_nat (length l) :: u8) AND 0xC0 = 0"
      "(of_nat (length l) :: u8) \<noteq> 0"
    using l(1,2) length_byte_small [OF l(2)] label_len_no_pointer [OF l(2)] by auto
  have "lc (from_utf8_lossy (as_bytes l)) = l"
    using lc lower_ascii_ascii lower_ascii_lowercase by simp
  with s0 s1 len show ?thesis
    by (auto simp: read_qname_loop.simps [of ops lc p])
qed

lemma read_loop_jump:
  assumes "ok s" "stored s p = Some hi" "stored s (Suc p) = Some lo" "hi AND 0xC0 > 0"
  shows "\<exists>s1. ok s1 \<and> contents s1 = contents s \<and>
    b_pos ops s1 = (if jumped then b_pos ops s else p + 2) \<and>
    read_qname_loop ops lc p jumped delim out s =
    read_qname_loop ops lc (pointer_target hi lo) True delim out s1"
proof -
  obtain s0 where s0: "b_get ops p s = (Ok hi, s0)" "ok s0" "contents s0 = contents s"
      "b_pos ops s0 = b_pos ops s"
    using get_stored [OF assms(1,2)] by auto
  obtain s1 where s1: "(if jumped then (Ok (), s0) else b_seek ops (p + 2) s0) = (Ok (), s1)"
      "ok s1" "contents s1 = contents s" "b_pos ops s1 = (if jumped then b_pos ops s else p + 2)"
    using seek_stored [OF s0(2), of "p + 2"] s0 by (cases jumped) auto
  obtain s2 where s2: "b_get ops (Suc p) s1 = (Ok lo, s2)" "ok s2" "contents s2 = contents s"
      "b_pos ops s2 = b_pos ops s1"
    using get_stored [OF s1(2), of "Suc p"] s1(3) assms(3) by auto
  from s0 s1 s2 assms(4) show ?thesis
    unfolding read_qname_loop.simps [of ops lc p] pointer_target_def by auto
qed

lemma read_loop_name:
  assumes "name_at m p ls e" and "m = stored s" and "ascii_lowercase lc"
    and "\<forall>l \<in> set ls. lower_ascii l" and "ok s"
  shows "\<exists>p' j' s'. read_qname_loop ops lc p jumped delim out s =
      Some (Ok (p', j', out @ delimited delim ls), s') \<and> name_read s jumped e p' j' s'"
  using assms
proof (induction arbitrary: jumped delim out s rule: name_at.induct)
  case (name_end p)
  then show ?case using read_loop_end [of s p] by (auto simp: delimited_def)
next
  case (name_label l p ls e)
  from name_at_first_byte [OF name_label(5)] obtain b where "m (Suc p + length l) = Some b" ..
  with name_label read_loop_label [of lc l s p b jumped delim out] obtain s1 where
    s1: "ok s1" "contents s1 = contents s" "b_pos ops s1 = b_pos ops s"
      "read_qname_loop ops lc p jumped delim out s =
       read_qname_loop ops lc (Suc p + length l) jumped ''.'' (out @ delim @ l) s1"
    by auto
  have "(out @ delim @ l) @ delimited ''.'' ls = out @ delimited delim (l # ls)"
    by (simp add: delimited_def join_Cons)
  moreover have "name_read s1 jumped = name_read s jumped"
    using s1 by (auto simp: fun_eq_iff name_read_def)
  ultimately show ?case
    using name_label.IH [of s1 jumped "''.''" "out @ delim @ l"] s1 name_label.prems by auto
next
  case (name_jump p hi lo ls e)
  with read_loop_jump [of s p hi lo jumped lc delim out] obtain s1 where
    s1: "ok s1" "contents s1 = contents s"
      "b_pos ops s1 = (if jumped then b_pos ops s else p + 2)"
      "read_qname_loop ops lc p jumped delim out s =
       read_qname_loop ops lc (pointer_target hi lo) True delim out s1"
    by auto
  have "name_read s1 True e q True s2 \<Longrightarrow> name_read s jumped (p + 2) q True s2" for q s2
    using s1 by (auto simp: name_read_def)
  moreover have "name_read s1 True e q j s2 \<Longrightarrow> j" for q j s2
    by (simp add: name_read_def)
  ultimately show ?case
    using name_jump.IH [of s1 True delim out] s1 name_jump.prems by (metis (full_types))
qed

lemma read_qname_reads:
  assumes "name_at (stored s) (b_pos ops s) ls e" "ascii_lowercase lc"
    "\<forall>l \<in> set ls. lower_ascii l" "ok s"
  shows "reads (read_qname ops lc out) s (out @ join ''.'' ls) e"
proof -
  obtain p' j' s' where r: "read_qname_loop ops lc (b_pos ops s) False [] out s =
      Some (Ok (p', j', out @ delimited [] ls), s')" "name_read s False e p' j' s'"
    using read_loop_name [OF assms(1) refl assms(2-4)] by blast
  have "delimited [] ls = join ''.'' ls" by (simp add: delimited_def)
  with r seek_stored [of s' p'] show ?thesis
    by (auto simp: yields_def read_qname_def name_read_def split: if_splits)
qed

end

subsection \<open>The implementations\<close>

interpretation vector_reader: buffer_reader vector_ops "\<lambda>_. True" vec 0
  by unfold_locales (auto simp: vector_ops_def yields_def)

interpretation byte_reader: buffer_reader byte_ops byte_wf buf 1
  by unfold_locales (auto simp: byte_ops_def yields_def byte_wf_def)

lemma fill_bytes_spec:
  "fill_bytes n b st = (ok, b', st') \<Longrightarrow>
     b' @ st' = b @ st \<and> (ok \<longleftrightarrow> n \<le> length (b @ st)) \<and> (ok \<longrightarrow> n \<le> length b')"
  by (induction n b st rule: fill_bytes.induct) (auto split: if_splits)

definition stream_contents :: "stream_buffer \<Rightarrow> u8 list" where
  "stream_contents s = sbuf s @ stream s"

lemma stream_fill_ok:
  "n \<le> length (stream_contents s) \<Longrightarrow>
     \<exists>s'. stream_fill n s = (Ok (), s') \<and> stream_contents s' = stream_contents s \<and>
          spos s' = spos s \<and> n \<le> length (sbuf s')"
proof -
  assume n: "n \<le> length (stream_contents s)"
  obtain ok b st where f: "fill_bytes n (sbuf s) (stream s) = (ok, b, st)"
    by (metis prod_cases3)
  from fill_bytes_spec [OF f] n f show ?thesis
    by (auto simp: stream_fill_def stream_contents_def)
qed

lemma stream_fill_bind:
  assumes "n \<le> length (stream_contents s)"
    and "\<And>s'. stream_contents s' = stream_contents s \<Longrightarrow> spos s' = spos s \<Longrightarrow>
      n \<le> length (sbuf s') \<Longrightarrow> yields (\<lambda>_. True) stream_contents spos c s' v e"
  shows "yields (\<lambda>_. True) stream_contents spos (andthen (stream_fill n) c) s v e"
  using stream_fill_ok [OF assms(1)] assms(2) by (fastforce simp: yields_def)

lemma stream_contents_prefix:
  "stream_contents s' = stream_contents s \<Longrightarrow> n \<le> length (sbuf s') \<Longrightarrow>
     i < n \<Longrightarrow> sbuf s' ! i = stream_contents s ! i"
  by (metis nth_append order_less_le_trans stream_contents_def)

lemma stream_contents_range:
  assumes "stream_contents s' = stream_contents s" "i + n \<le> length (sbuf s')"
  shows "take n (drop i (sbuf s')) = take n (drop i (stream_contents s))"
proof -
  have "stream_contents s = sbuf s' @ stream s'"
    using assms(1) by (simp add: stream_contents_def)
  with assms(2) show ?thesis by simp
qed

interpretation stream_reader: buffer_reader stream_ops "\<lambda>_. True" stream_contents 0
proof (unfold_locales, goal_cases)
  case 1
  show ?case by simp
next
  case (2 s)
  then have len: "Suc (spos s) \<le> length (stream_contents s)" by (simp add: stream_ops_def)
  have "yields (\<lambda>_. True) stream_contents spos
    (andthen (stream_fill (Suc (spos s))) (\<lambda>s. (Ok (sbuf s ! spos s), s\<lparr>spos := spos s + 1\<rparr>)))
    s (stream_contents s ! spos s) (spos s + 1)"
  proof (rule stream_fill_bind [OF len])
    fix s' :: stream_buffer
    assume *: "stream_contents s' = stream_contents s" "spos s' = spos s"
      "Suc (spos s) \<le> length (sbuf s')"
    then have "sbuf s' ! spos s = stream_contents s ! spos s"
      by (blast intro: stream_contents_prefix)
    with * show "yields (\<lambda>_. True) stream_contents spos
        (\<lambda>s. (Ok (sbuf s ! spos s), s\<lparr>spos := spos s + 1\<rparr>)) s'
        (stream_contents s ! spos s) (spos s + 1)"
      by (auto simp: yields_def stream_contents_def)
  qed
  then show ?case by (simp add: stream_ops_def yields_def)
next
  case (3 s p)
  have "yields (\<lambda>_. True) stream_contents spos
    (andthen (stream_fill (Suc p)) (\<lambda>s. (Ok (sbuf s ! p), s))) s (stream_contents s ! p) (spos s)"
    by (rule stream_fill_bind)
       (use 3 in \<open>auto simp: yields_def dest: stream_contents_prefix [where i = p]\<close>)
  then show ?case by (simp add: stream_ops_def)
next
  case (4 s start len)
  have "yields (\<lambda>_. True) stream_contents spos
    (andthen (stream_fill (start + len)) (\<lambda>s. (Ok (take len (drop start (sbuf s))), s))) s
    (take len (drop start (stream_contents s))) (spos s)"
    by (rule stream_fill_bind) (use 4 in \<open>auto simp: yields_def stream_contents_range\<close>)
  then show ?case by (simp add: stream_ops_def)
next
  case (5 s p)
  show ?case by (simp add: stream_ops_def yields_def stream_contents_def)
next
  case (6 s n)
  show ?case by (simp add: stream_ops_def yields_def stream_contents_def)
qed

end
