(* ===== verification/Buffer_Writer.thy ===== *)
theory Buffer_Writer
  imports Buffer_Reader
begin

text \<open>
  The contract of writing to a packet buffer and the client lemmas of the provided writing
  methods.  A writer exposes the bytes written so far, the labels it remembers and the room
  it has left; the growing vector has always room, the array up to 512 bytes.

  The central lemma is \<open>write_qname_writes\<close>: \<open>write_qname\<close> leaves a name at the old end of
  the buffer (\<open>name_at\<close>) and keeps the label table sound, that is, every remembered label
  points to a position below \<open>0x4000\<close> where that name is stored.
\<close>

subsection \<open>Compression pointers\<close>

lemma bit_three: "bit (3 :: 'a::len word) n \<longleftrightarrow> n < 2 \<and> n < LENGTH('a)"
proof -
  have "(3 :: 'a word) = mask 2" by (simp add: mask_eq_exp_minus_1)
  then show ?thesis by (simp only: bit_mask_iff) auto
qed

lemma bit_C000: "bit (0xC000 :: u16) n \<longleftrightarrow> n = 14 \<or> n = 15"
proof -
  have "(0xC000 :: u16) = push_bit 14 3" by simp
  then show ?thesis by (simp only: bit_push_bit_iff bit_three) auto
qed

lemma bit_C0: "bit (0xC0 :: 'a::len word) n \<longleftrightarrow> (n = 6 \<or> n = 7) \<and> n < LENGTH('a)"
proof -
  have "(0xC0 :: 'a word) = push_bit 6 3" by (simp add: push_bit_eq_mult)
  then show ?thesis by (simp only: bit_push_bit_iff bit_three) auto
qed

lemma bit_small: "p < 0x4000 \<Longrightarrow> bit (of_nat p :: u16) n \<Longrightarrow> n < 14"
proof -
  assume p: "p < 0x4000" and b: "bit (of_nat p :: u16) n"
  have "take_bit 14 p = p" using p by (simp add: take_bit_nat_eq_self)
  with b show "n < 14" by (metis bit_take_bit_iff bit_of_nat_iff)
qed

lemma pointer_bits:
  fixes w c d :: u16
  assumes c: "\<And>n. bit c n \<longleftrightarrow> n = 14 \<or> n = 15" and d: "\<And>n. bit d n \<longleftrightarrow> n = 6 \<or> n = 7"
    and w: "\<And>n. bit w n \<Longrightarrow> n < 14"
  shows "push_bit 8 (ucast (ucast (drop_bit 8 (w OR c)) :: u8) XOR d) OR
      ucast (ucast (take_bit 8 (w OR c)) :: u8) = w"
proof (rule bit_word_eqI)
  fix n :: nat
  assume "n < LENGTH(16)"
  then consider "n < 8" | "8 \<le> n \<and> n < 14" | "n = 14" | "n = 15" by fastforce
  then show "bit (push_bit 8 (ucast (ucast (drop_bit 8 (w OR c)) :: u8) XOR d) OR
      ucast (ucast (take_bit 8 (w OR c)) :: u8)) n = bit w n"
    by cases (auto simp: bit_simps c d dest: w)
qed

lemma pointer_round_trip:
  assumes "p < 0x4000"
  defines "v \<equiv> (of_nat p OR 0xC000 :: u16)"
  shows "pointer_target (ucast (drop_bit 8 v)) (ucast (v AND 0xFF)) = p"
    and "(ucast (drop_bit 8 v) :: u8) AND 0xC0 > 0"
proof -
  have "(push_bit 8 (ucast (ucast (drop_bit 8 v) :: u8) XOR 0xC0) OR
      ucast (ucast (v AND 0xFF) :: u8) :: u16) = of_nat p"
    unfolding v_def and_255
    by (rule pointer_bits) (simp_all only: bit_C000 bit_C0 bit_small [OF assms(1)], auto)
  moreover have "unat (of_nat p :: u16) = p"
    using assms(1) by (simp add: unat_of_nat)
  ultimately show "pointer_target (ucast (drop_bit 8 v)) (ucast (v AND 0xFF)) = p"
    by (simp add: pointer_target_def)
next
  have "bit v 15" unfolding v_def by (simp only: bit_or_iff bit_C000) simp
  then have "bit ((ucast (drop_bit 8 v) :: u8) AND 0xC0) 7"
    by (simp only: bit_and_iff bit_unsigned_iff bit_drop_bit_eq bit_C0 comp_def) simp
  then have "(ucast (drop_bit 8 v) :: u8) AND 0xC0 \<noteq> 0" by auto
  then show "(ucast (drop_bit 8 v) :: u8) AND 0xC0 > 0"
    by (simp add: word_neq_0_conv)
qed

subsection \<open>The contract\<close>

definition name_len :: "string list \<Rightarrow> nat" where
  "name_len ls = sum_list (map (\<lambda>l. length l + 1) ls) + 1"

definition valid_label :: "string \<Rightarrow> bool" where
  "valid_label l \<longleftrightarrow> l \<noteq> [] \<and> length l < 64 \<and> CHR ''.'' \<notin> set l"

definition valid_name :: "string \<Rightarrow> bool" where
  "valid_name q \<longleftrightarrow> (\<forall>l \<in> set (split_on CHR ''.'' q). valid_label l)"

lemma name_len_simps [simp]:
  "name_len [] = 1" "name_len (l # ls) = Suc (length l) + name_len ls"
  by (simp_all add: name_len_def)

definition label_at :: "memory \<Rightarrow> string \<Rightarrow> nat \<Rightarrow> bool" where
  "label_at m l p \<longleftrightarrow> p < 0x4000 \<and> (\<exists>e. name_at m p (split_on CHR ''.'' l) e)"

lemma label_at_mono: "label_at m l p \<Longrightarrow> m \<subseteq>\<^sub>m m' \<Longrightarrow> label_at m' l p"
  by (auto simp: label_at_def intro: name_at_mono)

locale buffer_writer =
  fixes ops :: "'s buffer_ops"
    and ok :: "'s \<Rightarrow> bool"
    and out :: "'s \<Rightarrow> u8 list"
    and labels :: "'s \<Rightarrow> string \<rightharpoonup> nat"
    and room :: "'s \<Rightarrow> nat \<Rightarrow> bool"
  assumes pos_out: "ok s \<Longrightarrow> b_pos ops s = length (out s)"
    and room_mono: "room s n \<Longrightarrow> k \<le> n \<Longrightarrow> room s k"
    and write_ok: "ok s \<Longrightarrow> room s 1 \<Longrightarrow>
      \<exists>s'. b_write ops b s = (Ok (), s') \<and> ok s' \<and> out s' = out s @ [b] \<and>
           labels s' = labels s \<and> (\<forall>n. room s (Suc n) \<longrightarrow> room s' n)"
    and set_ok: "ok s \<Longrightarrow> p < length (out s) \<Longrightarrow>
      \<exists>s'. b_set ops p b s = (Ok (), s') \<and> ok s' \<and> out s' = (out s)[p := b] \<and>
           labels s' = labels s \<and> room s' = room s"
    and find_ok: "ok s \<Longrightarrow> b_find_label ops l s = labels s l"
    and save_ok: "ok s \<Longrightarrow>
      \<exists>s'. b_save_label ops l p s = (Ok (), s') \<and> ok s' \<and> out s' = out s \<and> room s' = room s \<and>
           (labels s' = labels s \<or> labels s' = (labels s)(l \<mapsto> p))"
begin

text \<open>\<open>emits c s bs\<close>: the computation appends \<open>bs\<close> and leaves the labels alone.\<close>

definition emits :: "('s, unit) rust \<Rightarrow> 's \<Rightarrow> u8 list \<Rightarrow> bool" where
  "emits c s bs \<longleftrightarrow> (\<exists>s'. c s = (Ok (), s') \<and> ok s' \<and> out s' = out s @ bs \<and>
     labels s' = labels s \<and> (\<forall>n. room s (n + length bs) \<longrightarrow> room s' n))"

lemma emits_seq:
  assumes "emits c s xs" and "room s (length xs + length ys)"
    and "\<And>s'. ok s' \<Longrightarrow> room s' (length ys) \<Longrightarrow> emits d s' ys"
  shows "emits (andthen c d) s (xs @ ys)"
proof -
  obtain s1 where s1: "c s = (Ok (), s1)" "ok s1" "out s1 = out s @ xs" "labels s1 = labels s"
      "\<And>n. room s (n + length xs) \<Longrightarrow> room s1 n"
    using assms(1) by (auto simp: emits_def)
  from assms(2) have "room s1 (length ys)" by (auto intro: s1(5) simp: add.commute)
  from assms(3) [OF s1(2) this] obtain s2 where s2: "d s1 = (Ok (), s2)" "ok s2"
      "out s2 = out s1 @ ys" "labels s2 = labels s1" "\<And>n. room s1 (n + length ys) \<Longrightarrow> room s2 n"
    by (auto simp: emits_def)
  have "room s2 n" if "room s (n + length (xs @ ys))" for n
    using that by (intro s2(5) s1(5)) (simp add: ac_simps)
  with s1 s2 show ?thesis by (auto simp: emits_def)
qed

lemma emits_write: "ok s \<Longrightarrow> room s 1 \<Longrightarrow> emits (b_write ops b) s [b]"
  using write_ok [of s b] by (auto simp: emits_def)

lemma emits_write_u8: "ok s \<Longrightarrow> room s 1 \<Longrightarrow> emits (write_u8 ops b) s [b]"
  by (simp add: write_u8_def emits_write)

lemma emits_Cons:
  assumes "ok s" "room s (Suc (length ys))"
    and "\<And>s'. ok s' \<Longrightarrow> room s' (length ys) \<Longrightarrow> emits d s' ys"
  shows "emits (andthen (b_write ops b) d) s (b # ys)"
  using emits_seq [OF emits_write [OF assms(1)], of b ys d] assms room_mono [OF assms(2)] by simp

lemma emits_u16: "ok s \<Longrightarrow> room s 2 \<Longrightarrow> emits (write_u16 ops v) s (be16 v)"
  unfolding write_u16_def be16_def
  by (intro emits_Cons emits_write) (auto simp: numeral_2_eq_2)

lemma emits_u32: "ok s \<Longrightarrow> room s 4 \<Longrightarrow> emits (write_u32 ops v) s (be32 v)"
  unfolding write_u32_def be32_def
  by (intro emits_Cons emits_write) (auto simp: eval_nat_numeral)

lemma emits_for_each:
  "ok s \<Longrightarrow> room s (length bs) \<Longrightarrow> emits (for_each (write_u8 ops) bs) s bs"
proof (induction bs arbitrary: s)
  case Nil
  then show ?case by (auto simp: emits_def)
next
  case (Cons b bs)
  then show ?case
    by (auto simp: write_u8_def intro!: emits_Cons)
qed

text \<open>The end of \<open>write_qname\<close> after some labels: the rest of the loop and the terminator.\<close>

definition finish_name :: "string list \<Rightarrow> ('s, unit) rust" where
  "finish_name ls =
     bind (write_labels ops ls) (\<lambda>j. if j then return () else write_u8 ops 0)"

lemma finish_name_Nil: "finish_name [] = write_u8 ops 0"
  by (simp add: finish_name_def)

lemma finish_name_Cons:
  "finish_name (l # ls) s =
     (case b_find_label ops (join ''.'' (l # ls)) s of
        Some q \<Rightarrow> write_u16 ops (of_nat q OR 0xC000) s
      | None \<Rightarrow> andthen (b_save_label ops (join ''.'' (l # ls)) (b_pos ops s))
               (andthen (write_u8 ops (of_nat (length l)))
               (andthen (for_each (write_u8 ops) (as_bytes l)) (finish_name ls))) s)"
proof (cases "b_find_label ops (join ''.'' (l # ls)) s")
  case None
  have "finish_name (l # ls) s =
      bind (andthen (b_save_label ops (join ''.'' (l # ls)) (b_pos ops s))
        (andthen (write_u8 ops (of_nat (length l)))
        (andthen (for_each (write_u8 ops) (as_bytes l)) (write_labels ops ls))))
        (\<lambda>j. if j then return () else write_u8 ops 0) s"
    by (simp add: finish_name_def bind_def None)
  then show ?thesis by (simp only: None bind_assoc finish_name_def option.case)
next
  case (Some q)
  have "finish_name (l # ls) s =
      bind (andthen (write_u16 ops (of_nat q OR 0xC000)) (return True))
        (\<lambda>j. if j then return () else write_u8 ops 0) s"
    by (simp add: finish_name_def bind_def Some)
  also have "\<dots> = andthen (write_u16 ops (of_nat q OR 0xC000)) (return ()) s"
    by (simp only: bind_assoc bind_return if_True)
  also have "\<dots> = write_u16 ops (of_nat q OR 0xC000) s"
    by (simp add: bind_def split: prod.splits outcome.splits)
  finally show ?thesis by (simp add: Some)
qed

text \<open>The label table may hold entries for the longer names being written (\<open>P\<close>), whose
  terminator is still missing; every other entry is sound for the memory \<open>m\<close>.\<close>

definition sound :: "memory \<Rightarrow> string set \<Rightarrow> 's \<Rightarrow> bool" where
  "sound m P s \<longleftrightarrow> (\<forall>l p. labels s l = Some p \<longrightarrow> l \<in> P \<or> label_at m l p)"

definition name_written :: "nat set \<Rightarrow> string set \<Rightarrow> string list \<Rightarrow> 's \<Rightarrow> 's \<Rightarrow> u8 list \<Rightarrow> bool" where
  "name_written H P ls s s' bs \<longleftrightarrow> ok s' \<and> out s' = out s @ bs \<and> length bs \<le> name_len ls \<and>
     name_at (mem_of (out s') H) (length (out s)) ls (length (out s')) \<and>
     sound (mem_of (out s') H) P s' \<and> (\<forall>l \<in> P. labels s' l = labels s l) \<and>
     (\<forall>n. room s (n + name_len ls) \<longrightarrow> room s' n)"

lemma sound_mono: "sound m P s \<Longrightarrow> m \<subseteq>\<^sub>m m' \<Longrightarrow> labels s' = labels s \<Longrightarrow> sound m' P s'"
  unfolding sound_def using label_at_mono by metis

lemma sound_save:
  assumes "sound m P s" "m \<subseteq>\<^sub>m m'" "labels s' = labels s \<or> labels s' = (labels s)(n \<mapsto> q)"
  shows "sound m' (insert n P) s'"
  unfolding sound_def
proof (intro allI impI)
  fix l p
  assume "labels s' l = Some p"
  then have "l = n \<or> labels s l = Some p" using assms(3) by (auto split: if_splits)
  then have "l = n \<or> l \<in> P \<or> label_at m l p" using assms(1) unfolding sound_def by blast
  then show "l \<in> insert n P \<or> label_at m' l p" using label_at_mono [OF _ assms(2)] by blast
qed

lemma stored_end:
  assumes "H \<subseteq> {..<length b}"
  shows "bytes_at (mem_of (b @ bs) H) (length b) bs"
  using assms by (intro bytes_at_mem_of_append) auto

lemma write_pointer:
  assumes "ok s" "room s 2" "H \<subseteq> {..<length (out s)}" "sound (mem_of (out s) H) P s"
    and "labels s (join ''.'' ls) = Some q" "join ''.'' ls \<notin> P" "ls \<noteq> []"
    and "\<forall>l \<in> set ls. valid_label l" "2 \<le> name_len ls"
  shows "\<exists>s' bs. write_u16 ops (of_nat q OR 0xC000) s = (Ok (), s') \<and>
    name_written H P ls s s' bs"
proof -
  let ?v = "of_nat q OR 0xC000 :: u16" and ?bs = "be16 (of_nat q OR 0xC000)"
  obtain s' where s': "write_u16 ops ?v s = (Ok (), s')" "ok s'" "out s' = out s @ ?bs"
      "labels s' = labels s" "\<And>n. room s (n + 2) \<Longrightarrow> room s' n"
    using emits_u16 [OF assms(1,2), of ?v] by (auto simp: emits_def)
  let ?m = "mem_of (out s') H"
  have le: "mem_of (out s) H \<subseteq>\<^sub>m ?m" by (simp add: s'(3) mem_of_append)
  have "split_on CHR ''.'' (join ''.'' ls) = ls"
    using assms(7,8) by (intro split_on_join) (auto simp: valid_label_def)
  moreover have "label_at (mem_of (out s) H) (join ''.'' ls) q"
    using assms(4-6) by (auto simp: sound_def)
  ultimately obtain e where q: "q < 0x4000" "name_at (mem_of (out s) H) q ls e"
    by (auto simp: label_at_def)
  have "bytes_at ?m (length (out s)) ?bs"
    using stored_end [OF assms(3)] s'(3) by simp
  then have b: "?m (length (out s)) = Some (ucast (drop_bit 8 ?v))"
      "?m (Suc (length (out s))) = Some (ucast (?v AND 0xFF))"
    by (simp_all add: be16_def)
  have "name_at ?m (length (out s)) ls (length (out s) + 2)"
  proof (rule name_jump [OF b pointer_round_trip(2) [OF q(1)]])
    show "name_at ?m (pointer_target (ucast (drop_bit 8 ?v)) (ucast (?v AND 0xFF))) ls e"
      by (simp only: pointer_round_trip(1) [OF q(1)] name_at_mono [OF q(2) le])
  qed
  moreover have "sound ?m P s'" by (rule sound_mono [OF assms(4) le s'(4)])
  moreover have "room s' n" if "room s (n + name_len ls)" for n
    using that assms(9) by (intro s'(5)) (auto intro: room_mono)
  ultimately have "name_written H P ls s s' ?bs"
    using s' assms(9) by (simp add: name_written_def)
  with s'(1) show ?thesis by blast
qed

lemma write_label_bytes:
  assumes "ok s" "room s (Suc (length l))"
  shows "emits (andthen (write_u8 ops (of_nat (length l)))
    (for_each (write_u8 ops) (as_bytes l))) s (of_nat (length l) # as_bytes l)"
  unfolding write_u8_def [of _ "of_nat (length l)"]
  by (rule emits_Cons [OF assms(1)]) (use assms in \<open>auto intro: emits_for_each\<close>)

text \<open>Writing one new label: the table gains the name it starts, and the label's bytes follow.\<close>

definition label_written :: "string \<Rightarrow> string list \<Rightarrow> 's \<Rightarrow> 's \<Rightarrow> bool" where
  "label_written l ls s s' \<longleftrightarrow> ok s' \<and> out s' = out s @ of_nat (length l) # as_bytes l \<and>
     (labels s' = labels s \<or> labels s' = (labels s)(join ''.'' (l # ls) \<mapsto> length (out s))) \<and>
     (\<forall>n. room s (n + Suc (length l)) \<longrightarrow> room s' n)"

lemma write_new_label:
  assumes "ok s" "room s (Suc (length l))" "labels s (join ''.'' (l # ls)) = None"
  shows "\<exists>s'. finish_name (l # ls) s = finish_name ls s' \<and> label_written l ls s s'"
proof -
  obtain s1 where s1: "b_save_label ops (join ''.'' (l # ls)) (length (out s)) s = (Ok (), s1)"
      "ok s1" "out s1 = out s" "room s1 = room s"
      "labels s1 = labels s \<or> labels s1 = (labels s)(join ''.'' (l # ls) \<mapsto> length (out s))"
    using save_ok [OF assms(1)] by blast
  have "room s1 (Suc (length l))" using assms(2) s1(4) by simp
  from write_label_bytes [OF s1(2) this] obtain s2 where
    s2: "andthen (write_u8 ops (of_nat (length l))) (for_each (write_u8 ops) (as_bytes l)) s1
          = (Ok (), s2)" "ok s2" "out s2 = out s @ of_nat (length l) # as_bytes l"
      "labels s2 = labels s1" "\<And>n. room s1 (n + Suc (length l)) \<Longrightarrow> room s2 n"
    using s1(3) by (auto simp: emits_def)
  have "andthen (andthen (write_u8 ops (of_nat (length l)))
      (for_each (write_u8 ops) (as_bytes l))) (finish_name ls) s1 = finish_name ls s2"
    by (rule bind_Ok, rule s2(1))
  then have "andthen (write_u8 ops (of_nat (length l)))
      (andthen (for_each (write_u8 ops) (as_bytes l)) (finish_name ls)) s1 = finish_name ls s2"
    unfolding bind_assoc .
  then have "finish_name (l # ls) s = finish_name ls s2"
    using assms(1,3) s1(1) by (simp add: finish_name_Cons find_ok pos_out)
  with s1 s2 show ?thesis by (auto simp: label_written_def)
qed

lemma name_extended:
  assumes w: "label_written l ls s s2" "name_written H (insert (join ''.'' (l # ls)) P) ls s2 s3 bs"
    and H: "H \<subseteq> {..<length (out s)}" and valid: "\<forall>l \<in> set (l # ls). valid_label l"
    and p: "length (out s) < 0x4000" and fresh: "join ''.'' (l # ls) \<notin> P"
      "labels s (join ''.'' (l # ls)) = None"
  shows "name_written H P (l # ls) s s3 ((of_nat (length l) # as_bytes l) @ bs)"
proof -
  let ?lb = "of_nat (length l) # as_bytes l" and ?m = "mem_of (out s3) H"
  let ?name = "join ''.'' (l # ls)"
  have rest: "name_at ?m (length (out s2)) ls (length (out s3))"
      "sound ?m (insert ?name P) s3" "\<forall>l \<in> insert ?name P. labels s3 l = labels s2 l"
    using w(2) unfolding name_written_def by blast+
  have out3: "out s3 = out s @ ?lb @ bs" and "length (out s2) = Suc (length (out s)) + length l"
    using w by (simp_all add: label_written_def name_written_def)
  with rest(1) have tail: "name_at ?m (Suc (length (out s)) + length l) ls (length (out s3))" by (simp only:)
  have "bytes_at ?m (length (out s)) (?lb @ bs)"
    using stored_end [OF H] out3 by metis
  with tail have name: "name_at ?m (length (out s)) (l # ls) (length (out s3))"
    using valid by (intro name_label) (auto simp: valid_label_def)
  have "split_on CHR ''.'' ?name = l # ls"
    using valid by (intro split_on_join) (auto simp: valid_label_def)
  with name p have at: "label_at ?m ?name (length (out s))" by (auto simp: label_at_def)
  have "labels s3 ?name = None \<or> labels s3 ?name = Some (length (out s))"
    using w(1) rest(3) fresh(2) by (auto simp: label_written_def)
  with at rest(2) have "sound ?m P s3" unfolding sound_def by (metis insertE option.inject option.distinct(1))
  moreover have "\<forall>l' \<in> P. labels s3 l' = labels s l'"
    using w(1) rest(3) fresh(1) by (auto simp: label_written_def)
  moreover have "room s3 n" if "room s (n + name_len (l # ls))" for n
  proof -
    have "room s2 (n + name_len ls)"
      using that w(1) by (simp add: label_written_def ac_simps)
    then show ?thesis using w(2) by (simp add: name_written_def)
  qed
  ultimately show ?thesis using w(2) out3 name by (simp add: name_written_def)
qed

lemma finish_name_writes:
  assumes "ok s" "H \<subseteq> {..<length (out s)}" "\<forall>l \<in> set ls. valid_label l"
    and "room s (name_len ls)" "length (out s) + name_len ls \<le> 0x4000"
    and "sound (mem_of (out s) H) P s" "\<forall>l \<in> P. length (join ''.'' ls) < length l"
  shows "\<exists>s' bs. finish_name ls s = (Ok (), s') \<and> name_written H P ls s s' bs"
  using assms
proof (induction ls arbitrary: s P)
  case Nil
  obtain s' where s': "write_u8 ops 0 s = (Ok (), s')" "ok s'" "out s' = out s @ [0]"
      "labels s' = labels s" "\<And>n. room s (Suc n) \<Longrightarrow> room s' n"
    using emits_write_u8 [of s 0] Nil.prems by (auto simp: emits_def)
  have "mem_of (out s') H (length (out s)) = Some 0"
    using Nil.prems(2) s'(3) by (auto simp: mem_of_def)
  then have "name_at (mem_of (out s') H) (length (out s)) [] (length (out s'))"
    using s'(3) by (auto intro: name_end)
  moreover have "sound (mem_of (out s') H) P s'"
    using Nil.prems(6) s'(3,4) mem_of_append sound_mono by metis
  ultimately show ?case
    using s' by (auto simp: finish_name_Nil name_written_def)
next
  case (Cons l ls)
  let ?name = "join ''.'' (l # ls)"
  have fresh: "?name \<notin> P" using Cons.prems(7) by auto
  show ?case
  proof (cases "labels s ?name")
    case (Some q)
    have "2 \<le> name_len (l # ls)" by (cases ls) auto
    with write_pointer [of s H P "l # ls" q] Some Cons.prems fresh room_mono [OF Cons.prems(4)]
    show ?thesis by (auto simp: finish_name_Cons find_ok)
  next
    case None
    have "room s (Suc (length l))" using Cons.prems(4) by (auto intro: room_mono)
    from write_new_label [OF Cons.prems(1) this None] obtain s2 where
      s2: "finish_name (l # ls) s = finish_name ls s2" "label_written l ls s s2" by blast
    have "sound (mem_of (out s2) H) (insert ?name P) s2"
    proof (rule sound_save [OF Cons.prems(6), where q = "length (out s)"])
      show "mem_of (out s) H \<subseteq>\<^sub>m mem_of (out s2) H"
        using s2(2) mem_of_append by (simp add: label_written_def)
    qed (use s2(2) in \<open>simp add: label_written_def\<close>)
    moreover have "\<forall>l' \<in> insert ?name P. length (join ''.'' ls) < length l'"
      using Cons.prems(3,7) by (auto simp: join_Cons valid_label_def)
    moreover have "room s2 (name_len ls)"
      using Cons.prems(4) s2(2) by (simp add: label_written_def ac_simps)
    ultimately obtain s3 bs where
      "finish_name ls s2 = (Ok (), s3)" "name_written H (insert ?name P) ls s2 s3 bs"
      using Cons.IH [of s2 "insert ?name P"] Cons.prems(2,3,5) s2(2)
      by (fastforce simp: label_written_def)
    with name_extended [OF s2(2)] s2(1) Cons.prems(2,3,5) fresh None show ?thesis by fastforce
  qed
qed

text \<open>The whole of \<open>write_qname\<close>, for a name all of whose labels are valid.\<close>

lemma write_qname_writes:
  assumes "ok s" "H \<subseteq> {..<length (out s)}" "valid_name q"
    and "room s (name_len (split_on CHR ''.'' q))"
    and "length (out s) + name_len (split_on CHR ''.'' q) \<le> 0x4000"
    and "sound (mem_of (out s) H) {} s"
  shows "\<exists>s' bs. write_qname ops q s = (Ok (), s') \<and>
    name_written H {} (split_on CHR ''.'' q) s s' bs"
  using finish_name_writes [of s H "split_on CHR ''.'' q" "{}"] assms
  by (simp add: valid_name_def write_qname_def finish_name_def)

end

subsection \<open>The implementations\<close>

definition vector_wf :: "vector_buffer \<Rightarrow> bool" where
  "vector_wf s \<longleftrightarrow> vpos s = length (vec s)"

interpretation vector_writer: buffer_writer vector_ops vector_wf vec label_lookup "\<lambda>_ _. True"
  by unfold_locales (auto simp: vector_ops_def vector_wf_def)

definition byte_written :: "byte_buffer \<Rightarrow> u8 list" where
  "byte_written s = take (bpos s) (buf s)"

definition byte_room :: "byte_buffer \<Rightarrow> nat \<Rightarrow> bool" where
  "byte_room s n \<longleftrightarrow> bpos s + n \<le> 512"

interpretation byte_writer: buffer_writer byte_ops "\<lambda>s. byte_wf s \<and> bpos s \<le> 512"
  byte_written "\<lambda>_. Map.empty" byte_room
  by unfold_locales
     (auto simp: byte_ops_def byte_wf_def byte_written_def byte_room_def
        take_Suc_conv_app_nth take_update_swap nth_list_update list_update_append)

end
