(* ===== verification/Dns_Protocol.thy ===== *)
theory Dns_Protocol
  imports Buffer_Writer
begin

text \<open>
  The DNS protocol of \<^verbatim>\<open>hermes/hermesdns/src/dns/protocol.rs\<close>: query types, records, the
  header, questions and packets, with their reading, writing and the queries over a packet
  that the resolvers use.  Reading takes the Unicode lower-casing function \<open>lc\<close> that
  \<open>read_qname\<close> calls.  \<^verbatim>\<open>rand::random::<usize>()\<close> is an argument of the operations that
  pick a record at random.
\<close>

subsection \<open>Query types and result codes\<close>

datatype query_type =
    QT_UNKNOWN u16 | QT_A | QT_NS | QT_CNAME | QT_SOA | QT_MX | QT_TXT | QT_AAAA | QT_SRV | QT_OPT

fun to_num :: "query_type \<Rightarrow> u16" where
  "to_num (QT_UNKNOWN x) = x"
| "to_num QT_A = 1"
| "to_num QT_NS = 2"
| "to_num QT_CNAME = 5"
| "to_num QT_SOA = 6"
| "to_num QT_MX = 15"
| "to_num QT_TXT = 16"
| "to_num QT_AAAA = 28"
| "to_num QT_SRV = 33"
| "to_num QT_OPT = 41"

definition from_num :: "u16 \<Rightarrow> query_type" where
  "from_num num =
     (if num = 1 then QT_A else if num = 2 then QT_NS else if num = 5 then QT_CNAME
      else if num = 6 then QT_SOA else if num = 15 then QT_MX else if num = 16 then QT_TXT
      else if num = 28 then QT_AAAA else if num = 33 then QT_SRV else if num = 41 then QT_OPT
      else QT_UNKNOWN num)"

datatype result_code = NOERROR | FORMERR | SERVFAIL | NXDOMAIN | NOTIMP | REFUSED

fun rescode_u8 :: "result_code \<Rightarrow> u8" where
  "rescode_u8 NOERROR = 0"
| "rescode_u8 FORMERR = 1"
| "rescode_u8 SERVFAIL = 2"
| "rescode_u8 NXDOMAIN = 3"
| "rescode_u8 NOTIMP = 4"
| "rescode_u8 REFUSED = 5"

definition rescode_from_num :: "u8 \<Rightarrow> result_code" where
  "rescode_from_num num =
     (if num = 1 then FORMERR else if num = 2 then SERVFAIL else if num = 3 then NXDOMAIN
      else if num = 4 then NOTIMP else if num = 5 then REFUSED else NOERROR)"

subsection \<open>Records\<close>

datatype dns_record =
    UNKNOWN string u16 u16 u32                \<comment> \<open>domain, qtype, data_len, ttl\<close>
  | A string ipv4 u32                         \<comment> \<open>domain, addr, ttl\<close>
  | NS string string u32                      \<comment> \<open>domain, host, ttl\<close>
  | CNAME string string u32                   \<comment> \<open>domain, host, ttl\<close>
  | SOA string string string u32 u32 u32 u32 u32 u32
      \<comment> \<open>domain, m_name, r_name, serial, refresh, retry, expire, minimum, ttl\<close>
  | MX string u16 string u32                  \<comment> \<open>domain, priority, host, ttl\<close>
  | TXT string string u32                     \<comment> \<open>domain, data, ttl\<close>
  | AAAA string ipv6 u32                      \<comment> \<open>domain, addr, ttl\<close>
  | SRV string u16 u16 u16 string u32         \<comment> \<open>domain, priority, weight, port, host, ttl\<close>
  | OPT u16 u32 string                        \<comment> \<open>packet_len, flags, data\<close>

fun get_querytype :: "dns_record \<Rightarrow> query_type" where
  "get_querytype (A _ _ _) = QT_A"
| "get_querytype (AAAA _ _ _) = QT_AAAA"
| "get_querytype (NS _ _ _) = QT_NS"
| "get_querytype (CNAME _ _ _) = QT_CNAME"
| "get_querytype (SRV _ _ _ _ _ _) = QT_SRV"
| "get_querytype (MX _ _ _ _) = QT_MX"
| "get_querytype (UNKNOWN _ qtype _ _) = QT_UNKNOWN qtype"
| "get_querytype (SOA _ _ _ _ _ _ _ _ _) = QT_SOA"
| "get_querytype (TXT _ _ _) = QT_TXT"
| "get_querytype (OPT _ _ _) = QT_OPT"

fun get_domain :: "dns_record \<Rightarrow> string option" where
  "get_domain (A domain _ _) = Some domain"
| "get_domain (AAAA domain _ _) = Some domain"
| "get_domain (NS domain _ _) = Some domain"
| "get_domain (CNAME domain _ _) = Some domain"
| "get_domain (SRV domain _ _ _ _ _) = Some domain"
| "get_domain (MX domain _ _ _) = Some domain"
| "get_domain (UNKNOWN domain _ _ _) = Some domain"
| "get_domain (SOA domain _ _ _ _ _ _ _ _) = Some domain"
| "get_domain (TXT domain _ _) = Some domain"
| "get_domain (OPT _ _ _) = None"

fun get_ttl :: "dns_record \<Rightarrow> u32" where
  "get_ttl (A _ _ ttl) = ttl"
| "get_ttl (AAAA _ _ ttl) = ttl"
| "get_ttl (NS _ _ ttl) = ttl"
| "get_ttl (CNAME _ _ ttl) = ttl"
| "get_ttl (SRV _ _ _ _ _ ttl) = ttl"
| "get_ttl (MX _ _ _ ttl) = ttl"
| "get_ttl (UNKNOWN _ _ _ ttl) = ttl"
| "get_ttl (SOA _ _ _ _ _ _ _ _ ttl) = ttl"
| "get_ttl (TXT _ _ ttl) = ttl"
| "get_ttl (OPT _ _ _) = 0"

text \<open>The derived \<^verbatim>\<open>PartialEq\<close> of records goes through \<^verbatim>\<open>TransientTtl\<close>, whose equality is
  constantly true: records are compared without their time to live.\<close>

fun without_ttl :: "dns_record \<Rightarrow> dns_record" where
  "without_ttl (UNKNOWN d q l _) = UNKNOWN d q l 0"
| "without_ttl (A d a _) = A d a 0"
| "without_ttl (NS d h _) = NS d h 0"
| "without_ttl (CNAME d h _) = CNAME d h 0"
| "without_ttl (SOA d m r s f y e i _) = SOA d m r s f y e i 0"
| "without_ttl (MX d p h _) = MX d p h 0"
| "without_ttl (TXT d x _) = TXT d x 0"
| "without_ttl (AAAA d a _) = AAAA d a 0"
| "without_ttl (SRV d p w q h _) = SRV d p w q h 0"
| "without_ttl (OPT p f x) = OPT p f x"

definition record_eq :: "dns_record \<Rightarrow> dns_record \<Rightarrow> bool" where
  "record_eq r s \<longleftrightarrow> without_ttl r = without_ttl s"

text \<open>The body of \<^verbatim>\<open>DnsRecord::read\<close> after the common fields, one case per query type.\<close>

definition ipv4_of_raw :: "u32 \<Rightarrow> ipv4" where
  "ipv4_of_raw raw_addr =
     Ipv4Addr (ucast (drop_bit 24 raw_addr AND 0xFF)) (ucast (drop_bit 16 raw_addr AND 0xFF))
              (ucast (drop_bit 8 raw_addr AND 0xFF)) (ucast (raw_addr AND 0xFF))"

definition hi16 :: "u32 \<Rightarrow> u16" where
  "hi16 v = ucast (drop_bit 16 v AND 0xFFFF)"

definition lo16 :: "u32 \<Rightarrow> u16" where
  "lo16 v = ucast (v AND 0xFFFF)"

definition read_range :: "'s buffer_ops \<Rightarrow> u16 \<Rightarrow> ('s, string) rust" where
  "read_range ops data_len = (\<lambda>s.
     bind (b_get_range ops (b_pos ops s) (unat data_len)) (\<lambda>bs.
     andthen (b_step ops (unat data_len)) (return (from_utf8_lossy bs))) s)"

definition read_rdata ::
  "'s buffer_ops \<Rightarrow> (string \<Rightarrow> string) \<Rightarrow> string \<Rightarrow> u16 \<Rightarrow> u16 \<Rightarrow> u32 \<Rightarrow> u16 \<Rightarrow> ('s, dns_record) rust" where
  "read_rdata ops lc domain qtype_num class ttl data_len =
     (case from_num qtype_num of
        QT_A \<Rightarrow> bind (read_u32 ops) (\<lambda>raw_addr. return (A domain (ipv4_of_raw raw_addr) ttl))
      | QT_AAAA \<Rightarrow>
          bind (read_u32 ops) (\<lambda>raw_addr1. bind (read_u32 ops) (\<lambda>raw_addr2.
          bind (read_u32 ops) (\<lambda>raw_addr3. bind (read_u32 ops) (\<lambda>raw_addr4.
          return (AAAA domain (Ipv6Addr (hi16 raw_addr1) (lo16 raw_addr1)
            (hi16 raw_addr2) (lo16 raw_addr2) (hi16 raw_addr3) (lo16 raw_addr3)
            (hi16 raw_addr4) (lo16 raw_addr4)) ttl)))))
      | QT_NS \<Rightarrow> bind (read_qname ops lc []) (\<lambda>ns. return (NS domain ns ttl))
      | QT_CNAME \<Rightarrow> bind (read_qname ops lc []) (\<lambda>cname. return (CNAME domain cname ttl))
      | QT_SRV \<Rightarrow>
          bind (read_u16 ops) (\<lambda>priority. bind (read_u16 ops) (\<lambda>weight.
          bind (read_u16 ops) (\<lambda>port. bind (read_qname ops lc []) (\<lambda>srv.
          return (SRV domain priority weight port srv ttl)))))
      | QT_MX \<Rightarrow>
          bind (read_u16 ops) (\<lambda>priority. bind (read_qname ops lc []) (\<lambda>mx.
          return (MX domain priority mx ttl)))
      | QT_SOA \<Rightarrow>
          bind (read_qname ops lc []) (\<lambda>m_name. bind (read_qname ops lc []) (\<lambda>r_name.
          bind (read_u32 ops) (\<lambda>serial. bind (read_u32 ops) (\<lambda>refresh.
          bind (read_u32 ops) (\<lambda>retry. bind (read_u32 ops) (\<lambda>expire.
          bind (read_u32 ops) (\<lambda>minimum.
          return (SOA domain m_name r_name serial refresh retry expire minimum ttl))))))))
      | QT_TXT \<Rightarrow> bind (read_range ops data_len) (\<lambda>txt. return (TXT domain txt ttl))
      | QT_OPT \<Rightarrow> bind (read_range ops data_len) (\<lambda>data. return (OPT class ttl data))
      | QT_UNKNOWN _ \<Rightarrow>
          andthen (b_step ops (unat data_len)) (return (UNKNOWN domain qtype_num data_len ttl)))"

definition DnsRecord_read :: "'s buffer_ops \<Rightarrow> (string \<Rightarrow> string) \<Rightarrow> ('s, dns_record) rust" where
  "DnsRecord_read ops lc =
     bind (read_qname ops lc []) (\<lambda>domain.
     bind (read_u16 ops) (\<lambda>qtype_num.
     bind (read_u16 ops) (\<lambda>class.
     bind (read_u32 ops) (\<lambda>ttl.
     bind (read_u16 ops) (\<lambda>data_len.
     read_rdata ops lc domain qtype_num class ttl data_len)))))"

text \<open>Writing: the common fields of a record, and the pattern of a length field that is
  patched once the data behind it is written.\<close>

definition write_head :: "'s buffer_ops \<Rightarrow> string \<Rightarrow> query_type \<Rightarrow> u32 \<Rightarrow> ('s, unit) rust" where
  "write_head ops domain qtype ttl =
     andthen (write_qname ops domain)
    (andthen (write_u16 ops (to_num qtype))
    (andthen (write_u16 ops 1)
             (write_u32 ops ttl)))"

definition with_size :: "'s buffer_ops \<Rightarrow> ('s, unit) rust \<Rightarrow> ('s, unit) rust" where
  "with_size ops body = (\<lambda>s0. let pos = b_pos ops s0 in
     andthen (write_u16 ops 0)
    (andthen body
    (\<lambda>s. set_u16 ops pos (of_nat (b_pos ops s - (pos + 2))) s)) s0)"

fun write_fields :: "'s buffer_ops \<Rightarrow> dns_record \<Rightarrow> ('s, unit) rust" where
  "write_fields ops (A domain addr ttl) =
     andthen (write_head ops domain QT_A ttl)
    (andthen (write_u16 ops 4)
             (for_each (write_u8 ops) (octets addr)))"
| "write_fields ops (AAAA domain addr ttl) =
     andthen (write_head ops domain QT_AAAA ttl)
    (andthen (write_u16 ops 16)
             (for_each (write_u16 ops) (segments addr)))"
| "write_fields ops (NS domain host ttl) =
     andthen (write_head ops domain QT_NS ttl) (with_size ops (write_qname ops host))"
| "write_fields ops (CNAME domain host ttl) =
     andthen (write_head ops domain QT_CNAME ttl) (with_size ops (write_qname ops host))"
| "write_fields ops (SRV domain priority weight port host ttl) =
     andthen (write_head ops domain QT_SRV ttl) (with_size ops
       (andthen (write_u16 ops priority) (andthen (write_u16 ops weight)
       (andthen (write_u16 ops port) (write_qname ops host)))))"
| "write_fields ops (MX domain priority host ttl) =
     andthen (write_head ops domain QT_MX ttl) (with_size ops
       (andthen (write_u16 ops priority) (write_qname ops host)))"
| "write_fields ops (SOA domain m_name r_name serial refresh retry expire minimum ttl) =
     andthen (write_head ops domain QT_SOA ttl) (with_size ops
       (andthen (write_qname ops m_name) (andthen (write_qname ops r_name)
       (andthen (write_u32 ops serial) (andthen (write_u32 ops refresh)
       (andthen (write_u32 ops retry) (andthen (write_u32 ops expire)
                (write_u32 ops minimum))))))))"
| "write_fields ops (TXT domain data ttl) =
     andthen (write_head ops domain QT_TXT ttl)
    (andthen (write_u16 ops (of_nat (length data)))
             (for_each (write_u8 ops) (as_bytes data)))"
| "write_fields ops (OPT _ _ _) = return ()"
| "write_fields ops (UNKNOWN _ _ _ _) = return ()"

definition DnsRecord_write :: "'s buffer_ops \<Rightarrow> dns_record \<Rightarrow> ('s, nat) rust" where
  "DnsRecord_write ops r = (\<lambda>s0. let start_pos = b_pos ops s0 in
     andthen (write_fields ops r) (\<lambda>s. (Ok (b_pos ops s - start_pos), s)) s0)"

subsection \<open>Header\<close>

record dns_header =
  h_id :: u16
  recursion_desired :: bool
  truncated_message :: bool
  authoritative_answer :: bool
  opcode :: u8
  response :: bool
  rescode :: result_code
  checking_disabled :: bool
  authed_data :: bool
  z_bit :: bool
  recursion_available :: bool
  h_questions :: u16
  h_answers :: u16
  h_authoritative_entries :: u16
  h_resource_entries :: u16

definition DnsHeader_new :: dns_header where
  "DnsHeader_new = \<lparr>h_id = 0, recursion_desired = False, truncated_message = False,
     authoritative_answer = False, opcode = 0, response = False, rescode = NOERROR,
     checking_disabled = False, authed_data = False, z_bit = False, recursion_available = False,
     h_questions = 0, h_answers = 0, h_authoritative_entries = 0, h_resource_entries = 0\<rparr>"

definition bool_u8 :: "bool \<Rightarrow> u8" where
  "bool_u8 b = (if b then 1 else 0)"

definition flags_hi :: "dns_header \<Rightarrow> u8" where
  "flags_hi h = bool_u8 (recursion_desired h) OR push_bit 1 (bool_u8 (truncated_message h)) OR
     push_bit 2 (bool_u8 (authoritative_answer h)) OR push_bit 3 (opcode h) OR
     push_bit 7 (bool_u8 (response h))"

definition flags_lo :: "dns_header \<Rightarrow> u8" where
  "flags_lo h = rescode_u8 (rescode h) OR push_bit 4 (bool_u8 (checking_disabled h)) OR
     push_bit 5 (bool_u8 (authed_data h)) OR push_bit 6 (bool_u8 (z_bit h)) OR
     push_bit 7 (bool_u8 (recursion_available h))"

definition DnsHeader_write :: "'s buffer_ops \<Rightarrow> dns_header \<Rightarrow> ('s, unit) rust" where
  "DnsHeader_write ops h =
     andthen (write_u16 ops (h_id h))
    (andthen (write_u8 ops (flags_hi h))
    (andthen (write_u8 ops (flags_lo h))
    (andthen (write_u16 ops (h_questions h))
    (andthen (write_u16 ops (h_answers h))
    (andthen (write_u16 ops (h_authoritative_entries h))
             (write_u16 ops (h_resource_entries h)))))))"

definition header_binary_len :: "dns_header \<Rightarrow> nat" where
  "header_binary_len h = 12"

definition DnsHeader_read :: "'s buffer_ops \<Rightarrow> ('s, dns_header) rust" where
  "DnsHeader_read ops =
     bind (read_u16 ops) (\<lambda>ident.
     bind (read_u16 ops) (\<lambda>flags. let a = ucast (drop_bit 8 flags) :: u8;
                                      b = ucast (flags AND 0xFF) :: u8 in
     bind (read_u16 ops) (\<lambda>qs.
     bind (read_u16 ops) (\<lambda>ans.
     bind (read_u16 ops) (\<lambda>auth.
     bind (read_u16 ops) (\<lambda>res.
     return \<lparr>h_id = ident,
       recursion_desired = a AND 1 > 0,
       truncated_message = a AND push_bit 1 1 > 0,
       authoritative_answer = a AND push_bit 2 1 > 0,
       opcode = drop_bit 3 a AND 0x0F,
       response = a AND push_bit 7 1 > 0,
       rescode = rescode_from_num (b AND 0x0F),
       checking_disabled = b AND push_bit 4 1 > 0,
       authed_data = b AND push_bit 5 1 > 0,
       z_bit = b AND push_bit 6 1 > 0,
       recursion_available = b AND push_bit 7 1 > 0,
       h_questions = qs, h_answers = ans, h_authoritative_entries = auth,
       h_resource_entries = res\<rparr>))))))"

subsection \<open>Questions\<close>

record dns_question =
  q_name :: string
  q_type :: query_type

definition DnsQuestion_new :: "string \<Rightarrow> query_type \<Rightarrow> dns_question" where
  "DnsQuestion_new nm qt = \<lparr>q_name = nm, q_type = qt\<rparr>"

definition question_binary_len :: "dns_question \<Rightarrow> nat" where
  "question_binary_len q =
     fold (\<lambda>y x. x + y) (map (\<lambda>x. length x + 1) (split_on CHR ''.'' (q_name q))) 1"

definition DnsQuestion_write :: "'s buffer_ops \<Rightarrow> dns_question \<Rightarrow> ('s, unit) rust" where
  "DnsQuestion_write ops q =
     andthen (write_qname ops (q_name q))
    (andthen (write_u16 ops (to_num (q_type q)))
             (write_u16 ops 1))"

definition DnsQuestion_read ::
  "'s buffer_ops \<Rightarrow> (string \<Rightarrow> string) \<Rightarrow> dns_question \<Rightarrow> ('s, dns_question) rust" where
  "DnsQuestion_read ops lc q =
     bind (read_qname ops lc (q_name q)) (\<lambda>nm.
     bind (read_u16 ops) (\<lambda>num.
     bind (read_u16 ops) (\<lambda>_.
     return \<lparr>q_name = nm, q_type = from_num num\<rparr>)))"

subsection \<open>Packets\<close>

record dns_packet =
  header :: dns_header
  questions :: "dns_question list"
  answers :: "dns_record list"
  authorities :: "dns_record list"
  resources :: "dns_record list"

definition DnsPacket_new :: dns_packet where
  "DnsPacket_new = \<lparr>header = DnsHeader_new, questions = [], answers = [], authorities = [],
     resources = []\<rparr>"

definition from_buffer :: "'s buffer_ops \<Rightarrow> (string \<Rightarrow> string) \<Rightarrow> ('s, dns_packet) rust" where
  "from_buffer ops lc =
     bind (DnsHeader_read ops) (\<lambda>h.
     bind (repeat (unat (h_questions h)) (DnsQuestion_read ops lc (DnsQuestion_new [] (QT_UNKNOWN 0))))
       (\<lambda>qs.
     bind (repeat (unat (h_answers h)) (DnsRecord_read ops lc)) (\<lambda>ans.
     bind (repeat (unat (h_authoritative_entries h)) (DnsRecord_read ops lc)) (\<lambda>auth.
     bind (repeat (unat (h_resource_entries h)) (DnsRecord_read ops lc)) (\<lambda>res.
     return \<lparr>header = h, questions = qs, answers = ans, authorities = auth,
             resources = res\<rparr>)))))"

text \<open>Queries over a packet.  \<open>rnd\<close> is the value of \<^verbatim>\<open>random::<usize>()\<close>.\<close>

fun soa_minimum :: "dns_record list \<Rightarrow> u32 option" where
  "soa_minimum [] = None"
| "soa_minimum (SOA _ _ _ _ _ _ _ minimum _ # rs) = Some minimum"
| "soa_minimum (_ # rs) = soa_minimum rs"

definition get_ttl_from_soa :: "dns_packet \<Rightarrow> u32 option" where
  "get_ttl_from_soa p = soa_minimum (authorities p)"

definition get_random_a :: "nat \<Rightarrow> dns_packet \<Rightarrow> string option" where
  "get_random_a rnd p =
     (if answers p \<noteq> [] then
        (case answers p ! (rnd mod length (answers p)) of
           A _ addr _ \<Rightarrow> Some (show_ipv4 addr)
         | _ \<Rightarrow> None)
      else None)"

fun first_a :: "dns_record list \<Rightarrow> string option" where
  "first_a [] = None"
| "first_a (A _ addr _ # rs) = Some (show_ipv4 addr)"
| "first_a (_ # rs) = first_a rs"

definition get_first_a :: "dns_packet \<Rightarrow> string option" where
  "get_first_a p = (if answers p \<noteq> [] then first_a (answers p) else None)"

definition is_a_for :: "string \<Rightarrow> dns_record \<Rightarrow> bool" where
  "is_a_for h r = (case r of A d _ _ \<Rightarrow> d = h | _ \<Rightarrow> False)"

definition get_unresolved_cnames :: "dns_packet \<Rightarrow> dns_record list" where
  "get_unresolved_cnames p = filter (\<lambda>answer.
     \<not> (case answer of CNAME _ h _ \<Rightarrow> list_ex (is_a_for h) (answers p) | _ \<Rightarrow> False)) (answers p)"

definition glue_records :: "dns_packet \<Rightarrow> string \<Rightarrow> dns_record list" where
  "glue_records p h = List.map_filter (\<lambda>rsrc. case rsrc of
       A d addr t \<Rightarrow> if d \<noteq> h then None else Some (A h addr t)
     | _ \<Rightarrow> None) (resources p)"

definition ns_hosts :: "dns_packet \<Rightarrow> string \<Rightarrow> string list" where
  "ns_hosts p qname = List.map_filter (\<lambda>auth. case auth of
       NS d h _ \<Rightarrow> if ends_with qname d then Some h else None
     | _ \<Rightarrow> None) (authorities p)"

definition get_resolved_ns :: "nat \<Rightarrow> dns_packet \<Rightarrow> string \<Rightarrow> string option" where
  "get_resolved_ns rnd p qname =
     (let new_authorities = concat (map (glue_records p) (ns_hosts p qname)) in
      if new_authorities \<noteq> [] then
        (case new_authorities ! (rnd mod length new_authorities) of
           A _ addr _ \<Rightarrow> Some (show_ipv4 addr)
         | _ \<Rightarrow> None)
      else None)"

definition get_unresolved_ns :: "nat \<Rightarrow> dns_packet \<Rightarrow> string \<Rightarrow> string option" where
  "get_unresolved_ns rnd p qname =
     (let new_authorities = ns_hosts p qname in
      if new_authorities \<noteq> [] then Some (new_authorities ! (rnd mod length new_authorities))
      else None)"

text \<open>Writing a packet: the records are first written to a test buffer to find how many fit
  and to count them in the header.  The result is the packet with the header that
  \<^verbatim>\<open>&mut self\<close> is left with.\<close>

definition all_records :: "dns_packet \<Rightarrow> dns_record list" where
  "all_records p = answers p @ authorities p @ resources p"

definition count_record :: "dns_packet \<Rightarrow> nat \<Rightarrow> dns_header \<Rightarrow> dns_header" where
  "count_record p i h =
     (if i < length (answers p) then h\<lparr>h_answers := h_answers h + 1\<rparr>
      else if i < length (answers p) + length (authorities p)
        then h\<lparr>h_authoritative_entries := h_authoritative_entries h + 1\<rparr>
      else h\<lparr>h_resource_entries := h_resource_entries h + 1\<rparr>)"

fun fit_records :: "dns_packet \<Rightarrow> nat \<Rightarrow> nat \<Rightarrow> nat \<Rightarrow> dns_header \<Rightarrow> dns_record list \<Rightarrow>
    (vector_buffer, nat \<times> dns_header) rust" where
  "fit_records p max_size i sz h [] = return (i, h)"
| "fit_records p max_size i sz h (r # rs) =
     bind (DnsRecord_write vector_ops r) (\<lambda>n.
       if sz + n > max_size then return (i, h\<lparr>truncated_message := True\<rparr>)
       else fit_records p max_size (i + 1) (sz + n) (count_record p i h) rs)"

definition packet_plan :: "dns_packet \<Rightarrow> nat \<Rightarrow> (vector_buffer, nat \<times> dns_header) rust" where
  "packet_plan p max_size =
     andthen (for_each (DnsQuestion_write vector_ops) (questions p))
       (fit_records p max_size 0
          (header_binary_len (header p) + sum_list (map question_binary_len (questions p)))
          (header p) (all_records p))"

definition DnsPacket_write :: "'s buffer_ops \<Rightarrow> dns_packet \<Rightarrow> nat \<Rightarrow> ('s, dns_packet) rust" where
  "DnsPacket_write ops p max_size = (\<lambda>s.
     case packet_plan p max_size VectorPacketBuffer_new of
       (Err e, _) \<Rightarrow> (Err e, s)
     | (Panic, _) \<Rightarrow> (Panic, s)
     | (Diverge, _) \<Rightarrow> (Diverge, s)
     | (Ok (record_count, h), _) \<Rightarrow>
         let h' = h\<lparr>h_questions := of_nat (length (questions p))\<rparr> in
         andthen (DnsHeader_write ops h')
        (andthen (for_each (DnsQuestion_write ops) (questions p))
        (andthen (for_each (\<lambda>r. andthen (DnsRecord_write ops r) (return ()))
                    (take record_count (all_records p)))
                 (return (p\<lparr>header := h'\<rparr>)))) s)"

end
