(* ===== verification/Dns_Cache.thy ===== *)
theory Dns_Cache
  imports Dns_Protocol
begin

text \<open>
  The cache of \<^verbatim>\<open>hermes/hermesdns/src/dns/cache.rs\<close>.  A domain entry keeps, per query type,
  either the records seen with the time each was stored, or the fact that there are none.

  Times are nanoseconds; every call of \<^verbatim>\<open>Local::now()\<close> is an argument of the operation that
  makes it.  A \<^verbatim>\<open>HashSet<RecordEntry>\<close> is a list of entries, of which no two are equal for the
  source's equality (\<open>record_eq\<close>, which ignores the time to live); its order stands for the
  unspecified iteration order and no theorem depends on it.  \<open>held d\<close> says that a caller of
  \<^verbatim>\<open>list\<close> still holds the \<^verbatim>\<open>Arc\<close> of domain \<open>d\<close>, in which case \<^verbatim>\<open>Arc::get_mut\<close> fails.
\<close>

subsection \<open>Domain entries\<close>

datatype cache_state = PositiveCache | NegativeCache | NotCached

record record_entry =
  e_record :: dns_record
  e_timestamp :: nat

datatype record_set =
    NoRecords query_type u32 nat
  | Records query_type "record_entry list"

record domain_entry =
  de_domain :: string
  record_types :: "query_type \<rightharpoonup> record_set"
  hits :: u32
  updates :: u32

definition entry_eq :: "record_entry \<Rightarrow> record_entry \<Rightarrow> bool" where
  "entry_eq e f = record_eq (e_record e) (e_record f)"

definition DomainEntry_new :: "string \<Rightarrow> domain_entry" where
  "DomainEntry_new d = \<lparr>de_domain = d, record_types = Map.empty, hits = 0, updates = 0\<rparr>"

definition entry_store_nxdomain :: "nat \<Rightarrow> query_type \<Rightarrow> u32 \<Rightarrow> domain_entry \<Rightarrow> domain_entry" where
  "entry_store_nxdomain now qtype ttl e =
     e\<lparr>updates := updates e + 1, record_types := (record_types e)(qtype \<mapsto> NoRecords qtype ttl now)\<rparr>"

text \<open>\<^verbatim>\<open>HashSet::insert\<close> keeps an equal element that is already there, so the source removes it
  first to refresh the time stamp and the time to live.\<close>

definition hashset_remove :: "record_entry \<Rightarrow> record_entry list \<Rightarrow> record_entry list" where
  "hashset_remove e es = filter (\<lambda>f. \<not> entry_eq e f) es"

definition hashset_insert :: "record_entry \<Rightarrow> record_entry list \<Rightarrow> record_entry list" where
  "hashset_insert e es = (if list_ex (entry_eq e) es then es else e # es)"

definition store_record :: "nat \<Rightarrow> dns_record \<Rightarrow> domain_entry \<Rightarrow> domain_entry" where
  "store_record now rec e =
     (let entry = \<lparr>e_record = rec, e_timestamp = now\<rparr>; qt = get_querytype rec in
      case record_types e qt of
        Some (Records q records) \<Rightarrow>
          let records1 = (if list_ex (entry_eq entry) records then hashset_remove entry records else records)
          in e\<lparr>updates := updates e + 1,
               record_types := (record_types e)(qt \<mapsto> Records q (hashset_insert entry records1))\<rparr>
      | _ \<Rightarrow> e\<lparr>updates := updates e + 1,
               record_types := (record_types e)(qt \<mapsto> Records qt (hashset_insert entry []))\<rparr>)"

definition seconds :: "u32 \<Rightarrow> nat" where
  "seconds t = unat t * 10 ^ 9"

definition expires :: "record_entry \<Rightarrow> nat" where
  "expires e = e_timestamp e + seconds (get_ttl (e_record e))"

definition valid_entries :: "nat \<Rightarrow> query_type \<Rightarrow> record_entry list \<Rightarrow> record_entry list" where
  "valid_entries now qtype records =
     filter (\<lambda>e. \<not> expires e < now \<and> get_querytype (e_record e) = qtype) records"

definition entry_cache_state :: "nat \<Rightarrow> query_type \<Rightarrow> domain_entry \<Rightarrow> cache_state" where
  "entry_cache_state now qtype e =
     (case record_types e qtype of
        Some (Records _ records) \<Rightarrow>
          if length (valid_entries now qtype records) > 0 then PositiveCache else NotCached
      | Some (NoRecords _ ttl timestamp) \<Rightarrow>
          if timestamp + seconds ttl < now then NotCached else NegativeCache
      | None \<Rightarrow> NotCached)"

definition entry_fill_queryresult :: "nat \<Rightarrow> query_type \<Rightarrow> domain_entry \<Rightarrow> dns_record list" where
  "entry_fill_queryresult now qtype e =
     (case record_types e qtype of
        Some (Records _ records) \<Rightarrow> map e_record (valid_entries now qtype records)
      | _ \<Rightarrow> [])"

subsection \<open>The cache\<close>

type_synonym dns_cache = "string \<rightharpoonup> domain_entry"

definition Cache_new :: dns_cache where
  "Cache_new = Map.empty"

definition get_cache_state :: "nat \<Rightarrow> dns_cache \<Rightarrow> string \<Rightarrow> query_type \<Rightarrow> cache_state" where
  "get_cache_state now c qname qtype =
     (case c qname of Some x \<Rightarrow> entry_cache_state now qtype x | None \<Rightarrow> NotCached)"

definition get_mut :: "(string \<Rightarrow> bool) \<Rightarrow> dns_cache \<Rightarrow> string \<Rightarrow> domain_entry option" where
  "get_mut held c d = (if held d then None else c d)"

definition fill_queryresult ::
  "(string \<Rightarrow> bool) \<Rightarrow> nat \<Rightarrow> string \<Rightarrow> query_type \<Rightarrow> bool \<Rightarrow> dns_cache \<Rightarrow> dns_record list \<times> dns_cache" where
  "fill_queryresult held now qname qtype increment_stats c =
     (case get_mut held c qname of
        Some e \<Rightarrow>
          let e' = (if increment_stats then e\<lparr>hits := hits e + 1\<rparr> else e)
          in (entry_fill_queryresult now qtype e', c(qname \<mapsto> e'))
      | None \<Rightarrow> ([], c))"

definition cache_lookup ::
  "(string \<Rightarrow> bool) \<Rightarrow> nat \<times> nat \<times> nat \<Rightarrow> string \<Rightarrow> query_type \<Rightarrow> dns_cache \<Rightarrow>
     dns_packet option \<times> dns_cache" where
  "cache_lookup held = (\<lambda>(now1, now2, now3) qname qtype c.
     case get_cache_state now1 c qname qtype of
       PositiveCache \<Rightarrow>
         (case fill_queryresult held now2 qname qtype True c of (answer, c1) \<Rightarrow>
          case fill_queryresult held now3 qname QT_NS False c1 of (auth, c2) \<Rightarrow>
            (Some (DnsPacket_new\<lparr>answers := answer, authorities := auth\<rparr>), c2))
     | NegativeCache \<Rightarrow>
         (Some (DnsPacket_new\<lparr>header := DnsHeader_new\<lparr>rescode := NXDOMAIN\<rparr>\<rparr>), c)
     | NotCached \<Rightarrow> (None, c))"

definition store_one :: "(string \<Rightarrow> bool) \<Rightarrow> nat \<Rightarrow> dns_record \<Rightarrow> dns_cache \<Rightarrow> dns_cache" where
  "store_one held now rec c =
     (case get_domain rec of
        None \<Rightarrow> c
      | Some d \<Rightarrow>
          (case get_mut held c d of
             Some rs \<Rightarrow> c(d \<mapsto> store_record now rec rs)
           | None \<Rightarrow> c(d \<mapsto> store_record now rec (DomainEntry_new d))))"

text \<open>\<open>now i\<close> is the clock when the record number \<open>i\<close> is stored.\<close>

definition stamped :: "(nat \<Rightarrow> nat) \<Rightarrow> dns_record list \<Rightarrow> (nat \<times> dns_record) list" where
  "stamped now records = zip (map now [0..<length records]) records"

definition cache_store ::
  "(string \<Rightarrow> bool) \<Rightarrow> (nat \<Rightarrow> nat) \<Rightarrow> dns_record list \<Rightarrow> dns_cache \<Rightarrow> dns_cache" where
  "cache_store held now records c = fold (\<lambda>(t, rec). store_one held t rec) (stamped now records) c"

definition cache_store_nxdomain ::
  "(string \<Rightarrow> bool) \<Rightarrow> nat \<Rightarrow> string \<Rightarrow> query_type \<Rightarrow> u32 \<Rightarrow> dns_cache \<Rightarrow> dns_cache" where
  "cache_store_nxdomain held now qname qtype ttl c =
     (case get_mut held c qname of
        Some rs \<Rightarrow> c(qname \<mapsto> entry_store_nxdomain now qtype ttl rs)
      | None \<Rightarrow> c(qname \<mapsto> entry_store_nxdomain now qtype ttl (DomainEntry_new qname)))"

subsection \<open>The lock around it\<close>

text \<open>\<^verbatim>\<open>SynchronizedCache\<close>: every operation takes the write lock.  A lock is poisoned when a holder
  panicked; then a lookup finds nothing and a store is an error.\<close>

record sync_cache =
  poisoned :: bool
  cache :: dns_cache

definition sync_lookup ::
  "(string \<Rightarrow> bool) \<Rightarrow> nat \<times> nat \<times> nat \<Rightarrow> string \<Rightarrow> query_type \<Rightarrow> sync_cache \<Rightarrow>
     dns_packet option \<times> sync_cache" where
  "sync_lookup held now qname qtype sc =
     (if poisoned sc then (None, sc)
      else case cache_lookup held now qname qtype (cache sc) of (r, c) \<Rightarrow> (r, sc\<lparr>cache := c\<rparr>))"

definition sync_store :: "(string \<Rightarrow> bool) \<Rightarrow> (nat \<Rightarrow> nat) \<Rightarrow> dns_record list \<Rightarrow> (sync_cache, unit) rust" where
  "sync_store held now records sc =
     (if poisoned sc then (Err Other, sc)
      else (Ok (), sc\<lparr>cache := cache_store held now records (cache sc)\<rparr>))"

definition sync_store_nxdomain ::
  "(string \<Rightarrow> bool) \<Rightarrow> nat \<Rightarrow> string \<Rightarrow> query_type \<Rightarrow> u32 \<Rightarrow> (sync_cache, unit) rust" where
  "sync_store_nxdomain held now qname qtype ttl sc =
     (if poisoned sc then (Err Other, sc)
      else (Ok (), sc\<lparr>cache := cache_store_nxdomain held now qname qtype ttl (cache sc)\<rparr>))"

subsection \<open>Well-formed caches\<close>

text \<open>What a cache holds, in terms of the log \<open>L\<close> of records stored and when: each record set is
  filed under its own domain and type, has no two equal records, and only holds logged ones.\<close>

definition distinct_records :: "dns_record list \<Rightarrow> bool" where
  "distinct_records rs \<longleftrightarrow> distinct (map without_ttl rs)"

fun set_ok :: "(nat \<times> dns_record) set \<Rightarrow> string \<Rightarrow> query_type \<Rightarrow> record_set \<Rightarrow> bool" where
  "set_ok L d q (NoRecords q' _ _) \<longleftrightarrow> q' = q"
| "set_ok L d q (Records q' es) \<longleftrightarrow> q' = q \<and> distinct_records (map e_record es) \<and>
     (\<forall>e \<in> set es. get_querytype (e_record e) = q \<and> get_domain (e_record e) = Some d \<and>
        (e_timestamp e, e_record e) \<in> L)"

definition entry_ok :: "(nat \<times> dns_record) set \<Rightarrow> string \<Rightarrow> domain_entry \<Rightarrow> bool" where
  "entry_ok L d e \<longleftrightarrow> de_domain e = d \<and> (\<forall>q s. record_types e q = Some s \<longrightarrow> set_ok L d q s)"

definition cache_ok :: "(nat \<times> dns_record) set \<Rightarrow> dns_cache \<Rightarrow> bool" where
  "cache_ok L c \<longleftrightarrow> (\<forall>d e. c d = Some e \<longrightarrow> entry_ok L d e)"

lemma get_querytype_without_ttl [simp]: "get_querytype (without_ttl r) = get_querytype r"
  by (cases r) simp_all

lemma get_domain_without_ttl [simp]: "get_domain (without_ttl r) = get_domain r"
  by (cases r) simp_all

lemma set_ok_mono: "set_ok L d q s \<Longrightarrow> L \<subseteq> L' \<Longrightarrow> set_ok L' d q s"
  by (cases s) auto

lemma entry_ok_mono: "entry_ok L d e \<Longrightarrow> L \<subseteq> L' \<Longrightarrow> entry_ok L' d e"
  by (auto simp: entry_ok_def intro: set_ok_mono)

lemma entry_ok_new [simp]: "entry_ok L d (DomainEntry_new d)"
  by (simp add: entry_ok_def DomainEntry_new_def)

lemma refresh_ok:
  fixes now :: nat
  assumes "set_ok L d q (Records q' es)" "get_querytype rec = q" "get_domain rec = Some d"
  defines "e \<equiv> \<lparr>e_record = rec, e_timestamp = now\<rparr>"
  defines "es1 \<equiv> (if list_ex (entry_eq e) es then hashset_remove e es else es)"
  shows "hashset_insert e es1 = e # es1"
    and "set_ok (insert (now, rec) L) d q (Records q' (e # es1))"
proof -
  have no: "\<not> list_ex (entry_eq e) es1"
    by (auto simp: es1_def hashset_remove_def list_ex_iff)
  then show "hashset_insert e es1 = e # es1" by (simp add: hashset_insert_def)
  have "distinct_records (map e_record es1)"
    using assms(1) by (auto simp: es1_def hashset_remove_def distinct_records_def comp_def
        distinct_map_filter)
  moreover have "set es1 \<subseteq> set es" by (auto simp: es1_def hashset_remove_def)
  moreover have "without_ttl rec \<notin> without_ttl ` e_record ` set es1"
    using no by (auto simp: list_ex_iff entry_eq_def record_eq_def e_def)
  ultimately show "set_ok (insert (now, rec) L) d q (Records q' (e # es1))"
    using assms(1-3) by (auto simp: distinct_records_def e_def)
qed

lemma store_record_sets:
  assumes "entry_ok L d e" "get_domain rec = Some d"
  shows "entry_ok (insert (now, rec) L) d (store_record now rec e)"
    and "\<exists>es. record_types (store_record now rec e) (get_querytype rec) =
      Some (Records (get_querytype rec) (\<lparr>e_record = rec, e_timestamp = now\<rparr> # es))"
proof -
  let ?q = "get_querytype rec" and ?r = "\<lparr>e_record = rec, e_timestamp = now\<rparr>"
  have ok: "entry_ok (insert (now, rec) L) d e" using assms(1) by (rule entry_ok_mono) auto
  obtain es where es: "set_ok (insert (now, rec) L) d ?q (Records ?q (?r # es))"
      "record_types (store_record now rec e) = (record_types e)(?q \<mapsto> Records ?q (?r # es))"
  proof (cases "\<exists>q es. record_types e ?q = Some (Records q es)")
    case True
    then obtain q es where s: "record_types e ?q = Some (Records q es)" by blast
    then have ok': "set_ok L d ?q (Records q es)" using assms(1) unfolding entry_ok_def by blast
    then have "q = ?q" by simp
    let ?es = "if list_ex (entry_eq ?r) es then hashset_remove ?r es else es"
    from \<open>q = ?q\<close> s refresh_ok [OF ok' refl assms(2), of now] show ?thesis
      by (intro that [of ?es]) (simp_all add: store_record_def Let_def)
  next
    case False
    then have "record_types (store_record now rec e) = (record_types e)(?q \<mapsto> Records ?q [?r])"
      by (auto simp: store_record_def Let_def hashset_insert_def split: option.splits record_set.splits)
    then show ?thesis using that [of "[]"] assms(2) by (simp add: distinct_records_def)
  qed
  moreover have "de_domain (store_record now rec e) = de_domain e"
    by (simp add: store_record_def Let_def split: option.splits record_set.splits)
  ultimately show "entry_ok (insert (now, rec) L) d (store_record now rec e)"
    using ok by (auto simp: entry_ok_def)
  show "\<exists>es. record_types (store_record now rec e) ?q = Some (Records ?q (?r # es))"
    using es(2) by simp
qed

lemma cache_ok_upd:
  "cache_ok L c \<Longrightarrow> L \<subseteq> L' \<Longrightarrow> entry_ok L' d e \<Longrightarrow> cache_ok L' (c(d \<mapsto> e))"
  unfolding cache_ok_def by (metis entry_ok_mono fun_upd_apply option.inject)

lemma cache_ok_entry: "cache_ok L c \<Longrightarrow> get_mut held c d = Some e \<Longrightarrow> entry_ok L d e"
  by (auto simp: cache_ok_def get_mut_def split: if_splits)

lemma store_one_ok: "cache_ok L c \<Longrightarrow> cache_ok (insert (now, rec) L) (store_one held now rec c)"
proof (cases "get_domain rec")
  case None
  assume "cache_ok L c"
  then show ?thesis using None by (auto simp: store_one_def cache_ok_def intro: entry_ok_mono)
next
  case (Some d)
  assume ok: "cache_ok L c"
  have "cache_ok (insert (now, rec) L) (c(d \<mapsto> store_record now rec e))" if "entry_ok L d e" for e
    using cache_ok_upd [OF ok _ store_record_sets(1) [OF that Some]] by blast
  then show ?thesis
    using ok Some by (auto simp: store_one_def split: option.splits intro: cache_ok_entry)
qed

lemma store_pairs_ok:
  "cache_ok L c \<Longrightarrow> cache_ok (L \<union> set ps) (fold (\<lambda>(t, rec). store_one held t rec) ps c)"
proof (induction ps arbitrary: L c)
  case (Cons x ps)
  from Cons.IH [OF store_one_ok [OF Cons.prems, of "fst x" "snd x"]] show ?case
    by (simp add: case_prod_unfold)
qed simp

lemma cache_store_ok:
  "cache_ok L c \<Longrightarrow> cache_ok (L \<union> set (stamped now rs)) (cache_store held now rs c)"
  unfolding cache_store_def by (rule store_pairs_ok)

lemma cache_store_nxdomain_ok:
  assumes "cache_ok L c"
  shows "cache_ok L (cache_store_nxdomain held now d q ttl c)"
proof -
  have "entry_ok L d (entry_store_nxdomain now q ttl e)" if "entry_ok L d e" for e
    using that by (auto simp: entry_ok_def entry_store_nxdomain_def)
  with assms show ?thesis
    by (auto simp: cache_store_nxdomain_def split: option.splits
        intro!: cache_ok_upd intro: cache_ok_entry)
qed

lemma fill_queryresult_ok:
  assumes "cache_ok L c" "fill_queryresult held now d q inc c = (rs, c')"
  shows "cache_ok L c'" "distinct_records rs"
    and "r \<in> set rs \<Longrightarrow> get_domain r = Some d \<and> get_querytype r = q \<and>
      (\<exists>t. (t, r) \<in> L \<and> now \<le> t + seconds (get_ttl r))"
proof -
  note defs = fill_queryresult_def Let_def entry_fill_queryresult_def valid_entries_def expires_def
  show "cache_ok L c'"
    using assms cache_ok_entry [OF assms(1), of held d]
    by (auto simp: fill_queryresult_def Let_def entry_ok_def split: option.splits if_splits
        intro!: cache_ok_upd)
  have ok: "get_mut held c d = Some e \<Longrightarrow> record_types e q = Some s \<Longrightarrow> set_ok L d q s" for e s
    using cache_ok_entry [OF assms(1)] by (auto simp: entry_ok_def)
  show "distinct_records rs"
    using assms(2) ok by (fastforce simp: defs distinct_records_def distinct_map_filter comp_def
        split: option.splits record_set.splits if_splits)
  show "r \<in> set rs \<Longrightarrow> get_domain r = Some d \<and> get_querytype r = q \<and>
      (\<exists>t. (t, r) \<in> L \<and> now \<le> t + seconds (get_ttl r))"
    using assms(2) ok by (fastforce simp: defs not_less
        split: option.splits record_set.splits if_splits)
qed

subsection \<open>Runs\<close>

text \<open>The caches a resolver can be left with, with the log of what it has stored.\<close>

inductive cache_run :: "(nat \<times> dns_record) set \<Rightarrow> dns_cache \<Rightarrow> bool" where
  run_new: "cache_run {} Cache_new"
| run_store: "cache_run L c \<Longrightarrow> cache_run (L \<union> set (stamped now rs)) (cache_store held now rs c)"
| run_nxdomain: "cache_run L c \<Longrightarrow> cache_run L (cache_store_nxdomain held t d q ttl c)"
| run_lookup: "cache_run L c \<Longrightarrow> cache_lookup held nows d q c = (p, c') \<Longrightarrow> cache_run L c'"

lemma cache_lookup_cases:
  assumes "cache_lookup held (n1, n2, n3) d q c = (r, c')"
  obtains (none) "r = None" "c' = c"
  | (negative) "r = Some (DnsPacket_new\<lparr>header := DnsHeader_new\<lparr>rescode := NXDOMAIN\<rparr>\<rparr>)" "c' = c"
  | (positive) an au c1 where "r = Some (DnsPacket_new\<lparr>answers := an, authorities := au\<rparr>)"
      "fill_queryresult held n2 d q True c = (an, c1)"
      "fill_queryresult held n3 d QT_NS False c1 = (au, c')"
  using assms by (auto simp: cache_lookup_def split: cache_state.splits prod.splits)

lemma cache_lookup_ok:
  assumes "cache_ok L c" "cache_lookup held nows d q c = (r, c')"
  shows "cache_ok L c'"
proof -
  obtain n1 n2 n3 where n: "nows = (n1, n2, n3)" by (metis prod_cases3)
  from assms(2) [unfolded n] show ?thesis
    using assms(1) by (cases rule: cache_lookup_cases) (blast intro: fill_queryresult_ok(1))+
qed

lemma cache_run_ok: "cache_run L c \<Longrightarrow> cache_ok L c"
  by (induction rule: cache_run.induct)
     (auto simp: Cache_new_def cache_ok_def [of "{}"] intro: cache_store_ok cache_store_nxdomain_ok
        cache_lookup_ok)

text \<open>C4: a lookup in a cache reached by any sequence of operations only answers with records of the
  name and type asked for that were stored and have not expired, and never twice with the
  same record.\<close>

theorem lookup_sound:
  assumes "cache_run L c" "cache_lookup held (n1, n2, n3) qname qtype c = (Some p, c')"
  shows "distinct_records (answers p) \<and> (\<forall>r \<in> set (answers p).
    get_domain r = Some qname \<and> get_querytype r = qtype \<and>
    (\<exists>t. (t, r) \<in> L \<and> n2 \<le> t + seconds (get_ttl r)))"
  using assms(2)
proof (cases rule: cache_lookup_cases)
  case negative
  then show ?thesis by (simp add: DnsPacket_new_def distinct_records_def)
next
  case (positive an au c1)
  note f = fill_queryresult_ok(2,3) [OF cache_run_ok [OF assms(1)] positive(2)]
  from positive(1) have "answers p = an" by simp
  with f show ?thesis by blast
qed simp

subsection \<open>What a lookup finds\<close>

definition holds :: "dns_cache \<Rightarrow> nat \<Rightarrow> dns_record \<Rightarrow> bool" where
  "holds c t rec = (case get_domain rec of None \<Rightarrow> False | Some d \<Rightarrow>
     (case c d of None \<Rightarrow> False | Some e \<Rightarrow>
       (case record_types e (get_querytype rec) of
          Some (Records _ es) \<Rightarrow> \<lparr>e_record = rec, e_timestamp = t\<rparr> \<in> set es
        | _ \<Rightarrow> False)))"

lemma store_one_holds:
  assumes "cache_ok L c" "get_domain rec = Some d"
  shows "holds (store_one held t rec c) t rec"
proof -
  have "\<exists>es. record_types (store_record t rec e) (get_querytype rec) =
      Some (Records (get_querytype rec) (\<lparr>e_record = rec, e_timestamp = t\<rparr> # es))"
    if "entry_ok L d e" for e
    using store_record_sets(2) [OF that assms(2)] .
  from this [of "DomainEntry_new d"] this [OF cache_ok_entry [OF assms(1)], of held]
  show ?thesis using assms(2) by (fastforce simp: holds_def store_one_def split: option.splits)
qed

lemma store_record_keeps:
  assumes "record_types e q = Some (Records q' es)" "f \<in> set es" "\<not> record_eq r (e_record f)"
  shows "\<exists>q' es. record_types (store_record t r e) q = Some (Records q' es) \<and> f \<in> set es"
  using assms by (auto simp: store_record_def Let_def hashset_insert_def hashset_remove_def
      entry_eq_def split: option.splits record_set.splits)

lemma store_one_keeps:
  assumes "holds c t rec" "\<not> record_eq r rec" "get_domain rec = Some d" "\<not> held d"
  shows "holds (store_one held t' r c) t rec"
proof -
  obtain e q es where c: "c d = Some e" "record_types e (get_querytype rec) = Some (Records q es)"
      "\<lparr>e_record = rec, e_timestamp = t\<rparr> \<in> set es"
    using assms(1,3) by (auto simp: holds_def split: option.splits record_set.splits)
  show ?thesis
  proof (cases "get_domain r = Some d")
    case True
    with store_record_keeps [OF c(2,3), of r t'] assms c(1) show ?thesis
      by (auto simp: holds_def store_one_def get_mut_def)
  next
    case False
    then have "store_one held t' r c d = c d" by (auto simp: store_one_def split: option.splits)
    with assms(1,3) show ?thesis by (simp add: holds_def)
  qed
qed

lemma store_pairs_keeps:
  assumes "holds c t rec" "\<forall>p \<in> set ps. \<not> record_eq (snd p) rec" "get_domain rec = Some d" "\<not> held d"
  shows "holds (fold (\<lambda>(t, r). store_one held t r) ps c) t rec"
  using assms(1,2)
proof (induction ps arbitrary: c)
  case (Cons x ps)
  have "holds (store_one held (fst x) (snd x) c) t rec"
    using Cons.prems store_one_keeps [where held = held, OF _ _ assms(3,4)] by simp
  with Cons show ?case by (simp add: case_prod_unfold)
qed simp

lemma lookup_holds:
  assumes "holds c t rec" "get_domain rec = Some d" "\<not> held d"
    and "n1 \<le> t + seconds (get_ttl rec)" "n2 \<le> t + seconds (get_ttl rec)"
  shows "\<exists>p c'. cache_lookup held (n1, n2, n3) d (get_querytype rec) c = (Some p, c') \<and>
    rescode (header p) = NOERROR \<and> rec \<in> set (answers p)"
proof -
  let ?q = "get_querytype rec" and ?f = "\<lparr>e_record = rec, e_timestamp = t\<rparr>"
  obtain e q es where c: "c d = Some e" "record_types e ?q = Some (Records q es)" "?f \<in> set es"
    using assms(1,2) by (auto simp: holds_def split: option.splits record_set.splits)
  then have "?f \<in> set (valid_entries n1 ?q es)" "?f \<in> set (valid_entries n2 ?q es)"
    using assms(4,5) by (auto simp: valid_entries_def expires_def)
  then have state: "get_cache_state n1 c d ?q = PositiveCache"
    and answer: "rec \<in> set (entry_fill_queryresult n2 ?q (e\<lparr>hits := hits e + 1\<rparr>))"
    using c by (auto simp: get_cache_state_def entry_cache_state_def entry_fill_queryresult_def
        image_iff intro: bexI [of _ ?f])
  show ?thesis
    using state answer c(1) assms(3)
    by (auto simp: cache_lookup_def fill_queryresult_def get_mut_def Let_def DnsPacket_new_def
        DnsHeader_new_def)
qed

text \<open>C5: a record that was stored is found by every lookup for its name and type until its time to
  live has passed, unless a later record of the same batch replaced it.\<close>

theorem lookup_after_store:
  assumes "cache_run L c" "get_domain rec = Some d" "\<not> held d"
    and "\<forall>r \<in> set later. \<not> record_eq r rec"
    and "n1 \<le> now (length earlier) + seconds (get_ttl rec)"
    and "n2 \<le> now (length earlier) + seconds (get_ttl rec)"
  shows "\<exists>p c'. cache_lookup held (n1, n2, n3) d (get_querytype rec)
      (cache_store held now (earlier @ rec # later) c) = (Some p, c') \<and>
    rescode (header p) = NOERROR \<and> rec \<in> set (answers p)"
proof -
  let ?t = "now (length earlier)" and ?n = "length earlier"
  have split: "stamped now (earlier @ rec # later) = stamped now earlier @ (?t, rec) #
      zip (map now [Suc ?n..<Suc ?n + length later]) later"
    using upt_add_eq_append [of 0 ?n "Suc (length later)"]
    by (simp add: stamped_def upt_conv_Cons del: upt_Suc)
  have "cache_ok (L \<union> set (stamped now earlier)) (cache_store held now earlier c)"
    by (rule cache_store_ok [OF cache_run_ok [OF assms(1)]])
  from store_one_holds [OF this assms(2), of held ?t]
  have "holds (cache_store held now (earlier @ rec # later) c) ?t rec"
    using assms(4) unfolding cache_store_def split
    by (auto intro!: store_pairs_keeps [where d = d] simp: assms(2,3) dest: set_zip_rightD)
  from lookup_holds [where held = held, OF this assms(2,3,5,6)] show ?thesis .
qed


theorem lookup_after_store_witness:
  "\<exists>p c'. cache_lookup (\<lambda>_. False) (5, 6, 7) ''a.b'' QT_A
      (cache_store (\<lambda>_. False) (\<lambda>i. i) [A ''a.b'' (Ipv4Addr 1 2 3 4) 60, A ''a.b'' (Ipv4Addr 5 6 7 8) 7]
        Cache_new) = (Some p, c') \<and> rescode (header p) = NOERROR \<and>
    A ''a.b'' (Ipv4Addr 5 6 7 8) 7 \<in> set (answers p)"
  using lookup_after_store [where rec = "A ''a.b'' (Ipv4Addr 5 6 7 8) 7" and d = "''a.b''" and
      held = "\<lambda>_. False" and later = "[]" and earlier = "[A ''a.b'' (Ipv4Addr 1 2 3 4) 60]" and
      now = "\<lambda>i. i" and ?n1.0 = 5 and ?n2.0 = 6 and ?n3.0 = 7, OF run_new]
  by (simp add: seconds_def)

theorem lookup_sound_witness:
  "\<exists>p c'. cache_lookup (\<lambda>_. False) (5, 6, 7) ''a.b'' QT_A
      (cache_store (\<lambda>_. False) (\<lambda>i. i) [A ''a.b'' (Ipv4Addr 1 2 3 4) 60] Cache_new) = (Some p, c') \<and>
    distinct_records (answers p) \<and> (\<forall>r \<in> set (answers p). get_domain r = Some ''a.b'' \<and>
      get_querytype r = QT_A \<and> (\<exists>t. (t, r) \<in> {(0, A ''a.b'' (Ipv4Addr 1 2 3 4) 60)} \<and>
        6 \<le> t + seconds (get_ttl r)))"
proof -
  let ?r = "A ''a.b'' (Ipv4Addr 1 2 3 4) 60"
  let ?c = "cache_store (\<lambda>_. False) (\<lambda>i. i) [?r] Cache_new"
  have run: "cache_run {(0, ?r)} ?c"
    using run_store [OF run_new, of "\<lambda>i. i" "[?r]" "\<lambda>_. False"] by (simp add: stamped_def)
  have "\<exists>p c'. cache_lookup (\<lambda>_. False) (5, 6, 7) ''a.b'' QT_A ?c = (Some p, c')"
    by (simp add: cache_lookup_def get_cache_state_def cache_store_def stamped_def store_one_def
        get_mut_def Cache_new_def store_record_def DomainEntry_new_def hashset_insert_def
        entry_cache_state_def valid_entries_def expires_def seconds_def fill_queryresult_def Let_def)
  then obtain p c' where l: "cache_lookup (\<lambda>_. False) (5, 6, 7) ''a.b'' QT_A ?c = (Some p, c')" by blast
  show ?thesis by (intro exI, rule conjI [OF l lookup_sound [OF run l]])
qed

text \<open>After a negative answer was stored, lookups say \<^verbatim>\<open>NXDOMAIN\<close> with no answers until its time
  to live has passed, and nothing afterwards.\<close>

lemma lookup_after_nxdomain:
  "cache_lookup held (n1, n2, n3) d q (cache_store_nxdomain held' now d q ttl c) =
     (if now + seconds ttl < n1 then None
      else Some (DnsPacket_new\<lparr>header := DnsHeader_new\<lparr>rescode := NXDOMAIN\<rparr>\<rparr>),
      cache_store_nxdomain held' now d q ttl c)"
  by (simp add: cache_lookup_def get_cache_state_def cache_store_nxdomain_def
      entry_store_nxdomain_def entry_cache_state_def split: option.splits)

end
