(* ===== verification/Dns_Resolve.thy ===== *)
theory Dns_Resolve
  imports Dns_Cache
begin

text \<open>
  The resolvers of \<^verbatim>\<open>hermes/hermesdns/src/dns/resolve.rs\<close>.  A resolver owns a synchronized cache
  and a DNS client behind a trait object.  What lies outside the resolver is a record: the
  client's \<^verbatim>\<open>send_query\<close> (a packet or an error, since it waits with a timeout), the clock and the
  random numbers, each a function of a state \<open>'w\<close> of the outside world.  Reading the clock or
  drawing a number where the code would not is harmless: nothing observes it.

  The recursive resolver asks one name server after the other and resolves the name of a server
  it only knows by name; nothing in the code bounds either, so the model runs on fuel and is
  \<open>Diverge\<close> when the fuel is used up.  \<open>rec_fuel_mono\<close> shows that more fuel never changes a
  result.
\<close>

subsection \<open>The outside world\<close>

record 'w outside =
  o_now :: "'w \<Rightarrow> nat \<times> 'w"
  o_random :: "'w \<Rightarrow> nat \<times> 'w"
  o_send_query :: "string \<Rightarrow> query_type \<Rightarrow> string \<times> u16 \<Rightarrow> bool \<Rightarrow> 'w \<Rightarrow>
    (error_kind + dns_packet) \<times> 'w"

record 'w resolver_state =
  r_cache :: sync_cache
  r_world :: 'w

definition read_clock :: "'w outside \<Rightarrow> ('w resolver_state, nat) rust" where
  "read_clock ext = (\<lambda>s. case o_now ext (r_world s) of (t, w) \<Rightarrow> (Ok t, s\<lparr>r_world := w\<rparr>))"

definition read_random :: "'w outside \<Rightarrow> ('w resolver_state, nat) rust" where
  "read_random ext = (\<lambda>s. case o_random ext (r_world s) of (n, w) \<Rightarrow> (Ok n, s\<lparr>r_world := w\<rparr>))"

definition send_query :: "'w outside \<Rightarrow> string \<Rightarrow> query_type \<Rightarrow> string \<times> u16 \<Rightarrow> bool \<Rightarrow>
    ('w resolver_state, dns_packet) rust" where
  "send_query ext qname qtype server recursive = (\<lambda>s.
     case o_send_query ext qname qtype server recursive (r_world s) of
       (Inr p, w) \<Rightarrow> (Ok p, s\<lparr>r_world := w\<rparr>)
     | (Inl e, w) \<Rightarrow> (Err e, s\<lparr>r_world := w\<rparr>))"

text \<open>No resolver calls \<^verbatim>\<open>list\<close>, so no cache entry is held by anyone else.\<close>

abbreviation unheld :: "string \<Rightarrow> bool" where
  "unheld \<equiv> \<lambda>_. False"

definition lookup_in_cache :: "'w outside \<Rightarrow> string \<Rightarrow> query_type \<Rightarrow>
    ('w resolver_state, dns_packet option) rust" where
  "lookup_in_cache ext qname qtype =
     bind (read_clock ext) (\<lambda>n1. bind (read_clock ext) (\<lambda>n2. bind (read_clock ext) (\<lambda>n3.
     (\<lambda>s. case sync_lookup unheld (n1, n2, n3) qname qtype (r_cache s) of
        (r, c) \<Rightarrow> (Ok r, s\<lparr>r_cache := c\<rparr>)))))"

text \<open>\<^verbatim>\<open>let _ = self.cache.store(..)\<close>: the error of a poisoned lock is dropped.\<close>

definition store_in_cache :: "'w outside \<Rightarrow> dns_record list \<Rightarrow> ('w resolver_state, unit) rust" where
  "store_in_cache ext records =
     bind (repeat (length records) (read_clock ext)) (\<lambda>ts.
     (\<lambda>s. (Ok (), s\<lparr>r_cache := snd (sync_store unheld (\<lambda>i. ts ! i) records (r_cache s))\<rparr>)))"

definition store_nxdomain_in_cache :: "'w outside \<Rightarrow> string \<Rightarrow> query_type \<Rightarrow> u32 \<Rightarrow>
    ('w resolver_state, unit) rust" where
  "store_nxdomain_in_cache ext qname qtype ttl =
     bind (read_clock ext) (\<lambda>t.
     (\<lambda>s. (Ok (), s\<lparr>r_cache := snd (sync_store_nxdomain unheld t qname qtype ttl (r_cache s))\<rparr>)))"

definition rescode_packet :: "result_code \<Rightarrow> dns_packet" where
  "rescode_packet c = DnsPacket_new\<lparr>header := DnsHeader_new\<lparr>rescode := c\<rparr>\<rparr>"

fun is_unknown :: "query_type \<Rightarrow> bool" where
  "is_unknown (QT_UNKNOWN _) = True"
| "is_unknown _ = False"

text \<open>The part the two resolvers share: the refusals and the cache; \<open>otherwise\<close> is what each of
  them does when the cache does not know.\<close>

definition resolve_from_cache :: "'w outside \<Rightarrow> bool \<Rightarrow> string \<Rightarrow> query_type \<Rightarrow> bool \<Rightarrow>
    ('w resolver_state, dns_packet) rust \<Rightarrow> ('w resolver_state, dns_packet) rust" where
  "resolve_from_cache ext allow_recursive qname qtype recursive otherwise =
     (if is_unknown qtype then return (rescode_packet NOTIMP)
      else if \<not> recursive \<or> \<not> allow_recursive then return (rescode_packet REFUSED)
      else bind (lookup_in_cache ext qname qtype) (\<lambda>r. case r of
        Some qr \<Rightarrow> return qr
      | None \<Rightarrow>
          if qtype = QT_A \<or> qtype = QT_AAAA then
            bind (lookup_in_cache ext qname QT_CNAME) (\<lambda>r. case r of
              Some qr \<Rightarrow> return qr
            | None \<Rightarrow> otherwise)
          else otherwise))"

subsection \<open>The forwarding resolver\<close>

record forwarding_resolver =
  f_server :: "string \<times> u16"
  f_allow_recursive :: bool

definition forward_query :: "'w outside \<Rightarrow> forwarding_resolver \<Rightarrow> string \<Rightarrow> query_type \<Rightarrow>
    ('w resolver_state, dns_packet) rust" where
  "forward_query ext f qname qtype =
     bind (send_query ext qname qtype (f_server f) True) (\<lambda>qr.
     andthen (store_in_cache ext (answers qr)) (return qr))"

definition forwarding_resolve :: "'w outside \<Rightarrow> forwarding_resolver \<Rightarrow> string \<Rightarrow> query_type \<Rightarrow> bool \<Rightarrow>
    ('w resolver_state, dns_packet) rust" where
  "forwarding_resolve ext f qname qtype recursive =
     resolve_from_cache ext (f_allow_recursive f) qname qtype recursive (forward_query ext f qname qtype)"

subsection \<open>The recursive resolver\<close>

text \<open>The address of a name server for one domain, from the cache alone.\<close>

definition cached_ns :: "'w outside \<Rightarrow> string \<Rightarrow> ('w resolver_state, string option) rust" where
  "cached_ns ext d =
     bind (lookup_in_cache ext d QT_NS) (\<lambda>r. case r of
       None \<Rightarrow> return None
     | Some qr \<Rightarrow>
         bind (read_random ext) (\<lambda>rnd. case get_unresolved_ns rnd qr d of
           None \<Rightarrow> return None
         | Some ns \<Rightarrow>
             bind (lookup_in_cache ext ns QT_A) (\<lambda>r. case r of
               None \<Rightarrow> return None
             | Some qr \<Rightarrow> bind (read_random ext) (\<lambda>rnd. return (get_random_a rnd qr)))))"

fun tentative_ns :: "'w outside \<Rightarrow> string list \<Rightarrow> ('w resolver_state, string option) rust" where
  "tentative_ns ext [] = cached_ns ext (join ''.'' [])"
| "tentative_ns ext (l # ls) =
     bind (cached_ns ext (join ''.'' (l # ls))) (\<lambda>r. case r of
       Some addr \<Rightarrow> return (Some addr)
     | None \<Rightarrow> tentative_ns ext ls)"

definition store_response :: "'w outside \<Rightarrow> dns_packet \<Rightarrow> ('w resolver_state, unit) rust" where
  "store_response ext p =
     andthen (store_in_cache ext (answers p))
    (andthen (store_in_cache ext (authorities p))
             (store_in_cache ext (resources p)))"

definition diverge :: "('s, 'a) rust" where
  "diverge = (\<lambda>s. (Diverge, s))"

fun rec_resolve :: "nat \<Rightarrow> 'w outside \<Rightarrow> bool \<Rightarrow> string \<Rightarrow> query_type \<Rightarrow> bool \<Rightarrow>
    ('w resolver_state, dns_packet) rust"
and rec_perform :: "nat \<Rightarrow> 'w outside \<Rightarrow> bool \<Rightarrow> string \<Rightarrow> query_type \<Rightarrow>
    ('w resolver_state, dns_packet) rust"
and rec_loop :: "nat \<Rightarrow> 'w outside \<Rightarrow> bool \<Rightarrow> string \<Rightarrow> query_type \<Rightarrow> string \<Rightarrow>
    ('w resolver_state, dns_packet) rust" where
  "rec_resolve 0 ext allow qname qtype recursive = diverge"
| "rec_resolve (Suc n) ext allow qname qtype recursive =
     resolve_from_cache ext allow qname qtype recursive (rec_perform n ext allow qname qtype)"
| "rec_perform 0 ext allow qname qtype = diverge"
| "rec_perform (Suc n) ext allow qname qtype =
     bind (tentative_ns ext (split_on CHR ''.'' qname)) (\<lambda>ns. case ns of
       None \<Rightarrow> throw NotFound
     | Some ns \<Rightarrow> rec_loop n ext allow qname qtype ns)"
| "rec_loop 0 ext allow qname qtype ns = diverge"
| "rec_loop (Suc n) ext allow qname qtype ns =
     bind (send_query ext qname qtype (ns, 53) False) (\<lambda>resp.
     if answers resp \<noteq> [] \<and> rescode (header resp) = NOERROR then
       andthen (store_response ext resp) (return resp)
     else if rescode (header resp) = NXDOMAIN then
       (case get_ttl_from_soa resp of
          Some ttl \<Rightarrow> andthen (store_nxdomain_in_cache ext qname qtype ttl) (return resp)
        | None \<Rightarrow> return resp)
     else
       bind (read_random ext) (\<lambda>rnd. case get_resolved_ns rnd resp qname of
         Some new_ns \<Rightarrow>
           andthen (store_response ext resp) (rec_loop n ext allow qname qtype new_ns)
       | None \<Rightarrow>
           bind (read_random ext) (\<lambda>rnd. case get_unresolved_ns rnd resp qname of
             None \<Rightarrow> return resp
           | Some new_ns_name \<Rightarrow>
               bind (rec_resolve n ext allow new_ns_name QT_A True) (\<lambda>recursive_response.
               bind (read_random ext) (\<lambda>rnd. case get_random_a rnd recursive_response of
                 Some new_ns \<Rightarrow> rec_loop n ext allow qname qtype new_ns
               | None \<Rightarrow> return resp)))))"

subsection \<open>More fuel never changes a result\<close>

definition below :: "('s, 'a) rust \<Rightarrow> ('s, 'a) rust \<Rightarrow> bool" where
  "below m n \<longleftrightarrow> (\<forall>s. fst (m s) = Diverge \<or> m s = n s)"

lemma below_refl [simp]: "below m m"
  by (simp add: below_def)

lemma below_diverge [simp]: "below diverge m"
  by (simp add: below_def diverge_def)

lemma below_bind:
  assumes "below m m'" "\<And>x. below (f x) (f' x)"
  shows "below (bind m f) (bind m' f')"
  unfolding below_def
proof
  fix s
  from assms(1) consider "fst (m s) = Diverge" | "m s = m' s" by (auto simp: below_def)
  then show "fst (bind m f s) = Diverge \<or> bind m f s = bind m' f' s"
  proof cases
    case 1
    then show ?thesis by (cases "m s") (simp add: bind_def)
  next
    case 2
    with assms(2) show ?thesis
      by (cases "m' s") (auto simp: bind_def below_def split: outcome.splits)
  qed
qed

lemma below_from_cache:
  "below m m' \<Longrightarrow> below (resolve_from_cache ext a q t r m) (resolve_from_cache ext a q t r m')"
  unfolding resolve_from_cache_def by (auto intro!: below_bind split: option.splits)

lemma rec_below:
  "below (rec_resolve n ext a q t r) (rec_resolve (n + k) ext a q t r)"
  "below (rec_perform n ext a q t) (rec_perform (n + k) ext a q t)"
  "below (rec_loop n ext a q t ns) (rec_loop (n + k) ext a q t ns)"
proof (induction n arbitrary: q t r ns)
  case (Suc n)
  {
    case 1
    show ?case using Suc.IH(2) by (simp add: below_from_cache)
  next
    case 2
    show ?case using Suc.IH(3) by (auto intro!: below_bind split: option.splits)
  next
    case 3
    show ?case using Suc.IH(1,3) by (auto intro!: below_bind split: option.splits)
  }
qed simp_all

text \<open>Once the recursive resolver returns with some fuel, every larger amount of fuel gives the
  same result and the same state.\<close>

lemma rec_fuel_mono:
  assumes "rec_resolve n ext allow qname qtype recursive s = (r, s')" "r \<noteq> Diverge"
  shows "rec_resolve (n + k) ext allow qname qtype recursive s = (r, s')"
proof -
  have "fst (rec_resolve n ext allow qname qtype recursive s) \<noteq> Diverge" using assms by simp
  then show ?thesis
    using rec_below(1) [of n ext allow qname qtype recursive k] assms(1)
    by (simp only: below_def) metis
qed

subsection \<open>What the resolvers answer\<close>

text \<open>A clock reading changes the world and nothing else.\<close>

definition ticks :: "'w outside \<Rightarrow> nat \<Rightarrow> 'w \<Rightarrow> 'w" where
  "ticks ext n w = ((\<lambda>w. snd (o_now ext w)) ^^ n) w"

definition tick :: "'w outside \<Rightarrow> nat \<Rightarrow> 'w \<Rightarrow> nat" where
  "tick ext n w = fst (o_now ext (ticks ext n w))"

lemma read_clock_ticks: "read_clock ext s = (Ok (tick ext 0 (r_world s)), s\<lparr>r_world := ticks ext 1 (r_world s)\<rparr>)"
  by (simp add: read_clock_def tick_def ticks_def split: prod.splits)

lemma ticks_add [simp]: "ticks ext m (ticks ext n w) = ticks ext (m + n) w"
  by (simp add: ticks_def funpow_add)

lemma tick_ticks [simp]: "tick ext m (ticks ext n w) = tick ext (m + n) w"
  by (simp add: tick_def)

lemma lookup_in_cache_eq:
  "lookup_in_cache ext qname qtype s =
     (case sync_lookup unheld (tick ext 0 (r_world s), tick ext 1 (r_world s), tick ext 2 (r_world s))
        qname qtype (r_cache s) of
        (r, c) \<Rightarrow> (Ok r, s\<lparr>r_cache := c, r_world := ticks ext 3 (r_world s)\<rparr>))"
  by (simp add: lookup_in_cache_def read_clock_ticks numeral_eq_Suc split: prod.splits)

lemma repeat_clock:
  "repeat n (read_clock ext) s = (Ok (map (\<lambda>i. tick ext i (r_world s)) [0..<n]),
     s\<lparr>r_world := ticks ext n (r_world s)\<rparr>)"
proof (induction n arbitrary: s)
  case (Suc n)
  have "[0..<Suc n] = 0 # map Suc [0..<n]" by (simp add: upt_conv_Cons map_Suc_upt del: upt_Suc)
  then show ?case
    by (simp add: bind_Ok [OF read_clock_ticks] bind_Ok [OF Suc.IH] comp_def del: upt_Suc)
qed (simp add: ticks_def)

text \<open>When the cache of a forwarding resolver holds a record of the name and type asked for that
  has not expired, the resolver answers from the cache: the record is among the answers and
  the only thing asked of the outside world is the time.\<close>

lemma forwarding_from_cache:
  assumes "\<not> poisoned (r_cache s)" "holds (cache (r_cache s)) t rec"
    and "get_domain rec = Some qname" "\<not> is_unknown (get_querytype rec)" "f_allow_recursive f"
    and "tick ext 0 (r_world s) \<le> t + seconds (get_ttl rec)"
    and "tick ext 1 (r_world s) \<le> t + seconds (get_ttl rec)"
  shows "\<exists>p c. forwarding_resolve ext f qname (get_querytype rec) True s =
      (Ok p, s\<lparr>r_cache := c, r_world := ticks ext 3 (r_world s)\<rparr>) \<and> rec \<in> set (answers p)"
proof -
  obtain p c where "cache_lookup unheld (tick ext 0 (r_world s), tick ext 1 (r_world s),
      tick ext 2 (r_world s)) qname (get_querytype rec) (cache (r_cache s)) = (Some p, c)"
      "rec \<in> set (answers p)"
    using lookup_holds [where held = unheld, OF assms(2,3) _ assms(6,7)] by blast
  then have "lookup_in_cache ext qname (get_querytype rec) s =
      (Ok (Some p), s\<lparr>r_cache := (r_cache s)\<lparr>cache := c\<rparr>, r_world := ticks ext 3 (r_world s)\<rparr>)"
    using assms(1) by (simp add: lookup_in_cache_eq sync_lookup_def)
  then have "forwarding_resolve ext f qname (get_querytype rec) True s =
      (Ok p, s\<lparr>r_cache := (r_cache s)\<lparr>cache := c\<rparr>, r_world := ticks ext 3 (r_world s)\<rparr>)"
    using assms(4,5) by (simp add: forwarding_resolve_def resolve_from_cache_def)
  with \<open>rec \<in> set (answers p)\<close> show ?thesis by blast
qed


text \<open>An outside world for the instances: a clock that advances by one with every reading, and a
  client that knows one name.\<close>

definition sample_outside :: "nat outside" where
  "sample_outside = \<lparr>o_now = (\<lambda>w. (w, Suc w)), o_random = (\<lambda>w. (0, w)),
     o_send_query = (\<lambda>qname qtype server recursive w.
       (if qname = ''a.b'' then Inr (DnsPacket_new\<lparr>answers := [A ''a.b'' (Ipv4Addr 1 2 3 4) 60]\<rparr>)
        else Inl NotFound, w))\<rparr>"

definition sample_resolver :: forwarding_resolver where
  "sample_resolver = \<lparr>f_server = (''8.8.8.8'', 53), f_allow_recursive = True\<rparr>"

definition empty_state :: "nat resolver_state" where
  "empty_state = \<lparr>r_cache = \<lparr>poisoned = False, cache = Cache_new\<rparr>, r_world = 0\<rparr>"

lemma sample_ticks: "ticks sample_outside n w = w + n" "tick sample_outside n w = w + n"
proof -
  show t: "ticks sample_outside n w = w + n" for n
    by (induction n) (simp_all add: ticks_def sample_outside_def)
  show "tick sample_outside n w = w + n"
    by (simp add: tick_def t) (simp add: sample_outside_def)
qed

lemma rec_fuel_mono_instance:
  "rec_resolve (1 + 7) sample_outside True ''a.b'' (QT_UNKNOWN 3) True empty_state =
     (Ok (rescode_packet NOTIMP), empty_state)"
  using rec_fuel_mono [of 1 sample_outside True "''a.b''" "QT_UNKNOWN 3" True empty_state
      "Ok (rescode_packet NOTIMP)" empty_state 7]
  by (simp add: resolve_from_cache_def)

lemma forwarding_from_cache_instance:
  "\<exists>p c. forwarding_resolve sample_outside sample_resolver ''a.b'' QT_A True
     (empty_state\<lparr>r_cache := \<lparr>poisoned = False, cache = store_one unheld 0 (A ''a.b'' (Ipv4Addr 1 2 3 4) 60) Cache_new\<rparr>\<rparr>) =
     (Ok p, \<lparr>r_cache = c, r_world = 3\<rparr>) \<and> A ''a.b'' (Ipv4Addr 1 2 3 4) 60 \<in> set (answers p)"
proof -
  let ?r = "A ''a.b'' (Ipv4Addr 1 2 3 4) 60" and ?c = "store_one unheld 0 (A ''a.b'' (Ipv4Addr 1 2 3 4) 60) Cache_new"
  let ?s = "empty_state\<lparr>r_cache := \<lparr>poisoned = False, cache = ?c\<rparr>\<rparr>"
  have "holds ?c 0 ?r" using store_one_holds [of "{}" Cache_new ?r "''a.b''" unheld 0]
    by (simp add: cache_ok_def Cache_new_def)
  with forwarding_from_cache [of ?s 0 ?r "''a.b''" sample_resolver sample_outside]
  show ?thesis
    by (simp add: empty_state_def sample_resolver_def sample_ticks seconds_def)
qed

end
