(* ===== verification/Dns_Layout.thy ===== *)
theory Dns_Layout
  imports Dns_Protocol
begin

text \<open>
  What the pieces of a DNS message look like in a buffer.  A layout relates a memory, a start
  and an end; it only ever becomes true when the memory grows, so a fact about bytes already
  written survives appending, name compression and the patching of a length field.

  The layouts of names, records, questions and headers are stated once.  \<open>writes\<close>, inside
  the writer contract, says that an operation leaves a layout behind; \<open>decodes\<close>, inside the
  reader contract, that an operation reads a layout back as a value.
\<close>

subsection \<open>Layouts\<close>

type_synonym layout = "memory \<Rightarrow> nat \<Rightarrow> nat \<Rightarrow> bool"

named_theorems layout_intros "well-behaved layouts"
named_theorems writes_intros "operations that leave a layout behind"

definition layout :: "layout \<Rightarrow> bool" where
  "layout L \<longleftrightarrow> (\<forall>m p e. L m p e \<longrightarrow> p \<le> e \<and> (\<forall>m'. m \<subseteq>\<^sub>m m' \<longrightarrow> L m' p e))"

definition bytes_l :: "u8 list \<Rightarrow> layout" where
  "bytes_l bs = (\<lambda>m p e. bytes_at m p bs \<and> e = p + length bs)"

abbreviation u16_l :: "u16 \<Rightarrow> layout" where
  "u16_l v \<equiv> bytes_l (be16 v)"

abbreviation u32_l :: "u32 \<Rightarrow> layout" where
  "u32_l v \<equiv> bytes_l (be32 v)"

definition name_l :: "string \<Rightarrow> layout" where
  "name_l q = (\<lambda>m p e. name_at m p (split_on CHR ''.'' q) e)"

definition seq_l :: "layout \<Rightarrow> layout \<Rightarrow> layout" where
  "seq_l P Q = (\<lambda>m p e. \<exists>q. P m p q \<and> Q m q e)"

text \<open>A big-endian length followed by what it measures.\<close>

definition sized_l :: "layout \<Rightarrow> layout" where
  "sized_l L = (\<lambda>m p e. bytes_at m p (be16 (of_nat (e - (p + 2)))) \<and> L m (p + 2) e)"

primrec list_l :: "('a \<Rightarrow> layout) \<Rightarrow> 'a list \<Rightarrow> layout" where
  "list_l L [] = bytes_l []"
| "list_l L (x # xs) = seq_l (L x) (list_l L xs)"

lemma layoutD: "layout L \<Longrightarrow> L m p e \<Longrightarrow> p \<le> e"
  by (simp add: layout_def)

lemma layout_mono: "layout L \<Longrightarrow> L m p e \<Longrightarrow> m \<subseteq>\<^sub>m m' \<Longrightarrow> L m' p e"
  by (simp add: layout_def)

lemma layout_bytes [layout_intros]: "layout (bytes_l bs)"
  by (auto simp: layout_def bytes_l_def intro: bytes_at_mono)

lemma name_at_forward: "name_at m p ls e \<Longrightarrow> p < e"
  by (induction rule: name_at.induct) auto

lemma layout_name [layout_intros]: "layout (name_l q)"
  by (auto simp: layout_def name_l_def intro: name_at_mono dest: name_at_forward)

lemma layout_seq [layout_intros]: "layout P \<Longrightarrow> layout Q \<Longrightarrow> layout (seq_l P Q)"
  unfolding layout_def seq_l_def by (meson le_trans)

lemma layout_sized [layout_intros]: "layout L \<Longrightarrow> layout (sized_l L)"
  unfolding layout_def sized_l_def by (meson add_leD1 bytes_at_mono)

lemma layout_list [layout_intros]: "(\<And>x. layout (L x)) \<Longrightarrow> layout (list_l L xs)"
  by (induction xs) (auto intro: layout_intros)

lemma seq_l_assoc: "seq_l (seq_l P Q) R = seq_l P (seq_l Q R)"
  by (auto simp: seq_l_def fun_eq_iff)

lemma bytes_l_append: "bytes_l (as @ bs) = seq_l (bytes_l as) (bytes_l bs)"
  by (auto simp: bytes_l_def seq_l_def fun_eq_iff add.assoc)

lemma list_l_append: "list_l L (xs @ ys) = seq_l (list_l L xs) (list_l L ys)"
  by (induction xs) (simp_all add: seq_l_assoc, auto simp: seq_l_def bytes_l_def fun_eq_iff)

subsection \<open>The layouts of the protocol\<close>

definition head_l :: "string \<Rightarrow> query_type \<Rightarrow> u32 \<Rightarrow> layout" where
  "head_l d t ttl = seq_l (name_l d) (seq_l (u16_l (to_num t)) (seq_l (u16_l 1) (u32_l ttl)))"

fun record_l :: "dns_record \<Rightarrow> layout" where
  "record_l (A d addr ttl) = seq_l (head_l d QT_A ttl) (seq_l (u16_l 4) (bytes_l (octets addr)))"
| "record_l (AAAA d addr ttl) =
     seq_l (head_l d QT_AAAA ttl) (seq_l (u16_l 16) (bytes_l (concat (map be16 (segments addr)))))"
| "record_l (NS d h ttl) = seq_l (head_l d QT_NS ttl) (sized_l (name_l h))"
| "record_l (CNAME d h ttl) = seq_l (head_l d QT_CNAME ttl) (sized_l (name_l h))"
| "record_l (SRV d p w q h ttl) = seq_l (head_l d QT_SRV ttl)
     (sized_l (seq_l (u16_l p) (seq_l (u16_l w) (seq_l (u16_l q) (name_l h)))))"
| "record_l (MX d p h ttl) = seq_l (head_l d QT_MX ttl) (sized_l (seq_l (u16_l p) (name_l h)))"
| "record_l (SOA d m r s f y e i ttl) = seq_l (head_l d QT_SOA ttl)
     (sized_l (seq_l (name_l m) (seq_l (name_l r) (seq_l (u32_l s) (seq_l (u32_l f)
        (seq_l (u32_l y) (seq_l (u32_l e) (u32_l i))))))))"
| "record_l (TXT d x ttl) =
     seq_l (head_l d QT_TXT ttl) (seq_l (u16_l (of_nat (length x))) (bytes_l (as_bytes x)))"
| "record_l (OPT _ _ _) = bytes_l []"
| "record_l (UNKNOWN _ _ _ _) = bytes_l []"

definition question_l :: "dns_question \<Rightarrow> layout" where
  "question_l q = seq_l (name_l (q_name q)) (seq_l (u16_l (to_num (q_type q))) (u16_l 1))"

definition header_bytes :: "dns_header \<Rightarrow> u8 list" where
  "header_bytes h = be16 (h_id h) @ [flags_hi h] @ [flags_lo h] @ be16 (h_questions h) @
     be16 (h_answers h) @ be16 (h_authoritative_entries h) @ be16 (h_resource_entries h)"

lemma layout_head [layout_intros]: "layout (head_l d t ttl)"
  unfolding head_l_def by (intro layout_intros)

lemma layout_record [layout_intros]: "layout (record_l r)"
  by (cases r) (auto intro!: layout_intros)

lemma layout_question [layout_intros]: "layout (question_l q)"
  unfolding question_l_def by (intro layout_intros)

text \<open>The largest number of bytes a record or a question can take, reached when no name is
  compressed.\<close>

definition wire_len :: "string \<Rightarrow> nat" where
  "wire_len q = name_len (split_on CHR ''.'' q)"

fun rdata_max :: "dns_record \<Rightarrow> nat" where
  "rdata_max (A _ _ _) = 4"
| "rdata_max (AAAA _ _ _) = 16"
| "rdata_max (NS _ h _) = wire_len h"
| "rdata_max (CNAME _ h _) = wire_len h"
| "rdata_max (SRV _ _ _ _ h _) = 6 + wire_len h"
| "rdata_max (MX _ _ h _) = 2 + wire_len h"
| "rdata_max (SOA _ m r _ _ _ _ _ _) = wire_len m + (wire_len r + 20)"
| "rdata_max (TXT _ x _) = length x"
| "rdata_max (OPT _ _ _) = 0"
| "rdata_max (UNKNOWN _ _ _ _) = 0"

fun record_max :: "dns_record \<Rightarrow> nat" where
  "record_max (OPT _ _ _) = 0"
| "record_max (UNKNOWN _ _ _ _) = 0"
| "record_max r = wire_len (the (get_domain r)) + 10 + rdata_max r"

definition question_max :: "dns_question \<Rightarrow> nat" where
  "question_max q = wire_len (q_name q) + 4"

fun record_names :: "dns_record \<Rightarrow> string list" where
  "record_names (A d _ _) = [d]"
| "record_names (AAAA d _ _) = [d]"
| "record_names (NS d h _) = [d, h]"
| "record_names (CNAME d h _) = [d, h]"
| "record_names (SRV d _ _ _ h _) = [d, h]"
| "record_names (MX d _ h _) = [d, h]"
| "record_names (SOA d m r _ _ _ _ _ _) = [d, m, r]"
| "record_names (TXT d _ _) = [d]"
| "record_names (OPT _ _ _) = []"
| "record_names (UNKNOWN _ _ _ _) = []"

subsection \<open>Leaving a layout behind\<close>

lemma mem_of_append_hole:
  "(\<And>i. i \<in> H' - H \<Longrightarrow> length b \<le> i) \<Longrightarrow> mem_of b H \<subseteq>\<^sub>m mem_of (b @ xs) H'"
  by (force simp: map_le_def mem_of_def nth_append)

context buffer_writer
begin

definition written :: "nat set \<Rightarrow> nat \<Rightarrow> layout \<Rightarrow> 's \<Rightarrow> 's \<Rightarrow> bool" where
  "written H n L s s' \<longleftrightarrow> ok s' \<and> (\<exists>bs. out s' = out s @ bs \<and> length bs \<le> n) \<and>
     L (mem_of (out s') H) (length (out s)) (length (out s')) \<and>
     sound (mem_of (out s') H) {} s' \<and> (\<forall>k. room s (k + n) \<longrightarrow> room s' k)"

definition ready :: "nat set \<Rightarrow> nat \<Rightarrow> 's \<Rightarrow> bool" where
  "ready H n s \<longleftrightarrow> ok s \<and> H \<subseteq> {..<length (out s)} \<and> room s n \<and>
     length (out s) + n \<le> 0x4000 \<and> sound (mem_of (out s) H) {} s"

definition writes :: "('s, unit) rust \<Rightarrow> nat \<Rightarrow> layout \<Rightarrow> bool" where
  "writes c n L \<longleftrightarrow>
     (\<forall>s H. ready H n s \<longrightarrow> (\<exists>s'. c s = (Ok (), s') \<and> written H n L s s'))"

lemma writes_bytes:
  assumes "\<And>s. ok s \<Longrightarrow> room s (length bs) \<Longrightarrow> emits c s bs" and "n = length bs"
  shows "writes c n (bytes_l bs)"
  unfolding writes_def
proof (intro allI impI)
  fix s H
  assume r: "ready H n s"
  obtain s' where s': "c s = (Ok (), s')" "ok s'" "out s' = out s @ bs" "labels s' = labels s"
      "\<And>k. room s (k + length bs) \<Longrightarrow> room s' k"
    using assms(1) [of s] r assms(2) by (auto simp: ready_def emits_def)
  have "bytes_l bs (mem_of (out s') H) (length (out s)) (length (out s'))"
    using r stored_end [of H "out s" bs] s'(3) by (simp add: bytes_l_def ready_def)
  moreover have "sound (mem_of (out s') H) {} s'"
    using r sound_mono mem_of_append s'(3,4) by (metis ready_def)
  ultimately show "\<exists>s'. c s = (Ok (), s') \<and> written H n (bytes_l bs) s s'"
    using s' assms(2) by (auto simp: written_def)
qed

lemma writes_u16 [writes_intros]: "writes (write_u16 ops v) 2 (u16_l v)"
  by (rule writes_bytes) (auto intro: emits_u16)

lemma writes_u32 [writes_intros]: "writes (write_u32 ops v) 4 (u32_l v)"
  by (rule writes_bytes) (auto intro: emits_u32)

lemma writes_u8 [writes_intros]: "writes (write_u8 ops v) 1 (bytes_l [v])"
  by (rule writes_bytes) (auto intro: emits_write_u8)

lemma writes_nil [writes_intros]: "writes (return ()) 0 (bytes_l [])"
  by (rule writes_bytes) (auto simp: emits_def)

lemma writes_all [writes_intros]:
  "writes (for_each (write_u8 ops) bs) (length bs) (bytes_l bs)"
  by (rule writes_bytes) (auto intro: emits_for_each)

lemma writes_name [writes_intros]:
  "valid_name q \<Longrightarrow> writes (write_qname ops q) (wire_len q) (name_l q)"
  unfolding writes_def
proof (intro allI impI)
  fix s H
  assume "valid_name q" and "ready H (wire_len q) s"
  with write_qname_writes [of s H q] obtain s' bs where
    "write_qname ops q s = (Ok (), s')" "name_written H {} (split_on CHR ''.'' q) s s' bs"
    by (auto simp: ready_def wire_len_def)
  then show "\<exists>s'. write_qname ops q s = (Ok (), s') \<and> written H (wire_len q) (name_l q) s s'"
    by (auto simp: written_def name_written_def name_l_def wire_len_def)
qed

lemma ready_next:
  assumes "ready H (n + k) s" "written H n L s s'"
  shows "ready H k s'"
proof -
  from assms(2) obtain bs where "out s' = out s @ bs" "length bs \<le> n"
    by (auto simp: written_def)
  with assms show ?thesis by (auto simp: ready_def written_def ac_simps)
qed

lemma written_seq:
  assumes "written H n P s s1" "written H k Q s1 s2" "layout P"
  shows "written H (n + k) (seq_l P Q) s s2"
proof -
  obtain bs cs where out: "out s1 = out s @ bs" "length bs \<le> n" "out s2 = out s1 @ cs" "length cs \<le> k"
    using assms(1,2) by (auto simp: written_def)
  have "P (mem_of (out s2) H) (length (out s)) (length (out s1))"
    using assms(1) out(3) by (auto simp: written_def intro: layout_mono [OF assms(3)] mem_of_append)
  with assms(1,2) out show ?thesis
    unfolding written_def seq_l_def by (auto simp: ac_simps)
qed

lemma writes_seq [writes_intros]:
  assumes c: "writes c n P" and d: "writes d k Q" and P: "layout P"
  shows "writes (andthen c d) (n + k) (seq_l P Q)"
  unfolding writes_def
proof (intro allI impI)
  fix s H
  assume r: "ready H (n + k) s"
  then have "ready H n s" by (auto simp: ready_def intro: room_mono)
  then obtain s1 where s1: "c s = (Ok (), s1)" "written H n P s s1"
    using c by (auto simp: writes_def)
  from ready_next [OF r s1(2)] d obtain s2 where "d s1 = (Ok (), s2)" "written H k Q s1 s2"
    by (auto simp: writes_def)
  with s1 written_seq [OF s1(2) _ P]
  show "\<exists>s'. andthen c d s = (Ok (), s') \<and> written H (n + k) (seq_l P Q) s s'"
    by auto
qed

lemma set_u16_ok:
  assumes "ok s" "Suc p < length (out s)"
  shows "\<exists>s'. set_u16 ops p v s = (Ok (), s') \<and> ok s' \<and> labels s' = labels s \<and> room s' = room s \<and>
    out s' = (out s)[p := ucast (drop_bit 8 v), Suc p := ucast (v AND 0xFF)]"
proof -
  obtain s1 where s1: "b_set ops p (ucast (drop_bit 8 v)) s = (Ok (), s1)" "ok s1"
      "out s1 = (out s)[p := ucast (drop_bit 8 v)]" "labels s1 = labels s" "room s1 = room s"
    using set_ok [of s p] assms by auto
  moreover obtain s2 where "b_set ops (Suc p) (ucast (v AND 0xFF)) s1 = (Ok (), s2)" "ok s2"
      "out s2 = (out s1)[Suc p := ucast (v AND 0xFF)]" "labels s2 = labels s1" "room s2 = room s1"
    using set_ok [of s1 "Suc p"] assms s1 by auto
  ultimately show ?thesis by (auto simp: set_u16_def)
qed

text \<open>Patching the two bytes of a hole and closing it enlarges the memory.\<close>

lemma patched_memory:
  fixes v :: u16
  assumes H: "H \<subseteq> {..<p}" and p: "Suc p < length b"
  defines "b' \<equiv> b[p := ucast (drop_bit 8 v), Suc p := ucast (v AND 0xFF)]"
  shows "mem_of b (H \<union> {p, Suc p}) \<subseteq>\<^sub>m mem_of b' H" and "bytes_at (mem_of b' H) p (be16 v)"
proof -
  have "mem_of b' (H \<union> {p, Suc p}) = mem_of b (H \<union> {p, Suc p})"
    by (simp add: b'_def mem_of_update)
  then show "mem_of b (H \<union> {p, Suc p}) \<subseteq>\<^sub>m mem_of b' H"
    by (metis mem_of_holes Un_upper1)
  show "bytes_at (mem_of b' H) p (be16 v)"
    using H p by (auto simp: b'_def be16_def mem_of_def nth_list_update)
qed

lemma writes_sized [writes_intros]:
  assumes c: "writes c n L" and L: "layout L"
  shows "writes (with_size ops c) (2 + n) (sized_l L)"
  unfolding writes_def
proof (intro allI impI)
  fix s H
  assume r: "ready H (2 + n) s"
  let ?p = "length (out s)"
  let ?H = "H \<union> {?p, Suc ?p}"
  have s: "ok s" "H \<subseteq> {..<?p}" "sound (mem_of (out s) H) {} s" "room s (2 + n)"
    using r by (auto simp: ready_def)
  obtain s1 where s1: "write_u16 ops 0 s = (Ok (), s1)" "ok s1" "out s1 = out s @ be16 0"
      "labels s1 = labels s" "\<And>k. room s (k + 2) \<Longrightarrow> room s1 k"
    using emits_u16 [OF s(1) room_mono [OF s(4)], of 0] by (auto simp: emits_def)
  have "mem_of (out s) H \<subseteq>\<^sub>m mem_of (out s1) ?H"
    unfolding s1(3) by (rule mem_of_append_hole) auto
  with r s(3) sound_mono [OF s(3) _ s1(4)] s1(2,3,5) have "ready ?H n s1"
    by (auto simp: ready_def ac_simps)
  with c obtain s2 where s2: "c s1 = (Ok (), s2)" "written ?H n L s1 s2"
    by (auto simp: writes_def)
  then obtain bs where out2: "out s2 = out s @ be16 0 @ bs" "length bs \<le> n" and "ok s2"
    by (auto simp: written_def s1(3))
  let ?v = "of_nat (length (out s2) - (?p + 2)) :: u16"
  obtain s3 where s3: "set_u16 ops ?p ?v s2 = (Ok (), s3)" "ok s3" "labels s3 = labels s2"
      "room s3 = room s2" "out s3 = (out s2)[?p := ucast (drop_bit 8 ?v), Suc ?p := ucast (?v AND 0xFF)]"
    using set_u16_ok [OF \<open>ok s2\<close>, of ?p ?v] out2 by auto
  have mem: "mem_of (out s2) ?H \<subseteq>\<^sub>m mem_of (out s3) H" "bytes_at (mem_of (out s3) H) ?p (be16 ?v)"
    using patched_memory [OF s(2), of "out s2" ?v] out2 s3(5) by auto
  have "with_size ops c s = (Ok (), s3)"
    using s1(1) s2(1) s3(1) by (simp add: with_size_def pos_out s(1) \<open>ok s2\<close>)
  moreover have "sized_l L (mem_of (out s3) H) ?p (length (out s3))"
    using s2(2) mem layout_mono [OF L] by (auto simp: sized_l_def written_def s3(5) s1(3))
  moreover have "sound (mem_of (out s3) H) {} s3"
    using s2(2) mem(1) s3(3) by (auto simp: written_def intro: sound_mono)
  moreover have "\<exists>cs. out s3 = out s @ cs \<and> length cs \<le> 2 + n"
    using out2 s3(5) by (intro exI [of _ "drop ?p (out s3)"]) (auto simp: list_update_append)
  moreover have "room s3 k" if "room s (k + (2 + n))" for k
    using that s1(5) [of "k + n"] s2(2) s3(4) by (auto simp: written_def ac_simps)
  ultimately show "\<exists>s'. with_size ops c s = (Ok (), s') \<and> written H (2 + n) (sized_l L) s s'"
    using s3(2) by (auto simp: written_def)
qed

lemma writes_head [writes_intros]:
  "valid_name d \<Longrightarrow> writes (write_head ops d t ttl) (wire_len d + (2 + (2 + 4))) (head_l d t ttl)"
  unfolding write_head_def head_l_def by (intro writes_intros layout_intros)

lemma writes_u16s [writes_intros]:
  "writes (for_each (write_u16 ops) vs) (2 * length vs) (bytes_l (concat (map be16 vs)))"
proof (induction vs)
  case Nil
  show ?case by (simp only: for_each.simps list.map concat.simps list.size mult_0_right writes_nil)
next
  case (Cons v vs)
  from writes_seq [OF writes_u16 Cons.IH layout_bytes, of v]
  show ?case by (simp add: bytes_l_append)
qed

lemma writes_weaken: "writes c n L \<Longrightarrow> n = k \<Longrightarrow> writes c k L"
  by simp

lemma write_fields_writes:
  "list_all valid_name (record_names r) \<Longrightarrow> writes (write_fields ops r) (record_max r) (record_l r)"
  by (cases r)
     ((simp only: write_fields.simps record_l.simps, rule writes_weaken,
       (rule writes_intros layout_intros | (simp; fail))+)+)

lemma writes_record:
  assumes "list_all valid_name (record_names r)"
  shows "writes (andthen (DnsRecord_write ops r) (return ())) (record_max r) (record_l r)"
proof -
  have "andthen (DnsRecord_write ops r) (return ()) s = (Ok (), s')"
    if "write_fields ops r s = (Ok (), s')" for s s'
    using that by (simp add: DnsRecord_write_def bind_def)
  with write_fields_writes [OF assms] show ?thesis unfolding writes_def by blast
qed

text \<open>The number \<open>DnsRecord_write\<close> returns is the number of bytes it has appended.\<close>

lemma record_written_size:
  assumes "list_all valid_name (record_names r)" "ready H (record_max r) s"
  shows "\<exists>s'. DnsRecord_write ops r s = (Ok (length (out s') - length (out s)), s') \<and>
    written H (record_max r) (record_l r) s s'"
proof -
  obtain s' where "write_fields ops r s = (Ok (), s')" "written H (record_max r) (record_l r) s s'"
    using write_fields_writes [OF assms(1)] assms(2) by (auto simp: writes_def)
  moreover have "ok s" "ok s'" using assms(2) calculation(2) by (auto simp: ready_def written_def)
  ultimately show ?thesis by (auto simp: DnsRecord_write_def pos_out)
qed

lemma writes_question:
  "valid_name (q_name q) \<Longrightarrow> writes (DnsQuestion_write ops q) (question_max q) (question_l q)"
  unfolding DnsQuestion_write_def question_l_def
  by (rule writes_weaken, (rule writes_intros layout_intros | (simp; fail))+)
     (simp add: question_max_def)

lemma writes_header: "writes (DnsHeader_write ops h) 12 (bytes_l (header_bytes h))"
  unfolding DnsHeader_write_def header_bytes_def bytes_l_append
  by (rule writes_weaken, (rule writes_intros layout_intros)+) simp

lemma writes_each:
  assumes "\<And>x. x \<in> set xs \<Longrightarrow> writes (f x) (n x) (L x)" "\<And>x. layout (L x)"
  shows "writes (for_each f xs) (sum_list (map n xs)) (list_l L xs)"
  using assms(1)
proof (induction xs)
  case Nil
  show ?case by (simp only: for_each.simps list.map sum_list.Nil list_l.simps writes_nil)
next
  case (Cons x xs)
  have "writes (for_each f xs) (sum_list (map n xs)) (list_l L xs)"
    using Cons by simp
  from writes_seq [OF Cons.prems [of x] this assms(2)] show ?case by simp
qed

end

subsection \<open>Reading a layout back\<close>

context buffer_reader
begin

definition decodes :: "('s, 'a) rust \<Rightarrow> layout \<Rightarrow> 'a \<Rightarrow> bool" where
  "decodes c L v \<longleftrightarrow> (\<forall>s e. ok s \<longrightarrow> L (stored s) (b_pos ops s) e \<longrightarrow>
     e + slack \<le> length (contents s) \<longrightarrow> reads c s v e)"

lemma decodes_bind:
  assumes c: "decodes c P v" and f: "decodes (f v) Q w" and Q: "layout Q"
  shows "decodes (bind c f) (seq_l P Q) w"
  unfolding decodes_def
proof (intro allI impI)
  fix s e
  assume s: "ok s" "seq_l P Q (stored s) (b_pos ops s) e" "e + slack \<le> length (contents s)"
  then obtain q where q: "P (stored s) (b_pos ops s) q" "Q (stored s) q e"
    by (auto simp: seq_l_def)
  have "q + slack \<le> length (contents s)" using layoutD [OF Q q(2)] s(3) by simp
  then show "reads (bind c f) s w e"
    using s q c f by (intro yields_bind [of _ _ _ c s v q]) (auto simp: decodes_def)
qed

lemma decodes_return: "decodes (return v) (bytes_l []) v"
  by (auto simp: decodes_def bytes_l_def intro: yields_return)

text \<open>The last step of a reader: what follows the layout read so far is empty.\<close>

lemma decodes_last:
  assumes "decodes c P v" "f v = return w"
  shows "decodes (bind c f) P w"
proof -
  have "seq_l P (bytes_l []) = P" by (auto simp: seq_l_def bytes_l_def fun_eq_iff)
  then show ?thesis
    using decodes_bind [OF assms(1) _ layout_bytes, of f "[]" w] assms(2) decodes_return by metis
qed

lemma decodes_u16: "decodes (read_u16 ops) (u16_l v) v"
  using read_u16_reads by (auto simp: decodes_def bytes_l_def)

lemma decodes_u32: "decodes (read_u32 ops) (u32_l v) v"
  using read_u32_reads by (auto simp: decodes_def bytes_l_def)

lemma lower_ascii_labels:
  assumes "lower_ascii q"
  shows "\<forall>l \<in> set (split_on CHR ''.'' q). lower_ascii l"
  using assms split_on_chars [of _ "CHR ''.''" q] unfolding lower_ascii_def by blast

lemma decodes_name:
  assumes "ascii_lowercase lc" "lower_ascii q"
  shows "decodes (read_qname ops lc []) (name_l q) q"
  using read_qname_reads [OF _ assms(1) lower_ascii_labels [OF assms(2)], of _ _ "[]"]
  by (auto simp: decodes_def name_l_def)

lemma decodes_sized:
  assumes "\<And>n. decodes (f n) L w" "layout L"
  shows "decodes (bind (read_u16 ops) f) (sized_l L) w"
  unfolding decodes_def
proof (intro allI impI)
  fix s e
  assume s: "ok s" "sized_l L (stored s) (b_pos ops s) e" "e + slack \<le> length (contents s)"
  let ?n = "of_nat (e - (b_pos ops s + 2)) :: u16"
  from s have "seq_l (u16_l ?n) L (stored s) (b_pos ops s) e"
    by (auto simp: sized_l_def seq_l_def bytes_l_def)
  then show "reads (bind (read_u16 ops) f) s w e"
    using decodes_bind [OF decodes_u16 assms(1,2)] s by (auto simp: decodes_def)
qed

lemma decodes_repeat:
  assumes "\<And>x. x \<in> set xs \<Longrightarrow> decodes c (L x) x" "\<And>x. layout (L x)"
  shows "decodes (repeat (length xs) c) (list_l L xs) xs"
  using assms(1)
proof (induction xs)
  case Nil
  show ?case using decodes_return [of "[]"] by (simp only: list.size repeat.simps list_l.simps)
next
  case (Cons x xs)
  have "decodes (bind (repeat (length xs) c) (\<lambda>xs. return (x # xs))) (list_l L xs) (x # xs)"
    using Cons by (intro decodes_last) auto
  from decodes_bind [of c "L x" x "\<lambda>x. bind (repeat (length xs) c) (\<lambda>xs. return (x # xs))",
      OF _ this layout_list [OF assms(2)]] Cons.prems [of x]
  show ?case by simp
qed

text \<open>Reading from the start of a buffer that holds the layout and possibly more.\<close>

lemma decodes_start:
  assumes "decodes c L v" "layout L" "L (mem_of bs {}) 0 (length bs)" "ok s" "b_pos ops s = 0"
    "contents s = bs @ rest" "slack \<le> length rest"
  shows "fst (c s) = Ok v"
proof -
  have "L (stored s) (b_pos ops s) (length bs)"
    using layout_mono [OF assms(2,3) mem_of_append] assms(5,6) by metis
  then have "reads c s v (length bs)"
    using assms(1,4,6,7) unfolding decodes_def by auto
  then show ?thesis by (auto simp: yields_def)
qed

end

end
