(* ===== verification/Dns_Codec.thy ===== *)
theory Dns_Codec
  imports Dns_Layout
begin

text \<open>
  Reading back what was written: the headers, questions, records and packets of
  \<^verbatim>\<open>protocol.rs\<close>.  The lemmas inside the reader contract decode each layout of \<open>Dns_Layout\<close>;
  the round trips at the end combine them with the writer contract for the three buffers of
  the program.
\<close>

subsection \<open>Addresses, text and flags\<close>

lemma ipv4_of_join: "ipv4_of_raw (join32 a b c d) = Ipv4Addr a b c d"
proof -
  have "ucast (take_bit 8 (drop_bit 24 (join32 a b c d))) = a"
    "ucast (take_bit 8 (drop_bit 16 (join32 a b c d))) = b"
    "ucast (take_bit 8 (drop_bit 8 (join32 a b c d))) = c"
    "ucast (take_bit 8 (join32 a b c d)) = d"
    unfolding join32_def
    by (rule bit_word_eqI, auto simp: bit_simps dest: bit_imp_le_length)+
  then show ?thesis by (simp add: ipv4_of_raw_def and_255)
qed

lemma be32_join32: "be32 (join32 a b c d) = [a, b, c, d]"
  using ipv4_of_join [of a b c d] by (simp add: be32_def ipv4_of_raw_def)

lemma and_FFFF: "(x :: u32) AND 0xFFFF = take_bit 16 x"
  by (simp add: take_bit_eq_mask mask_eq_exp_minus_1)

definition join_u16 :: "u16 \<Rightarrow> u16 \<Rightarrow> u32" where
  "join_u16 a b = push_bit 16 (ucast a) OR ucast b"

lemma hi_lo_join: "hi16 (join_u16 a b) = a" "lo16 (join_u16 a b) = b"
  unfolding hi16_def lo16_def and_FFFF join_u16_def
  by (rule bit_word_eqI, auto simp: bit_simps dest: bit_imp_le_length)+

lemma join32_be16: "join32 (ucast (drop_bit 8 a)) (ucast (a AND 0xFF)) (ucast (drop_bit 8 b))
    (ucast (b AND 0xFF)) = join_u16 a b"
  unfolding join32_def join_u16_def and_255
proof (rule bit_word_eqI)
  fix n :: nat
  consider "n < 8" | "8 \<le> n \<and> n < 16" | "16 \<le> n \<and> n < 24" | "24 \<le> n" by linarith
  then show "bit (push_bit 24 (ucast (ucast (drop_bit 8 a) :: u8)) OR
      push_bit 16 (ucast (ucast (take_bit 8 a) :: u8)) OR
      push_bit 8 (ucast (ucast (drop_bit 8 b) :: u8)) OR
      ucast (ucast (take_bit 8 b) :: u8) :: u32) n = bit (push_bit 16 (ucast a) OR ucast b :: u32) n"
    by cases (auto simp: bit_simps dest: bit_imp_le_length)
qed

lemma be32_join_u16: "be32 (join_u16 a b) = be16 a @ be16 b"
  unfolding join32_be16 [symmetric] be32_join32 by (simp add: be16_def)

lemma lossy_bytes_valid: "utf8_valid bs \<Longrightarrow> lossy_bytes bs = bs"
  by (induction bs rule: utf8_valid.induct) (auto split: prod.splits bool.splits)

lemma from_utf8_lossy_valid: "utf8_valid (as_bytes s) \<Longrightarrow> from_utf8_lossy (as_bytes s) = s"
  by (simp add: from_utf8_lossy_def lossy_bytes_valid)

lemma query_type_round_trip: "from_num (to_num t) = t \<longleftrightarrow>
    (\<forall>n. t = QT_UNKNOWN n \<longrightarrow> n \<notin> {1, 2, 5, 6, 15, 16, 28, 33, 41})"
  by (cases t) (auto simp: from_num_def)

lemma rescode_round_trip: "rescode_from_num (rescode_u8 c) = c"
  by (cases c) (simp_all add: rescode_from_num_def)

lemma and_bit_gt: "(x AND push_bit k (1 :: 'a::len word) > 0) = bit x k"
  by (simp add: word_neq_0_conv [symmetric] and_exp_eq_0_iff_not_bit push_bit_eq_mult)

lemma and_one_gt: "((x :: 'a::len word) AND 1 > 0) = bit x 0"
  using and_bit_gt [of x 0] by simp

lemma bit_bool_u8: "bit (bool_u8 b) n \<longleftrightarrow> b \<and> n = 0"
  by (simp add: bool_u8_def bit_1_iff)

lemma and_15: "(x :: u8) AND 0x0F = take_bit 4 x"
  by (simp add: take_bit_eq_mask mask_eq_exp_minus_1)

lemma bit_nibble: "take_bit 4 v = v \<Longrightarrow> bit (v :: u8) n \<Longrightarrow> n < 4"
  by (metis bit_take_bit_iff)

lemma nibble_small: "v < 16 \<Longrightarrow> take_bit 4 (v :: u8) = v"
proof -
  assume "v < 16"
  then have "unat v < 2 ^ 4" by (simp add: word_less_nat_alt)
  then have "unat (take_bit 4 v) = unat v"
    by (simp add: unsigned_take_bit_eq take_bit_nat_eq_self)
  then show "take_bit 4 v = v" by (simp only: word_unat_eq_iff)
qed

lemma rescode_nibble: "take_bit 4 (rescode_u8 c) = rescode_u8 c"
  by (rule nibble_small) (cases c; simp)

lemma flags_hi_bits:
  assumes "opcode h < 16"
  shows "bit (flags_hi h) 0 = recursion_desired h" "bit (flags_hi h) 1 = truncated_message h"
    "bit (flags_hi h) 2 = authoritative_answer h" "bit (flags_hi h) 7 = response h"
    "drop_bit 3 (flags_hi h) AND 0x0F = opcode h"
proof -
  note nib = bit_nibble [OF nibble_small [OF assms]]
  show "bit (flags_hi h) 0 = recursion_desired h" "bit (flags_hi h) 1 = truncated_message h"
    "bit (flags_hi h) 2 = authoritative_answer h" "bit (flags_hi h) 7 = response h"
    by (auto simp: flags_hi_def bit_or_iff bit_push_bit_iff bit_bool_u8
        simp del: push_bit_Suc dest: nib)
  show "drop_bit 3 (flags_hi h) AND 0x0F = opcode h"
    unfolding and_15
    by (rule bit_word_eqI)
       (auto simp: flags_hi_def bit_simps bit_bool_u8 simp del: push_bit_Suc dest: nib)
qed

lemma flags_lo_bits:
  "bit (flags_lo h) 4 = checking_disabled h" "bit (flags_lo h) 5 = authed_data h"
  "bit (flags_lo h) 6 = z_bit h" "bit (flags_lo h) 7 = recursion_available h"
  "flags_lo h AND 0x0F = rescode_u8 (rescode h)"
proof -
  note nib = bit_nibble [OF rescode_nibble]
  show "bit (flags_lo h) 4 = checking_disabled h" "bit (flags_lo h) 5 = authed_data h"
    "bit (flags_lo h) 6 = z_bit h" "bit (flags_lo h) 7 = recursion_available h"
    by (auto simp: flags_lo_def bit_simps bit_bool_u8 dest: nib)
  show "flags_lo h AND 0x0F = rescode_u8 (rescode h)"
    unfolding and_15
    by (rule bit_word_eqI) (auto simp: flags_lo_def bit_simps bit_bool_u8 dest: nib)
qed

subsection \<open>Decoding\<close>

text \<open>The records whose written form can be read back: names of valid lower-case labels, text
  that is UTF-8 (as every Rust string is) and fits its length field, and one of the types
  that \<open>DnsRecord_write\<close> writes at all.\<close>

definition readable_name :: "string \<Rightarrow> bool" where
  "readable_name q \<longleftrightarrow> valid_name q \<and> lower_ascii q"

definition readable_record :: "dns_record \<Rightarrow> bool" where
  "readable_record r \<longleftrightarrow> list_all readable_name (record_names r) \<and>
     (case r of TXT _ x _ \<Rightarrow> utf8_valid (as_bytes x) \<and> length x < 0x10000
      | OPT _ _ _ \<Rightarrow> False | UNKNOWN _ _ _ _ \<Rightarrow> False | _ \<Rightarrow> True)"

definition readable_question :: "dns_question \<Rightarrow> bool" where
  "readable_question q \<longleftrightarrow> readable_name (q_name q) \<and> from_num (to_num (q_type q)) = q_type q"

context buffer_reader
begin

lemma decodes_range:
  assumes "utf8_valid (as_bytes x)" "length x < 0x10000"
  shows "decodes (read_range ops (of_nat (length x))) (bytes_l (as_bytes x)) x"
  unfolding decodes_def
proof (intro allI impI)
  fix s e
  assume s: "ok s" "bytes_l (as_bytes x) (stored s) (b_pos ops s) e" "e + slack \<le> length (contents s)"
  have n: "unat (of_nat (length x) :: u16) = length x" using assms(2) by (simp add: unat_of_nat)
  have e: "e = b_pos ops s + length x" and b: "bytes_at (stored s) (b_pos ops s) (as_bytes x)"
    using s(2) by (simp_all add: bytes_l_def)
  have t: "take (length x) (drop (b_pos ops s) (contents s)) = as_bytes x"
    using bytes_at_take_drop [OF b] by (cases "x = []") (auto simp: as_bytes_def)
  have "reads (b_get_range ops (b_pos ops s) (length x)) s (as_bytes x) (b_pos ops s)"
    using range_ok [OF s(1), of "b_pos ops s" "length x"] s(3) e t by simp
  then have "reads (bind (b_get_range ops (b_pos ops s) (length x)) (\<lambda>bs.
      andthen (b_step ops (length x)) (return (from_utf8_lossy bs)))) s x e"
    by (rule yields_bind, intro yields_bind [OF step_ok])
       (auto simp: e from_utf8_lossy_valid assms(1) intro!: yields_return)
  then show "reads (read_range ops (of_nat (length x))) s x e"
    unfolding read_range_def n yields_def by simp
qed

lemma decodes_ipv4:
  "decodes (bind (read_u32 ops) (\<lambda>raw. return (A d (ipv4_of_raw raw) ttl)))
     (bytes_l (octets addr)) (A d addr ttl)"
proof (cases addr)
  case (Ipv4Addr a b c e)
  then have "bytes_l (octets addr) = u32_l (join32 a b c e)" by (simp add: be32_join32)
  then show ?thesis
    by (auto simp: Ipv4Addr ipv4_of_join intro!: decodes_last [OF decodes_u32])
qed

lemma decodes_ipv6:
  "decodes (bind (read_u32 ops) (\<lambda>w1. bind (read_u32 ops) (\<lambda>w2.
      bind (read_u32 ops) (\<lambda>w3. bind (read_u32 ops) (\<lambda>w4.
      return (AAAA d (Ipv6Addr (hi16 w1) (lo16 w1) (hi16 w2) (lo16 w2)
        (hi16 w3) (lo16 w3) (hi16 w4) (lo16 w4)) ttl))))))
     (bytes_l (concat (map be16 (segments addr)))) (AAAA d addr ttl)"
proof (cases addr)
  case (Ipv6Addr a b c e f g h i)
  then have "concat (map be16 (segments addr)) =
      be32 (join_u16 a b) @ be32 (join_u16 c e) @ be32 (join_u16 f g) @ be32 (join_u16 h i)"
    by (simp add: be32_join_u16)
  then show ?thesis
    unfolding \<open>concat _ = _\<close> bytes_l_append
    by (auto simp: Ipv6Addr hi_lo_join
        intro!: decodes_bind [OF decodes_u32] decodes_last [OF decodes_u32] layout_intros)
qed

lemma decodes_head:
  assumes "ascii_lowercase lc" "readable_name d" "layout L"
    and "decodes (bind (read_u16 ops) (read_rdata ops lc d (to_num t) 1 ttl)) L r"
  shows "decodes (DnsRecord_read ops lc) (seq_l (head_l d t ttl) L) r"
  unfolding DnsRecord_read_def head_l_def seq_l_assoc
  by (intro decodes_bind [OF decodes_name] decodes_bind [OF decodes_u16]
      decodes_bind [OF decodes_u32] layout_intros)
     (use assms in \<open>simp_all add: readable_name_def\<close>)

lemmas decodes_intros =
  decodes_bind [OF decodes_u16] decodes_bind [OF decodes_u32] decodes_bind [OF decodes_name]
  decodes_last [OF decodes_u16] decodes_last [OF decodes_u32] decodes_last [OF decodes_name]

lemma decodes_record:
  assumes lc: "ascii_lowercase lc" and r: "readable_record r"
  shows "decodes (DnsRecord_read ops lc) (record_l r) r"
proof (cases r)
  case (TXT d x ttl)
  with lc r show ?thesis
    by (auto simp: readable_record_def read_rdata_def from_num_def
        intro!: decodes_head decodes_bind [OF decodes_u16] decodes_last [OF decodes_range]
          layout_intros)
next
  case (A d addr ttl)
  with lc r show ?thesis
    by (auto simp: readable_record_def read_rdata_def from_num_def
        intro!: decodes_head decodes_bind [OF decodes_u16] decodes_ipv4 layout_intros)
next
  case (AAAA d addr ttl)
  with lc r show ?thesis
    by (auto simp: readable_record_def read_rdata_def from_num_def
        intro!: decodes_head decodes_bind [OF decodes_u16] decodes_ipv6 layout_intros)
qed (use lc r in \<open>auto simp: readable_record_def readable_name_def read_rdata_def from_num_def
        intro!: decodes_head decodes_sized decodes_intros layout_intros\<close>)

lemma decodes_question:
  assumes "ascii_lowercase lc" "readable_question q"
  shows "decodes (DnsQuestion_read ops lc (DnsQuestion_new [] (QT_UNKNOWN 0))) (question_l q) q"
  unfolding DnsQuestion_read_def question_l_def
  using assms by (auto simp: readable_question_def readable_name_def DnsQuestion_new_def
      intro!: decodes_intros layout_intros)

lemma decodes_header:
  assumes "opcode h < 16"
  shows "decodes (DnsHeader_read ops) (bytes_l (header_bytes h)) h"
proof -
  have bytes: "bytes_l (header_bytes h) =
      seq_l (u16_l (h_id h)) (seq_l (u16_l (join16 (flags_hi h) (flags_lo h)))
        (seq_l (u16_l (h_questions h)) (seq_l (u16_l (h_answers h))
          (seq_l (u16_l (h_authoritative_entries h)) (u16_l (h_resource_entries h))))))"
    unfolding bytes_l_append [symmetric] by (simp add: header_bytes_def be_simps)
  show ?thesis
    unfolding DnsHeader_read_def Let_def bytes
    by (intro decodes_intros layout_intros, simp only: and_bit_gt and_one_gt be_simps
        flags_hi_bits [OF assms] flags_lo_bits rescode_round_trip) (cases h, simp)
qed

end

subsection \<open>Packets\<close>

definition packet_l :: "dns_packet \<Rightarrow> layout" where
  "packet_l p = seq_l (bytes_l (header_bytes (header p))) (seq_l (list_l question_l (questions p))
     (seq_l (list_l record_l (answers p)) (seq_l (list_l record_l (authorities p))
       (list_l record_l (resources p)))))"

definition counts_match :: "dns_packet \<Rightarrow> bool" where
  "counts_match p \<longleftrightarrow> unat (h_questions (header p)) = length (questions p) \<and>
     unat (h_answers (header p)) = length (answers p) \<and>
     unat (h_authoritative_entries (header p)) = length (authorities p) \<and>
     unat (h_resource_entries (header p)) = length (resources p)"

definition readable_packet :: "dns_packet \<Rightarrow> bool" where
  "readable_packet p \<longleftrightarrow> opcode (header p) < 16 \<and> list_all readable_question (questions p) \<and>
     list_all readable_record (all_records p)"

definition packet_max :: "dns_packet \<Rightarrow> nat" where
  "packet_max p = 12 + sum_list (map question_max (questions p)) +
     sum_list (map record_max (all_records p))"

lemma readable_packetD:
  assumes "readable_packet p"
  shows "opcode (header p) < 16" "x \<in> set (questions p) \<Longrightarrow> readable_question x"
    "r \<in> set (answers p) \<Longrightarrow> readable_record r" "r \<in> set (authorities p) \<Longrightarrow> readable_record r"
    "r \<in> set (resources p) \<Longrightarrow> readable_record r"
  using assms by (auto simp: readable_packet_def all_records_def list_all_iff)

lemma layout_packet [layout_intros]: "layout (packet_l p)"
  unfolding packet_l_def by (intro layout_intros)

context buffer_reader
begin

lemma decodes_packet:
  assumes "ascii_lowercase lc" "readable_packet p" "counts_match p"
  shows "decodes (from_buffer ops lc) (packet_l p) p"
proof -
  note ok = readable_packetD [OF assms(2)]
  have qs: "decodes (repeat (length (questions p))
      (DnsQuestion_read ops lc (DnsQuestion_new [] (QT_UNKNOWN 0)))) (list_l question_l (questions p))
      (questions p)"
    using ok assms(1) by (intro decodes_repeat decodes_question layout_intros)
  have rs: "decodes (repeat (length rs) (DnsRecord_read ops lc)) (list_l record_l rs) rs"
    if "\<And>r. r \<in> set rs \<Longrightarrow> readable_record r" for rs
    using that assms(1) by (intro decodes_repeat decodes_record layout_intros)
  show ?thesis
    unfolding from_buffer_def packet_l_def
    by (intro decodes_bind [OF decodes_header [OF ok(1)]] layout_intros,
        simp only: assms(3) [unfolded counts_match_def])
       (intro decodes_bind [OF qs] decodes_bind [OF rs] decodes_last [OF rs] layout_intros;
        auto intro: ok)
qed

end

text \<open>The part of a packet that \<open>DnsPacket_write\<close> sends when \<open>n\<close> of its records fit.\<close>

definition kept :: "nat \<Rightarrow> dns_packet \<Rightarrow> dns_packet" where
  "kept n p = p\<lparr>answers := take n (answers p),
     authorities := take (n - length (answers p)) (authorities p),
     resources := take (n - length (answers p) - length (authorities p)) (resources p)\<rparr>"

lemma all_records_kept: "all_records (kept n p) = take n (all_records p)"
  by (simp add: all_records_def kept_def)

definition counted :: "dns_packet \<Rightarrow> nat \<Rightarrow> dns_header \<Rightarrow> dns_header" where
  "counted p n h = fold (count_record p) [0..<n] h"

lemma counted_simps [simp]: "counted p 0 h = h" "counted p (Suc n) h = count_record p n (counted p n h)"
  by (simp_all add: counted_def)

lemma counted_fields:
  "h_answers (counted p n h) = h_answers h + of_nat (min n (length (answers p)))"
  "h_authoritative_entries (counted p n h) = h_authoritative_entries h +
     of_nat (min (n - length (answers p)) (length (authorities p)))"
  "n \<le> length (all_records p) \<Longrightarrow> h_resource_entries (counted p n h) = h_resource_entries h +
     of_nat (n - length (answers p) - length (authorities p))"
  "opcode (counted p n h) = opcode h"
proof (induction n)
  case (Suc n)
  let ?a = "length (answers p)" and ?b = "length (authorities p)"
  consider "n < ?a" | "?a \<le> n" "n < ?a + ?b" | "?a + ?b \<le> n" by linarith
  note cs = this
  show "h_answers (counted p (Suc n) h) = h_answers h + of_nat (min (Suc n) ?a)"
    using Suc.IH(1) by (cases rule: cs) (auto simp: count_record_def min_def dest: le_antisym)
  show "h_authoritative_entries (counted p (Suc n) h) =
      h_authoritative_entries h + of_nat (min (Suc n - ?a) ?b)"
    using Suc.IH(2) by (cases rule: cs) (simp_all add: count_record_def min.absorb1 min.absorb2 Suc_diff_le)
  show "h_resource_entries (counted p (Suc n) h) = h_resource_entries h + of_nat (Suc n - ?a - ?b)"
    if "Suc n \<le> length (all_records p)"
    using that Suc.IH(3) by (cases rule: cs) (auto simp: count_record_def Suc_diff_le)
  show "opcode (counted p (Suc n) h) = opcode h"
    using Suc.IH(4) by (simp add: count_record_def)
qed auto

text \<open>How many records fit: \<open>fit_records\<close> stops at some \<open>k\<close>, having counted the first \<open>k\<close>
  records in the header, and sets the truncation flag exactly when it stops early.\<close>

definition planned :: "dns_packet \<Rightarrow> nat \<Rightarrow> dns_header" where
  "planned p n = (let h = counted p n (header p) in
     if n = length (all_records p) then h else h\<lparr>truncated_message := True\<rparr>)"

lemma fit_records_ok:
  assumes "\<forall>r \<in> set rs. list_all valid_name (record_names r)"
    and "vector_writer.ready {} (sum_list (map record_max rs)) s"
    and "all_records p = done @ rs" and "i = length done"
  shows "\<exists>n s'. fit_records p max_size i sz (counted p i (header p)) rs s = (Ok (n, planned p n), s') \<and>
    n \<le> length (all_records p) \<and>
    (sz + sum_list (map record_max rs) \<le> max_size \<longrightarrow> n = length (all_records p))"
  using assms
proof (induction rs arbitrary: i sz s "done")
  case Nil
  then show ?case by (auto simp: planned_def)
next
  case (Cons r rs)
  have "vector_writer.ready {} (record_max r) s"
    using Cons.prems(2) by (auto simp: vector_writer.ready_def)
  with Cons.prems(1) vector_writer.record_written_size obtain s1 where
    s1: "DnsRecord_write vector_ops r s = (Ok (length (vec s1) - length (vec s)), s1)"
      "vector_writer.written {} (record_max r) (record_l r) s s1"
    by fastforce
  let ?n = "length (vec s1) - length (vec s)"
  have n: "?n \<le> record_max r" using s1(2) by (auto simp: vector_writer.written_def)
  show ?case
  proof (cases "sz + ?n > max_size")
    case True
    with Cons.prems(3,4) n show ?thesis by (auto simp: s1(1) planned_def Let_def)
  next
    case False
    have "vector_writer.ready {} (sum_list (map record_max rs)) s1"
      using vector_writer.ready_next [OF _ s1(2)] Cons.prems(2) by simp
    from Cons.IH [of s1 "done @ [r]" "Suc i" "sz + ?n"] this Cons.prems
    obtain n' s' where "fit_records p max_size (Suc i) (sz + ?n) (counted p (Suc i) (header p)) rs s1 =
        (Ok (n', planned p n'), s')" "n' \<le> length (all_records p)"
      "sz + ?n + sum_list (map record_max rs) \<le> max_size \<Longrightarrow> n' = length (all_records p)"
      by auto
    with False n show ?thesis by (auto simp: s1(1))
  qed
qed

lemma question_binary_len_eq: "question_binary_len q = wire_len (q_name q)"
proof -
  have "fold (\<lambda>y x. x + y) xs (n :: nat) = n + sum_list xs" for xs n
    by (induction xs arbitrary: n) auto
  then show ?thesis by (simp add: question_binary_len_def wire_len_def name_len_def)
qed

lemma readable_valid:
  "readable_record r \<Longrightarrow> list_all valid_name (record_names r)"
  "readable_question q \<Longrightarrow> valid_name (q_name q)"
  by (auto simp: readable_record_def readable_question_def readable_name_def list_all_iff)

lemma packet_plan_ok:
  assumes "readable_packet p" "packet_max p \<le> 0x4000"
  shows "\<exists>n s'. packet_plan p max_size VectorPacketBuffer_new = (Ok (n, planned p n), s') \<and>
    n \<le> length (all_records p) \<and> (packet_max p \<le> max_size \<longrightarrow> n = length (all_records p))"
proof -
  let ?q = "sum_list (map question_max (questions p))"
  let ?r = "sum_list (map record_max (all_records p))"
  note ok = readable_packetD [OF assms(1)]
  have "vector_writer.ready {} (?q + ?r) VectorPacketBuffer_new"
    using assms(2) by (auto simp: vector_writer.ready_def VectorPacketBuffer_new_def vector_wf_def
        vector_writer.sound_def packet_max_def)
  moreover have "vector_writer.writes (for_each (DnsQuestion_write vector_ops) (questions p)) ?q
      (list_l question_l (questions p))"
    by (intro vector_writer.writes_each vector_writer.writes_question layout_intros
        readable_valid(2) ok(2))
  moreover have "vector_writer.ready {} ?q VectorPacketBuffer_new"
    using calculation(1) by (auto simp: vector_writer.ready_def)
  ultimately obtain s1 where
    s1: "for_each (DnsQuestion_write vector_ops) (questions p) VectorPacketBuffer_new = (Ok (), s1)"
      "vector_writer.ready {} ?r s1"
    unfolding vector_writer.writes_def using vector_writer.ready_next by metis
  have "\<forall>r \<in> set (all_records p). list_all valid_name (record_names r)"
    using ok readable_valid by (auto simp: all_records_def)
  from fit_records_ok [OF this s1(2), of p "[]" 0 max_size] obtain n s' where
    "fit_records p max_size 0 (12 + sum_list (map question_binary_len (questions p))) (header p)
       (all_records p) s1 = (Ok (n, planned p n), s')" "n \<le> length (all_records p)"
    "12 + sum_list (map question_binary_len (questions p)) + ?r \<le> max_size \<Longrightarrow> n = length (all_records p)"
    by fastforce
  moreover have "sum_list (map question_binary_len (questions p)) \<le> ?q"
    by (rule sum_list_mono) (simp add: question_binary_len_eq question_max_def)
  ultimately show ?thesis
    using s1(1) by (auto simp: packet_plan_def header_binary_len_def packet_max_def)
qed

text \<open>The packet that \<open>DnsPacket_write\<close> leaves behind when \<open>n\<close> records fit.\<close>

definition sent :: "dns_packet \<Rightarrow> nat \<Rightarrow> dns_packet" where
  "sent p n = p\<lparr>header := (planned p n)\<lparr>h_questions := of_nat (length (questions p))\<rparr>\<rparr>"

lemma sent_records [simp]: "all_records (sent p n) = all_records p" "questions (sent p n) = questions p"
  by (simp_all add: sent_def all_records_def)

lemma sent_opcode [simp]: "opcode (header (sent p n)) = opcode (header p)"
  by (simp add: sent_def planned_def counted_fields Let_def)

lemma kept_simps [simp]: "header (kept n p) = header p" "questions (kept n p) = questions p"
  by (simp_all add: kept_def)

lemma sent_readable: "readable_packet p \<Longrightarrow> readable_packet (kept n (sent p n))"
  by (auto simp: readable_packet_def all_records_kept list_all_iff dest: in_set_takeD)

lemma kept_max: "packet_max (kept n p) \<le> packet_max p"
proof -
  have "sum_list (map record_max (all_records p)) = sum_list (map record_max (take n (all_records p))) +
      sum_list (map record_max (drop n (all_records p)))"
    by (metis append_take_drop_id map_append sum_list_append)
  then show ?thesis by (simp add: packet_max_def all_records_kept)
qed

lemma sent_max: "packet_max (sent p n) = packet_max p"
  by (simp add: packet_max_def)

lemma readable_record_max: "readable_record r \<Longrightarrow> 1 \<le> record_max r"
  by (cases r) (auto simp: readable_record_def)

lemma length_le_sum: "(\<And>x. x \<in> set xs \<Longrightarrow> 1 \<le> f x) \<Longrightarrow> length xs \<le> sum_list (map f xs)" for f :: "'a \<Rightarrow> nat"
proof (induction xs)
  case (Cons x xs)
  then have "length xs \<le> sum_list (map f xs)" "1 \<le> f x" by auto
  then show ?case by simp
qed simp

lemma packet_lengths:
  assumes "readable_packet p" "packet_max p \<le> 0x4000"
  shows "length (questions p) < 0x10000" "length (all_records p) < 0x10000"
proof -
  have "length (questions p) \<le> sum_list (map question_max (questions p))"
    by (rule length_le_sum) (simp add: question_max_def)
  moreover have "length (all_records p) \<le> sum_list (map record_max (all_records p))"
    using assms(1) by (intro length_le_sum readable_record_max) (auto simp: readable_packet_def list_all_iff)
  ultimately show "length (questions p) < 0x10000" "length (all_records p) < 0x10000"
    using assms(2) by (auto simp: packet_max_def)
qed

text \<open>A packet as \<open>DnsPacket_new\<close> and the server build it: no record is counted yet.\<close>

definition uncounted :: "dns_packet \<Rightarrow> bool" where
  "uncounted p \<longleftrightarrow> h_answers (header p) = 0 \<and> h_authoritative_entries (header p) = 0 \<and>
     h_resource_entries (header p) = 0"

lemma sent_counts:
  assumes "readable_packet p" "packet_max p \<le> 0x4000" "uncounted p" "n \<le> length (all_records p)"
  shows "counts_match (kept n (sent p n))"
proof -
  note len = packet_lengths [OF assms(1,2)]
  have "unat (of_nat k :: u16) = k" if "k \<le> length (all_records p)" for k
    using that len(2) by (simp add: unat_of_nat)
  moreover have "unat (of_nat (length (questions p)) :: u16) = length (questions p)"
    using len(1) by (simp add: unat_of_nat)
  ultimately show ?thesis
    using assms(3,4) by (simp add: counts_match_def kept_def sent_def planned_def Let_def
        uncounted_def counted_fields all_records_def min.commute)
qed

context buffer_writer
begin

lemma writes_packet:
  assumes "readable_packet p"
  shows "writes (andthen (DnsHeader_write ops (header p))
      (andthen (for_each (DnsQuestion_write ops) (questions p))
        (for_each (\<lambda>r. andthen (DnsRecord_write ops r) (return ())) (all_records p))))
      (packet_max p) (packet_l p)"
proof -
  note ok = readable_packetD [OF assms]
  have qs: "writes (for_each (DnsQuestion_write ops) (questions p))
      (sum_list (map question_max (questions p))) (list_l question_l (questions p))"
    by (intro writes_each writes_question layout_intros readable_valid(2) ok(2))
  have "r \<in> set (all_records p) \<Longrightarrow> readable_record r" for r
    using ok by (auto simp: all_records_def)
  then have rs: "writes (for_each (\<lambda>r. andthen (DnsRecord_write ops r) (return ())) (all_records p))
      (sum_list (map record_max (all_records p))) (list_l record_l (all_records p))"
    by (intro writes_each writes_record layout_intros readable_valid(1))
  have "packet_l p = seq_l (bytes_l (header_bytes (header p)))
      (seq_l (list_l question_l (questions p)) (list_l record_l (all_records p)))"
    by (simp add: packet_l_def all_records_def list_l_append)
  then show ?thesis
    using writes_seq [OF writes_header writes_seq [OF qs rs layout_list] layout_bytes]
      layout_question by (simp add: packet_max_def add.assoc)
qed

lemma packet_written:
  assumes "readable_packet p" "packet_max p \<le> 0x4000" "ready {} (packet_max p) s"
  shows "\<exists>n s'. DnsPacket_write ops p max_size s = (Ok (sent p n), s') \<and>
    n \<le> length (all_records p) \<and> (packet_max p \<le> max_size \<longrightarrow> n = length (all_records p)) \<and>
    written {} (packet_max p) (packet_l (kept n (sent p n))) s s'"
proof -
  obtain n v where plan: "packet_plan p max_size VectorPacketBuffer_new = (Ok (n, planned p n), v)"
    "n \<le> length (all_records p)" "packet_max p \<le> max_size \<Longrightarrow> n = length (all_records p)"
    using packet_plan_ok [OF assms(1,2)] by blast
  let ?p = "kept n (sent p n)"
  have recs: "all_records ?p = take n (all_records p)" by (simp add: all_records_kept)
  have qs: "questions ?p = questions p" "header ?p = header (sent p n)" by simp_all
  have max: "packet_max ?p \<le> packet_max p" using kept_max [of n "sent p n"] by (simp add: sent_max)
  have "ready {} (packet_max ?p) s"
    using assms(3) max by (auto simp: ready_def intro: room_mono)
  with writes_packet [OF sent_readable [OF assms(1)], of n] obtain s' where
    s': "andthen (DnsHeader_write ops (header ?p))
      (andthen (for_each (DnsQuestion_write ops) (questions ?p))
        (for_each (\<lambda>r. andthen (DnsRecord_write ops r) (return ())) (all_records ?p))) s = (Ok (), s')"
      "written {} (packet_max ?p) (packet_l ?p) s s'"
    unfolding writes_def by blast
  have "DnsPacket_write ops p max_size s = bind (andthen (DnsHeader_write ops (header ?p))
      (andthen (for_each (DnsQuestion_write ops) (questions ?p))
        (for_each (\<lambda>r. andthen (DnsRecord_write ops r) (return ())) (all_records ?p))))
      (\<lambda>_. return (sent p n)) s"
    unfolding DnsPacket_write_def plan(1) qs recs bind_assoc
    by (simp add: sent_def Let_def)
  with s'(1) have "DnsPacket_write ops p max_size s = (Ok (sent p n), s')" by simp
  moreover have "written {} (packet_max p) (packet_l ?p) s s'"
    using s'(2) max unfolding written_def by (meson add_le_mono1 le_trans nat_add_left_cancel_le room_mono)
  ultimately show ?thesis using plan by blast
qed

end

subsection \<open>Round trips\<close>

context buffer_reader
begin

lemma packet_read_back:
  assumes "packet_l p (mem_of bs {}) 0 (length bs)" "ascii_lowercase lc" "readable_packet p"
    "counts_match p" "ok s" "b_pos ops s = 0" "contents s = bs @ rest" "slack \<le> length rest"
  shows "fst (from_buffer ops lc s) = Ok p"
  by (rule decodes_start [OF decodes_packet [OF assms(2-4)] layout_packet assms(1,5-8)])

end

lemma vector_ready: "n \<le> 0x4000 \<Longrightarrow> vector_writer.ready {} n VectorPacketBuffer_new"
  by (simp add: vector_writer.ready_def VectorPacketBuffer_new_def vector_wf_def vector_writer.sound_def)

lemma byte_ready: "n \<le> 512 \<Longrightarrow> byte_wf s \<Longrightarrow> bpos s = 0 \<Longrightarrow> byte_writer.ready {} n s"
  unfolding byte_writer.ready_def byte_writer.sound_def
  by (simp add: byte_room_def byte_written_def)

lemma byte_wf_new: "byte_wf BytePacketBuffer_new" "bpos BytePacketBuffer_new = 0"
  by (simp_all add: BytePacketBuffer_new_def byte_wf_def)

text \<open>The array into which a datagram of the given bytes was received.\<close>

definition received :: "u8 list \<Rightarrow> byte_buffer" where
  "received bs = \<lparr>buf = bs @ replicate (512 - length bs) 0, bpos = 0\<rparr>"

text \<open>What is written is read back from any 512-byte array that begins with it: the bytes behind a
  datagram may be left over from an earlier one.\<close>

lemma reply_written:
  assumes "ascii_lowercase lc" "readable_packet p" "uncounted p" "packet_max p < 512"
  shows "\<exists>n b. DnsPacket_write vector_ops p max_size VectorPacketBuffer_new = (Ok (sent p n), b) \<and>
    n \<le> length (all_records p) \<and> (packet_max p \<le> max_size \<longrightarrow> n = length (all_records p)) \<and>
    vpos b = length (vec b) \<and> length (vec b) < 512 \<and>
    (\<forall>rest. length (vec b @ rest) = 512 \<longrightarrow>
      fst (from_buffer byte_ops lc \<lparr>buf = vec b @ rest, bpos = 0\<rparr>) = Ok (kept n (sent p n)))"
proof -
  have max: "packet_max p \<le> 0x4000" using assms(4) by simp
  obtain n b where w: "DnsPacket_write vector_ops p max_size VectorPacketBuffer_new = (Ok (sent p n), b)"
    "n \<le> length (all_records p)" "packet_max p \<le> max_size \<longrightarrow> n = length (all_records p)"
    "vector_writer.written {} (packet_max p) (packet_l (kept n (sent p n))) VectorPacketBuffer_new b"
    using vector_writer.packet_written [OF assms(2) max vector_ready [OF max]] by blast
  then have lay: "packet_l (kept n (sent p n)) (mem_of (vec b) {}) 0 (length (vec b))"
    and len: "length (vec b) < 512" "vpos b = length (vec b)"
    using assms(4) by (auto simp: vector_writer.written_def VectorPacketBuffer_new_def vector_wf_def)
  have "fst (from_buffer byte_ops lc \<lparr>buf = vec b @ rest, bpos = 0\<rparr>) = Ok (kept n (sent p n))"
    if "length (vec b @ rest) = 512" for rest
    by (rule byte_reader.packet_read_back [OF lay assms(1) sent_readable [OF assms(2)]
          sent_counts [OF assms(2) max assms(3) w(2)], where rest = rest])
       (use that len in \<open>simp_all add: byte_wf_def byte_ops_def\<close>)
  with w len show ?thesis by blast
qed

lemma kept_all: "kept (length (all_records p)) (sent p (length (all_records p))) = sent p (length (all_records p))"
  by (simp add: kept_def sent_def all_records_def)

lemma reply_written_all:
  assumes "ascii_lowercase lc" "readable_packet p" "uncounted p" "packet_max p < 512" "packet_max p \<le> max_size"
  shows "\<exists>b. DnsPacket_write vector_ops p max_size VectorPacketBuffer_new = (Ok (sent p (length (all_records p))), b) \<and>
    vpos b = length (vec b) \<and> length (vec b) < 512 \<and>
    (\<forall>rest. length (vec b @ rest) = 512 \<longrightarrow>
      fst (from_buffer byte_ops lc \<lparr>buf = vec b @ rest, bpos = 0\<rparr>) = Ok (sent p (length (all_records p))))"
proof -
  obtain n b where b: "DnsPacket_write vector_ops p max_size VectorPacketBuffer_new = (Ok (sent p n), b)"
    "packet_max p \<le> max_size \<longrightarrow> n = length (all_records p)" "vpos b = length (vec b)" "length (vec b) < 512"
    "\<forall>rest. length (vec b @ rest) = 512 \<longrightarrow>
      fst (from_buffer byte_ops lc \<lparr>buf = vec b @ rest, bpos = 0\<rparr>) = Ok (kept n (sent p n))"
    using reply_written [OF assms(1-4), of max_size] by blast
  then have "n = length (all_records p)" using assms(5) by simp
  with b kept_all [of p] show ?thesis by auto
qed

lemma query_written:
  assumes "ascii_lowercase lc" "readable_packet p" "uncounted p" "packet_max p < 512"
    "packet_max p \<le> max_size" "byte_wf s" "bpos s = 0"
  shows "\<exists>b. DnsPacket_write byte_ops p max_size s = (Ok (sent p (length (all_records p))), b) \<and>
    byte_wf b \<and> length (byte_written b) < 512 \<and>
    (\<forall>rest. length (byte_written b @ rest) = 512 \<longrightarrow>
      fst (from_buffer byte_ops lc \<lparr>buf = byte_written b @ rest, bpos = 0\<rparr>) = Ok (sent p (length (all_records p))))"
proof -
  have max: "packet_max p \<le> 0x4000" using assms(4) by simp
  let ?n = "length (all_records p)"
  obtain b where w: "DnsPacket_write byte_ops p max_size s = (Ok (sent p ?n), b)"
    "byte_writer.written {} (packet_max p) (packet_l (kept ?n (sent p ?n))) s b"
    using byte_writer.packet_written [OF assms(2) max byte_ready [OF _ assms(6,7)]] assms(4,5) by auto
  then have lay: "packet_l (kept ?n (sent p ?n)) (mem_of (byte_written b) {}) 0 (length (byte_written b))"
    and len: "length (byte_written b) < 512" "byte_wf b"
    using assms(4,7) by (auto simp: byte_writer.written_def byte_written_def)
  from kept_all [of p] have "fst (from_buffer byte_ops lc \<lparr>buf = byte_written b @ rest, bpos = 0\<rparr>) = Ok (sent p ?n)"
    if "length (byte_written b @ rest) = 512" for rest
    using byte_reader.packet_read_back [OF lay assms(1) sent_readable [OF assms(2)]
      sent_counts [OF assms(2) max assms(3) order_refl], where rest = rest and s = "\<lparr>buf = byte_written b @ rest, bpos = 0\<rparr>"]
      that len by (simp add: byte_wf_def byte_ops_def)
  with w(1) len show ?thesis by blast
qed

text \<open>The packet of the unit test in \<^verbatim>\<open>protocol.rs\<close>, for the instances below.\<close>

definition sample_packet :: dns_packet where
  "sample_packet = DnsPacket_new\<lparr>
     header := DnsHeader_new\<lparr>h_id := 1337, response := True\<rparr>,
     questions := [DnsQuestion_new ''google.com'' QT_NS],
     answers := [NS ''google.com'' ''ns1.google.com'' 3600, NS ''google.com'' ''ns2.google.com'' 3600]\<rparr>"

lemma sample_packet_readable: "readable_packet sample_packet"
  by code_simp

lemma sample_packet_ok: "uncounted sample_packet" "packet_max sample_packet = 104"
  by code_simp+

lemma ascii_lowercase_map: "ascii_lowercase (map ascii_lower)"
  by (simp add: ascii_lowercase_def)

text \<open>C1: a packet written for a TCP connection (a growing buffer with name compression) is read
  back from the stream as the packet the writer was left with, cut to the \<open>n\<close> records that
  fit; nothing is cut when the limit admits the uncompressed size.\<close>

theorem packet_round_trip_tcp:
  assumes "ascii_lowercase lc" "readable_packet p" "uncounted p" "packet_max p \<le> 0x4000"
  shows "\<exists>n q b. DnsPacket_write vector_ops p max_size VectorPacketBuffer_new = (Ok q, b) \<and>
    n \<le> length (all_records p) \<and> (packet_max p \<le> max_size \<longrightarrow> n = length (all_records p)) \<and>
    questions q = questions p \<and> all_records q = all_records p \<and>
    fst (from_buffer stream_ops lc (StreamPacketBuffer_new (vec b @ rest))) = Ok (kept n q)"
proof -
  obtain n b where w: "DnsPacket_write vector_ops p max_size VectorPacketBuffer_new = (Ok (sent p n), b)"
    "n \<le> length (all_records p)" "packet_max p \<le> max_size \<longrightarrow> n = length (all_records p)"
    "vector_writer.written {} (packet_max p) (packet_l (kept n (sent p n))) VectorPacketBuffer_new b"
    using vector_writer.packet_written [OF assms(2,4) vector_ready [OF assms(4)]] by blast
  then have "packet_l (kept n (sent p n)) (mem_of (vec b) {}) 0 (length (vec b))"
    by (simp add: vector_writer.written_def VectorPacketBuffer_new_def)
  from stream_reader.packet_read_back [OF this assms(1) sent_readable [OF assms(2)]
      sent_counts [OF assms(2,4,3) w(2)]]
  have "fst (from_buffer stream_ops lc (StreamPacketBuffer_new (vec b @ rest))) = Ok (kept n (sent p n))"
    by (simp add: StreamPacketBuffer_new_def stream_contents_def stream_ops_def)
  with w show ?thesis by (intro exI [of _ n] exI [of _ "sent p n"] exI [of _ b]) simp
qed

theorem packet_round_trip_tcp_witness:
  "\<exists>n q b. DnsPacket_write vector_ops sample_packet 512 VectorPacketBuffer_new = (Ok q, b) \<and>
    n = length (all_records sample_packet) \<and> questions q = questions sample_packet \<and>
    all_records q = all_records sample_packet \<and>
    fst (from_buffer stream_ops (map ascii_lower) (StreamPacketBuffer_new (vec b @ [7]))) =
      Ok (kept n q)"
  using packet_round_trip_tcp [OF ascii_lowercase_map sample_packet_readable sample_packet_ok(1),
      of 512 "[7]"] unfolding sample_packet_ok(2) by auto

text \<open>C2: a reply written for UDP (compressed) and received in the 512-byte array of the client is
  read back the same way, when it is shorter than the array.\<close>

theorem packet_round_trip_reply:
  assumes "ascii_lowercase lc" "readable_packet p" "uncounted p" "packet_max p < 512"
  shows "\<exists>n q b. DnsPacket_write vector_ops p max_size VectorPacketBuffer_new = (Ok q, b) \<and>
    n \<le> length (all_records p) \<and> (packet_max p \<le> max_size \<longrightarrow> n = length (all_records p)) \<and>
    questions q = questions p \<and> all_records q = all_records p \<and>
    fst (from_buffer byte_ops lc (received (vec b))) = Ok (kept n q)"
proof -
  obtain n b where w: "DnsPacket_write vector_ops p max_size VectorPacketBuffer_new = (Ok (sent p n), b)"
    "n \<le> length (all_records p)" "packet_max p \<le> max_size \<longrightarrow> n = length (all_records p)" "length (vec b) < 512"
    and "\<forall>rest. length (vec b @ rest) = 512 \<longrightarrow>
      fst (from_buffer byte_ops lc \<lparr>buf = vec b @ rest, bpos = 0\<rparr>) = Ok (kept n (sent p n))"
    using reply_written [OF assms] by blast
  then have "fst (from_buffer byte_ops lc (received (vec b))) = Ok (kept n (sent p n))"
    by (simp add: received_def)
  with w show ?thesis by (intro exI [of _ n] exI [of _ "sent p n"] exI [of _ b]) simp
qed

theorem packet_round_trip_reply_witness:
  "\<exists>n q b. DnsPacket_write vector_ops sample_packet 512 VectorPacketBuffer_new = (Ok q, b) \<and>
    n = length (all_records sample_packet) \<and> questions q = questions sample_packet \<and>
    all_records q = all_records sample_packet \<and>
    fst (from_buffer byte_ops (map ascii_lower) (received (vec b))) = Ok (kept n q)"
  using packet_round_trip_reply [OF ascii_lowercase_map sample_packet_readable sample_packet_ok(1),
      of 512] unfolding sample_packet_ok(2) by auto

text \<open>A query written into a 512-byte array, without compression, arrives unchanged in the
  array of the receiver.\<close>

lemma packet_round_trip_query:
  assumes "ascii_lowercase lc" "readable_packet p" "uncounted p" "packet_max p < 512"
    "packet_max p \<le> max_size"
  shows "\<exists>q b. DnsPacket_write byte_ops p max_size BytePacketBuffer_new = (Ok q, b) \<and>
    questions q = questions p \<and> all_records q = all_records p \<and>
    fst (from_buffer byte_ops lc (received (byte_written b))) = Ok q"
proof -
  obtain b where w: "DnsPacket_write byte_ops p max_size BytePacketBuffer_new = (Ok (sent p (length (all_records p))), b)"
    "length (byte_written b) < 512"
    and "\<forall>rest. length (byte_written b @ rest) = 512 \<longrightarrow>
      fst (from_buffer byte_ops lc \<lparr>buf = byte_written b @ rest, bpos = 0\<rparr>) = Ok (sent p (length (all_records p)))"
    using query_written [OF assms byte_wf_new] by blast
  then have "fst (from_buffer byte_ops lc (received (byte_written b))) = Ok (sent p (length (all_records p)))"
    by (simp add: received_def)
  with w show ?thesis by (intro exI [of _ "sent p (length (all_records p))"] exI [of _ b]) simp
qed

lemma packet_round_trip_query_instance:
  "\<exists>q b. DnsPacket_write byte_ops sample_packet 0xFFFF BytePacketBuffer_new = (Ok q, b) \<and>
    questions q = questions sample_packet \<and> all_records q = all_records sample_packet \<and>
    fst (from_buffer byte_ops (map ascii_lower) (received (byte_written b))) = Ok q"
  using packet_round_trip_query [OF ascii_lowercase_map sample_packet_readable sample_packet_ok(1),
      of "0xFFFF"] unfolding sample_packet_ok(2) by simp

end
