(* ===== verification/Dns_Server.thy ===== *)
theory Dns_Server
  imports Dns_Resolve Dns_Codec
begin

text \<open>
  The server of \<^verbatim>\<open>hermes/hermesdns/src/dns/server.rs\<close> with its context
  (\<^verbatim>\<open>hermes/hermesdns/src/dns/context.rs\<close>).  The server reaches its resolver through the trait
  \<^verbatim>\<open>DnsResolver\<close>: here a function argument, with the contract \<open>dns_resolver\<close> that it returns a
  packet or an error and keeps its invariant.
\<close>

type_synonym 's resolver = "string \<Rightarrow> query_type \<Rightarrow> bool \<Rightarrow> ('s, dns_packet) rust"

record 's server_context =
  listen :: string
  resolver :: "'s resolver"
  allow_recursive :: bool

definition ServerContext_new :: "string \<Rightarrow> 's resolver \<Rightarrow> 's server_context" where
  "ServerContext_new l r = \<lparr>listen = l, resolver = r, allow_recursive = True\<rparr>"

subsection \<open>Following aliases\<close>

definition alias_host :: "dns_record \<Rightarrow> string option" where
  "alias_host rec = (case rec of
     CNAME _ host _ \<Rightarrow> Some host | SRV _ _ _ _ host _ \<Rightarrow> Some host | _ \<Rightarrow> None)"

text \<open>One pass over the unmatched records: the records to match in the next pass and the results.\<close>

fun cname_round :: "'s resolver \<Rightarrow> (dns_record \<times> nat) list \<Rightarrow>
    ('s, (dns_record \<times> nat) list \<times> dns_packet list) rust" where
  "cname_round res [] = return ([], [])"
| "cname_round res ((rec, depth) # us) =
     (if depth \<le> 10 then
        (case alias_host rec of
           Some host \<Rightarrow> (\<lambda>s.
             case res host QT_A True s of
               (Ok result2, s1) \<Rightarrow>
                 bind (cname_round res us) (\<lambda>(new, rs).
                   return (map (\<lambda>rec. (rec, depth + 1)) (get_unresolved_cnames result2) @ new,
                           result2 # rs)) s1
             | (Err _, s1) \<Rightarrow> cname_round res us s1
             | (Panic, s1) \<Rightarrow> (Panic, s1)
             | (Diverge, s1) \<Rightarrow> (Diverge, s1))
         | None \<Rightarrow> cname_round res us)
      else cname_round res us)"

definition min_depth :: "(dns_record \<times> nat) list \<Rightarrow> nat" where
  "min_depth us = (if us = [] then 0 else Suc (11 - Min (snd ` set us)))"

lemma cname_round_Cons:
  assumes "cname_round res ((rec, depth) # us) s = (Ok (new, rs), s')"
  obtains (skip) s1 where "cname_round res us s1 = (Ok (new, rs), s')"
  | (found) p s1 new' rs' where "depth \<le> 10" "cname_round res us s1 = (Ok (new', rs'), s')"
      "new = map (\<lambda>rec. (rec, depth + 1)) (get_unresolved_cnames p) @ new'"
  using assms by (auto simp: bind_eq_Ok split: if_splits option.splits prod.splits outcome.splits)

lemma cname_round_new:
  assumes "cname_round res us s = (Ok (new, rs), s')" "(r, d) \<in> set new"
  shows "\<exists>r' d'. (r', d') \<in> set us \<and> d' \<le> 10 \<and> d = Suc d'"
  using assms
proof (induction us arbitrary: s s' new rs)
  case (Cons u us)
  obtain rec depth where u: "u = (rec, depth)" by (cases u)
  from Cons.prems(1) [unfolded u] show ?case
  proof (cases rule: cname_round_Cons)
    case (skip s1)
    from Cons.IH [OF skip Cons.prems(2)] show ?thesis by auto
  next
    case (found p s1 new' rs')
    show ?thesis
    proof (cases "(r, d) \<in> set new'")
      case True
      from Cons.IH [OF found(2) True] show ?thesis by auto
    next
      case False
      with Cons.prems(2) found show ?thesis by (auto simp: u)
    qed
  qed
qed simp

lemma min_depth_decreases:
  assumes "us \<noteq> []" "cname_round res us s = (Ok (new, rs), s')"
  shows "min_depth new < min_depth us"
proof (cases "new = []")
  case True
  with assms(1) show ?thesis by (simp add: min_depth_def)
next
  case False
  then have "Min (snd ` set new) \<in> snd ` set new" by (intro Min_in) auto
  then obtain r d where d: "(r, d) \<in> set new" "d = Min (snd ` set new)" by auto
  from cname_round_new [OF assms(2) d(1)] obtain r' d' where
    d': "(r', d') \<in> set us" "d' \<le> 10" "d = Suc d'" by blast
  then have "Min (snd ` set us) \<le> d'" by (intro Min_le) force+
  with d d' False assms(1) show ?thesis by (simp add: min_depth_def)
qed

function cname_loop :: "'s resolver \<Rightarrow> (dns_record \<times> nat) list \<Rightarrow> 's \<Rightarrow> dns_packet list outcome \<times> 's" where
  "cname_loop res us s =
     (if us = [] then (Ok [], s)
      else case cname_round res us s of
        (Ok (new, rs), s1) \<Rightarrow>
          (case cname_loop res new s1 of
             (Ok rs', s2) \<Rightarrow> (Ok (rs @ rs'), s2)
           | (Err e, s2) \<Rightarrow> (Err e, s2)
           | (Panic, s2) \<Rightarrow> (Panic, s2)
           | (Diverge, s2) \<Rightarrow> (Diverge, s2))
      | (Err e, s1) \<Rightarrow> (Err e, s1)
      | (Panic, s1) \<Rightarrow> (Panic, s1)
      | (Diverge, s1) \<Rightarrow> (Diverge, s1))"
  by pat_completeness auto
termination
  by (relation "measure (\<lambda>(_, us, _). min_depth us)") (auto dest: min_depth_decreases [OF _ sym])

declare cname_loop.simps [simp del]

text \<open>The packets that \<^verbatim>\<open>resolve_cnames\<close> appends to the results.\<close>

definition resolve_cnames :: "dns_record list \<Rightarrow> 's resolver \<Rightarrow> nat \<Rightarrow> ('s, dns_packet list) rust" where
  "resolve_cnames lookup_list res depth =
     cname_loop res (map (\<lambda>rec. (rec, depth + 1)) lookup_list)"

subsection \<open>Executing a query\<close>

definition reply_header :: "bool \<Rightarrow> dns_packet \<Rightarrow> result_code \<Rightarrow> dns_header" where
  "reply_header allow request c = DnsHeader_new\<lparr>h_id := h_id (header request),
     recursion_available := allow, response := True, rescode := c\<rparr>"

definition collect :: "dns_packet list \<Rightarrow> dns_packet \<Rightarrow> dns_packet" where
  "collect results p = p\<lparr>answers := answers p @ concat (map answers results),
     authorities := authorities p @ concat (map authorities results),
     resources := resources p @ concat (map resources results)\<rparr>"

definition execute_query :: "'s server_context \<Rightarrow> dns_packet \<Rightarrow> ('s, dns_packet) rust" where
  "execute_query ctx request =
     (let reply = (\<lambda>c. DnsPacket_new\<lparr>header := reply_header (allow_recursive ctx) request c\<rparr>) in
      if recursion_desired (header request) \<and> \<not> allow_recursive ctx then return (reply REFUSED)
      else if questions request = [] then return (reply FORMERR)
      else let question = hd (questions request) in (\<lambda>s.
        case resolver ctx (q_name question) (q_type question) (recursion_desired (header request)) s of
          (Ok result, s1) \<Rightarrow>
            bind (resolve_cnames (get_unresolved_cnames result) (resolver ctx) 0) (\<lambda>results.
              return (collect (result # results)
                ((reply (rescode (header result)))\<lparr>questions := [question]\<rparr>))) s1
        | (Err _, s1) \<Rightarrow> (Ok ((reply SERVFAIL)\<lparr>questions := [question]\<rparr>), s1)
        | (Panic, s1) \<Rightarrow> (Panic, s1)
        | (Diverge, s1) \<Rightarrow> (Diverge, s1)))"

text \<open>One turn of \<^verbatim>\<open>run_server\<close>: the bytes of the reply, or nothing when the datagram does not
  parse.  Bytes beyond the 512 of the array are cut off by the socket.  A panic of the spawned
  task sends nothing.\<close>

definition edns_limit :: "dns_packet \<Rightarrow> nat" where
  "edns_limit request = (case resources request of
     [OPT packet_len _ _] \<Rightarrow> unat packet_len | _ \<Rightarrow> 512)"

definition datagram :: "u8 list \<Rightarrow> byte_buffer" where
  "datagram bytes = received (take 512 bytes)"

definition serve_datagram :: "(string \<Rightarrow> string) \<Rightarrow> 's server_context \<Rightarrow> u8 list \<Rightarrow> ('s, u8 list option) rust" where
  "serve_datagram lc ctx bytes =
     (case fst (from_buffer byte_ops lc (datagram bytes)) of
        Ok request \<Rightarrow>
          bind (execute_query ctx request) (\<lambda>packet.
            let b = snd (DnsPacket_write vector_ops packet (edns_limit request) VectorPacketBuffer_new)
            in return (Some (take (vpos b) (vec b))))
      | Err _ \<Rightarrow> return None
      | Panic \<Rightarrow> panic
      | Diverge \<Rightarrow> diverge)"

subsection \<open>The contract of a resolver\<close>

locale dns_resolver =
  fixes resolve :: "'s resolver"
    and inv :: "'s \<Rightarrow> bool"
  assumes resolve_returns: "inv s \<Longrightarrow>
    \<exists>s'. inv s' \<and> ((\<exists>p. resolve qname qtype recursive s = (Ok p, s')) \<or>
                      (\<exists>e. resolve qname qtype recursive s = (Err e, s')))"
begin

lemma cname_round_returns: "inv s \<Longrightarrow> \<exists>new rs s'. cname_round resolve us s = (Ok (new, rs), s') \<and> inv s'"
proof (induction us arbitrary: s)
  case (Cons u us)
  obtain rec depth where u: "u = (rec, depth)" by (cases u)
  show ?case
  proof (cases "depth \<le> 10 \<and> alias_host rec \<noteq> None")
    case True
    then obtain host where "depth \<le> 10" "alias_host rec = Some host" by auto
    moreover obtain s1 where "inv s1" "(\<exists>p. resolve host QT_A True s = (Ok p, s1)) \<or>
        (\<exists>e. resolve host QT_A True s = (Err e, s1))"
      using resolve_returns [OF Cons.prems] by blast
    moreover obtain new rs s2 where "cname_round resolve us s1 = (Ok (new, rs), s2)" "inv s2"
      using Cons.IH [OF calculation(3)] by blast
    ultimately show ?thesis by (auto simp: u)
  next
    case False
    with Cons show ?thesis by (auto simp: u)
  qed
qed simp

lemma cname_loop_returns: "inv s \<Longrightarrow> \<exists>rs s'. cname_loop resolve us s = (Ok rs, s') \<and> inv s'"
proof (induction "min_depth us" arbitrary: us s rule: less_induct)
  case less
  show ?case
  proof (cases "us = []")
    case True
    with less show ?thesis by (simp add: cname_loop.simps)
  next
    case False
    from cname_round_returns [OF less.prems] obtain new rs s1 where
      round: "cname_round resolve us s = (Ok (new, rs), s1)" "inv s1" by blast
    from less.hyps [OF min_depth_decreases [OF False round(1)] round(2)] round(1) False
    show ?thesis by (auto simp: cname_loop.simps [of _ us])
  qed
qed

text \<open>The shape of every reply: it answers the request's identifier and first question, and the
  answers start with those of the resolver.\<close>

lemma execute_query_replies:
  assumes "inv s" "resolver ctx = resolve"
  shows "\<exists>p s'. execute_query ctx request s = (Ok p, s') \<and> inv s' \<and>
    h_id (header p) = h_id (header request) \<and> response (header p) \<and>
    questions p = (if recursion_desired (header request) \<and> \<not> allow_recursive ctx then []
                   else take 1 (questions request))"
proof (cases "questions request = [] \<or> recursion_desired (header request) \<and> \<not> allow_recursive ctx")
  case True
  with assms(1) show ?thesis
    by (auto simp: execute_query_def Let_def reply_header_def DnsPacket_new_def)
next
  case False
  then obtain q qs where q: "questions request = q # qs" by (cases "questions request") auto
  obtain s1 where s1: "inv s1" "(\<exists>p. resolve (q_name q) (q_type q) (recursion_desired (header request)) s = (Ok p, s1)) \<or>
      (\<exists>e. resolve (q_name q) (q_type q) (recursion_desired (header request)) s = (Err e, s1))"
    using resolve_returns [OF assms(1)] by blast
  then show ?thesis
  proof (elim disjE exE)
    fix p
    assume p: "resolve (q_name q) (q_type q) (recursion_desired (header request)) s = (Ok p, s1)"
    obtain rs s2 where "resolve_cnames (get_unresolved_cnames p) resolve 0 s1 = (Ok rs, s2)" "inv s2"
      unfolding resolve_cnames_def using cname_loop_returns [OF s1(1)] by blast
    with p q False assms(2) show ?thesis
      by (auto simp: execute_query_def Let_def reply_header_def collect_def)
  next
    fix e
    assume "resolve (q_name q) (q_type q) (recursion_desired (header request)) s = (Err e, s1)"
    with s1(1) q False assms(2) show ?thesis
      by (auto simp: execute_query_def Let_def reply_header_def)
  qed
qed

end

subsection \<open>The forwarding resolver keeps the contract\<close>

lemma responds_lookup: "responds (lookup_in_cache ext q t)"
  by (simp add: responds_def lookup_in_cache_eq split: prod.splits)

lemma responds_forward: "responds (forward_query ext f q t)"
  unfolding forward_query_def
proof (intro responds_bind responds_return)
  show "responds (send_query ext q t (f_server f) True)"
    by (auto simp: responds_def send_query_def split: prod.splits sum.splits)
  show "responds (store_in_cache ext rs)" for rs
    by (simp add: responds_def store_in_cache_def bind_Ok [OF repeat_clock])
qed

lemma responds_forwarding: "responds (forwarding_resolve ext f q t r)"
  unfolding forwarding_resolve_def resolve_from_cache_def
  by (auto intro!: responds_bind responds_return responds_lookup responds_forward
      simp del: return_apply split: option.splits)

interpretation forwarding: dns_resolver "forwarding_resolve ext f" "\<lambda>_. True"
  by standard (use responds_forwarding [unfolded responds_def] in blast)

text \<open>C10: a server over a forwarding resolver answers every request: whatever the upstream client does,
  \<open>execute_query\<close> returns a reply with the request's identifier that repeats its first
  question.  In particular the chase of aliases ends.\<close>

theorem server_always_replies:
  "\<exists>p s'. execute_query (ServerContext_new l (forwarding_resolve ext f)) request s = (Ok p, s') \<and>
     h_id (header p) = h_id (header request) \<and> response (header p) \<and>
     questions p = take 1 (questions request)"
  using forwarding.execute_query_replies [where ctx = "ServerContext_new l (forwarding_resolve ext f)"
      and s = s and request = request]
  by (simp add: ServerContext_new_def)

subsection \<open>The depth of alias chains\<close>

text \<open>The alias loop with a bound on the number of passes.\<close>

fun cname_passes :: "nat \<Rightarrow> 's resolver \<Rightarrow> (dns_record \<times> nat) list \<Rightarrow> ('s, dns_packet list) rust" where
  "cname_passes 0 res us = (if us = [] then return [] else diverge)"
| "cname_passes (Suc n) res us =
     (if us = [] then return []
      else bind (cname_round res us) (\<lambda>(new, rs).
             bind (cname_passes n res new) (\<lambda>rs'. return (rs @ rs'))))"

lemma cname_passes_enough:
  "min_depth us \<le> n \<Longrightarrow> cname_passes n res us s = cname_loop res us s"
proof (induction n arbitrary: us s)
  case 0
  then have "us = []" by (simp add: min_depth_def split: if_splits)
  then show ?case by (simp add: cname_loop.simps)
next
  case (Suc n)
  show ?case
  proof (cases "us = []")
    case False
    have "cname_passes n res new s1 = cname_loop res new s1"
      if "cname_round res us s = (Ok (new, rs), s1)" for new rs s1
      using Suc.IH [of new s1] min_depth_decreases [OF False that] Suc.prems by simp
    then show ?thesis
      using False by (auto simp: cname_loop.simps [of _ us] bind_def split: prod.splits outcome.splits)
  qed (simp add: cname_loop.simps)
qed


end
