(* ===== verification/Dns_Client.thy ===== *)
theory Dns_Client
  imports Dns_Server
begin

text \<open>
  The network client of the DNS library, \<^verbatim>\<open>hermes/hermesdns/src/dns/client.rs\<close>.  Any number of
  callers run \<^verbatim>\<open>send_query\<close>; one background task, \<^verbatim>\<open>run\<close>, writes their requests to a socket and
  hands the replies that come back, in any order, to the caller whose query has the same id.  A
  failure of the background task drops the table of pending queries and starts over.

  The callers and the two halves of the background task interleave at their \<^verbatim>\<open>await\<close> points.  After
  a datagram was sent the query is entered into the table before the task yields, so no reply can
  overtake it.  The channel of requests has capacity one; the channel of a reply is a place in the
  caller's state.  A datagram on which the parser panics or runs forever stops the task and has no
  step here.
\<close>

subsection \<open>State\<close>

record dns_request =
  rq_packet :: dns_packet
  rq_server :: "string \<times> u16"
  rq_resp :: nat                      \<comment> \<open>the call that waits for the reply\<close>

text \<open>A call has drawn its id, has built its request, waits for the reply, has one in its channel, has
  a channel whose sender is gone, or has returned.\<close>

datatype phase =
    Numbered
  | Prepared
  | Asked
  | Answered dns_packet
  | Dropped
  | Finished "dns_packet outcome"

record query_call =
  c_request :: dns_request
  c_phase :: phase

record network_client =
  total_sent :: u64
  total_failed :: u64
  seq :: u64
  requests :: "dns_request list"
  req_resp_map :: "(u16 \<times> nat) list"
  calls :: "nat \<rightharpoonup> query_call"
  req_buffer :: byte_buffer
  res_buffer :: byte_buffer
  datagrams :: "(u8 list \<times> (string \<times> u16)) list"

definition DnsNetworkClient_new :: network_client where
  "DnsNetworkClient_new = \<lparr>total_sent = 0, total_failed = 0, seq = 0, requests = [], req_resp_map = [],
     calls = Map.empty, req_buffer = BytePacketBuffer_new, res_buffer = BytePacketBuffer_new, datagrams = []\<rparr>"

definition set_phase :: "nat \<Rightarrow> phase \<Rightarrow> network_client \<Rightarrow> network_client" where
  "set_phase i ph c = c\<lparr>calls := (calls c)(i := map_option (\<lambda>q. q\<lparr>c_phase := ph\<rparr>) (calls c i))\<rparr>"

subsection \<open>The callers\<close>

definition query_packet :: "u16 \<Rightarrow> string \<Rightarrow> query_type \<Rightarrow> bool \<Rightarrow> dns_packet" where
  "query_packet qid qname qtype recursive = DnsPacket_new\<lparr>
     header := DnsHeader_new\<lparr>h_id := qid, h_questions := 1, recursion_desired := recursive\<rparr>,
     questions := [DnsQuestion_new qname qtype]\<rparr>"

definition start_query ::
  "nat \<Rightarrow> string \<Rightarrow> query_type \<Rightarrow> string \<times> u16 \<Rightarrow> bool \<Rightarrow> network_client \<Rightarrow> network_client" where
  "start_query i qname qtype server recursive c =
     (let rq = \<lparr>rq_packet = query_packet (ucast (seq c)) qname qtype recursive, rq_server = server, rq_resp = i\<rparr> in
      c\<lparr>total_sent := total_sent c + 1, seq := seq c + 1,
        calls := (calls c)(i \<mapsto> \<lparr>c_request = rq, c_phase = Numbered\<rparr>)\<rparr>)"

text \<open>The counter is set back by a separate atomic operation.\<close>

definition reset_seq :: "nat \<Rightarrow> dns_request \<Rightarrow> network_client \<Rightarrow> network_client" where
  "reset_seq i rq c =
     set_phase i Prepared
       (if h_id (header (rq_packet rq)) + 1 = 0xFFFF \<and> seq c = 0xFFFF then c\<lparr>seq := 0\<rparr> else c)"

definition REQUEST_CAP :: nat where "REQUEST_CAP = 1"

definition submit :: "nat \<Rightarrow> dns_request \<Rightarrow> network_client \<Rightarrow> network_client" where
  "submit i rq c = set_phase i Asked (c\<lparr>requests := requests c @ [rq]\<rparr>)"

definition query_failed :: "nat \<Rightarrow> error_kind \<Rightarrow> network_client \<Rightarrow> network_client" where
  "query_failed i e c = set_phase i (Finished (Err e)) (c\<lparr>total_failed := total_failed c + 1\<rparr>)"

text \<open>\<^verbatim>\<open>send_query\<close> refuses a truncated reply.\<close>

definition query_answered :: "nat \<Rightarrow> dns_packet \<Rightarrow> network_client \<Rightarrow> network_client" where
  "query_answered i packet c =
     set_phase i (Finished (if \<not> truncated_message (header packet) then Ok packet else Err UnexpectedEof)) c"

subsection \<open>The background task\<close>

text \<open>Dropping the sender of a reply: a call that still waits finds its channel closed.\<close>

definition drop_resp :: "nat \<Rightarrow> network_client \<Rightarrow> network_client" where
  "drop_resp i c = (case calls c i of
      Some q \<Rightarrow> if c_phase q = Asked then set_phase i Dropped c else c
    | None \<Rightarrow> c)"

definition restart :: "network_client \<Rightarrow> network_client" where
  "restart c = fold drop_resp (map snd (req_resp_map c))
     (c\<lparr>req_resp_map := [], req_buffer := BytePacketBuffer_new, res_buffer := BytePacketBuffer_new\<rparr>)"

definition enter_query :: "u16 \<Rightarrow> nat \<Rightarrow> network_client \<Rightarrow> network_client" where
  "enter_query qid i c =
     (let c = (case map_of (req_resp_map c) qid of Some j \<Rightarrow> drop_resp j c | None \<Rightarrow> c) in
      c\<lparr>req_resp_map := (qid, i) # filter (\<lambda>(k, _). k \<noteq> qid) (req_resp_map c)\<rparr>)"

text \<open>\<open>err\<close> is the error of the socket, if it reports one.\<close>

definition write_request :: "error_kind option \<Rightarrow> network_client \<Rightarrow> network_client option" where
  "write_request err c = (case requests c of
      [] \<Rightarrow> None
    | rq # rest \<Rightarrow>
        let c = c\<lparr>requests := rest\<rparr> in
        (case DnsPacket_write byte_ops (rq_packet rq) 512 ((req_buffer c)\<lparr>bpos := 0\<rparr>) of
           (Ok q, b) \<Rightarrow>
             (case err of
                None \<Rightarrow> Some (enter_query (h_id (header q)) (rq_resp rq)
                  (c\<lparr>req_buffer := b, datagrams := datagrams c @ [(byte_written b, rq_server rq)]\<rparr>))
              | Some e \<Rightarrow> Some (drop_resp (rq_resp rq) (restart c)))
         | (Err e, b) \<Rightarrow> Some (drop_resp (rq_resp rq) (restart c))
         | (Panic, _) \<Rightarrow> None
         | (Diverge, _) \<Rightarrow> None))"

text \<open>A datagram overwrites the beginning of the array; the bytes of an earlier one stay behind it.\<close>

definition overwrite :: "u8 list \<Rightarrow> byte_buffer \<Rightarrow> byte_buffer" where
  "overwrite bytes b = \<lparr>buf = take 512 bytes @ drop (length (take 512 bytes)) (buf b), bpos = 0\<rparr>"

definition deliver :: "dns_packet \<Rightarrow> network_client \<Rightarrow> network_client" where
  "deliver packet c = (let qid = h_id (header packet) in case map_of (req_resp_map c) qid of
      Some i \<Rightarrow>
        let c = c\<lparr>req_resp_map := filter (\<lambda>(k, _). k \<noteq> qid) (req_resp_map c)\<rparr> in
        (case calls c i of
           Some q \<Rightarrow> if c_phase q = Asked then set_phase i (Answered packet) c else c
         | None \<Rightarrow> c)
    | None \<Rightarrow> c)"

definition read_reply :: "(string \<Rightarrow> string) \<Rightarrow> u8 list \<Rightarrow> network_client \<Rightarrow> network_client option" where
  "read_reply lc bytes c = (case from_buffer byte_ops lc (overwrite bytes (res_buffer c)) of
      (Ok packet, b) \<Rightarrow> Some (deliver packet (c\<lparr>res_buffer := b\<rparr>))
    | (Err e, b) \<Rightarrow> Some (c\<lparr>res_buffer := b\<rparr>)
    | (Panic, _) \<Rightarrow> None
    | (Diverge, _) \<Rightarrow> None)"

subsection \<open>Interleaving\<close>

datatype client_action =
    Start nat string query_type "string \<times> u16" bool
  | Reset nat
  | Submit nat
  | Write "error_kind option"
  | Receive "u8 list"
  | SocketError
  | Return nat
  | Expire nat

inductive client_step :: "(string \<Rightarrow> string) \<Rightarrow> network_client \<Rightarrow> client_action \<Rightarrow> network_client \<Rightarrow> bool" for lc where
  start: "calls c i = None \<Longrightarrow>
    client_step lc c (Start i qname qtype server rec) (start_query i qname qtype server rec c)"
| reset: "calls c i = Some q \<Longrightarrow> c_phase q = Numbered \<Longrightarrow> client_step lc c (Reset i) (reset_seq i (c_request q) c)"
| submit: "calls c i = Some q \<Longrightarrow> c_phase q = Prepared \<Longrightarrow> length (requests c) < REQUEST_CAP \<Longrightarrow>
    client_step lc c (Submit i) (submit i (c_request q) c)"
| written: "write_request err c = Some c' \<Longrightarrow> client_step lc c (Write err) c'"
| receive: "read_reply lc bytes c = Some c' \<Longrightarrow> client_step lc c (Receive bytes) c'"
| socket_error: "client_step lc c SocketError (restart c)"
| answered: "calls c i = Some q \<Longrightarrow> c_phase q = Answered packet \<Longrightarrow>
    client_step lc c (Return i) (query_answered i packet c)"
| dropped: "calls c i = Some q \<Longrightarrow> c_phase q = Dropped \<Longrightarrow>
    client_step lc c (Return i) (query_failed i InvalidInput c)"
| expired: "calls c i = Some q \<Longrightarrow> c_phase q = Asked \<Longrightarrow>
    client_step lc c (Expire i) (query_failed i TimedOut c)"

inductive client_run :: "(string \<Rightarrow> string) \<Rightarrow> client_action list \<Rightarrow> network_client \<Rightarrow> bool" for lc where
  init: "client_run lc [] DnsNetworkClient_new"
| step: "client_run lc as c \<Longrightarrow> client_step lc c a c' \<Longrightarrow> client_run lc (as @ [a]) c'"

subsection \<open>Invariant\<close>

definition query_id :: "query_call \<Rightarrow> u16" where
  "query_id q = h_id (header (rq_packet (c_request q)))"

text \<open>What a call may have got: an answer has the id of its query, and a returned one is whole.\<close>

fun phase_ok :: "u16 \<Rightarrow> phase \<Rightarrow> bool" where
  "phase_ok k (Answered p) = (h_id (header p) = k)"
| "phase_ok k (Finished (Ok p)) = (h_id (header p) = k \<and> \<not> truncated_message (header p))"
| "phase_ok k _ = True"

definition calls_ok :: "network_client \<Rightarrow> bool" where
  "calls_ok c \<longleftrightarrow> (\<forall>i q. calls c i = Some q \<longrightarrow> rq_resp (c_request q) = i \<and> phase_ok (query_id q) (c_phase q))"

definition pending_ok :: "network_client \<Rightarrow> bool" where
  "pending_ok c \<longleftrightarrow> (\<forall>(k, i) \<in> set (req_resp_map c). \<exists>q. calls c i = Some q \<and> query_id q = k)"

definition requests_ok :: "network_client \<Rightarrow> bool" where
  "requests_ok c \<longleftrightarrow> length (requests c) \<le> REQUEST_CAP \<and>
     (\<forall>rq \<in> set (requests c). \<exists>q. calls c (rq_resp rq) = Some q \<and> c_request q = rq)"

definition client_inv :: "network_client \<Rightarrow> bool" where
  "client_inv c \<longleftrightarrow> calls_ok c \<and> pending_ok c \<and> requests_ok c"

text \<open>Changing phases keeps the requests; \<open>same_calls\<close> is all the table and the queue rely on.\<close>

definition same_calls :: "network_client \<Rightarrow> network_client \<Rightarrow> bool" where
  "same_calls c c' \<longleftrightarrow> (\<forall>i. map_option c_request (calls c' i) = map_option c_request (calls c i))"

lemma same_calls_refl [simp]: "same_calls c c"
  by (simp add: same_calls_def)

lemma same_calls_trans: "same_calls c d \<Longrightarrow> same_calls d e \<Longrightarrow> same_calls c e"
  by (simp add: same_calls_def)

lemma same_calls_Some: "same_calls c c' \<Longrightarrow> calls c i = Some q \<Longrightarrow>
    \<exists>q'. calls c' i = Some q' \<and> c_request q' = c_request q \<and> query_id q' = query_id q"
  unfolding same_calls_def query_id_def by (metis map_option_eq_Some)

lemma pending_ok_same: "same_calls c c' \<Longrightarrow> set (req_resp_map c') \<subseteq> set (req_resp_map c) \<Longrightarrow> pending_ok c \<Longrightarrow> pending_ok c'"
  unfolding pending_ok_def by (fast dest: same_calls_Some)

lemma requests_ok_same: "same_calls c c' \<Longrightarrow> requests c' = requests c \<Longrightarrow> requests_ok c \<Longrightarrow> requests_ok c'"
  unfolding requests_ok_def by (metis same_calls_Some)

lemma set_phase_fields [simp]:
  "requests (set_phase i ph c) = requests c" "req_resp_map (set_phase i ph c) = req_resp_map c"
  "seq (set_phase i ph c) = seq c"
  by (simp_all add: set_phase_def)

lemma set_phase_same [simp]: "same_calls c (set_phase i ph c)"
  by (auto simp: same_calls_def set_phase_def option.map_comp comp_def)

lemma set_phase_calls_ok:
  "calls_ok c \<Longrightarrow> (\<And>q. calls c i = Some q \<Longrightarrow> phase_ok (query_id q) ph) \<Longrightarrow> calls_ok (set_phase i ph c)"
  by (auto simp: calls_ok_def set_phase_def query_id_def split: if_splits)

lemma drop_resp_keeps:
  "same_calls c (drop_resp i c)" "requests (drop_resp i c) = requests c" "req_resp_map (drop_resp i c) = req_resp_map c"
  "calls_ok c \<Longrightarrow> calls_ok (drop_resp i c)"
  by (auto simp: drop_resp_def set_phase_calls_ok split: option.splits)

lemma drop_all_keeps:
  "same_calls c (fold drop_resp is c) \<and> requests (fold drop_resp is c) = requests c \<and>
   req_resp_map (fold drop_resp is c) = req_resp_map c \<and> (calls_ok c \<longrightarrow> calls_ok (fold drop_resp is c))"
proof (induction "is" arbitrary: c)
  case (Cons i "is")
  from Cons.IH [of "drop_resp i c"] show ?case
    using same_calls_trans [OF drop_resp_keeps(1)] by (auto simp: drop_resp_keeps)
qed simp

lemma same_calls_fields:
  "calls c' = calls c \<Longrightarrow> same_calls c c'" "calls c' = calls c \<Longrightarrow> calls_ok c' = calls_ok c"
  by (simp_all add: same_calls_def calls_ok_def)

lemma client_inv_same:
  assumes "client_inv c" "same_calls c c'" "calls_ok c'" "set (req_resp_map c') \<subseteq> set (req_resp_map c)"
    "requests c' = requests c"
  shows "client_inv c'"
  using assms pending_ok_same requests_ok_same unfolding client_inv_def by blast

lemma set_phase_inv:
  "client_inv c \<Longrightarrow> (\<And>q. calls c i = Some q \<Longrightarrow> phase_ok (query_id q) ph) \<Longrightarrow> client_inv (set_phase i ph c)"
  by (rule client_inv_same) (auto simp: client_inv_def intro: set_phase_calls_ok)

lemma drop_resp_inv: "client_inv c \<Longrightarrow> client_inv (drop_resp i c)"
  by (rule client_inv_same) (auto simp: client_inv_def drop_resp_keeps)

lemma client_inv_fields:
  "client_inv c \<Longrightarrow> calls c' = calls c \<Longrightarrow> set (req_resp_map c') \<subseteq> set (req_resp_map c) \<Longrightarrow> requests c' = requests c \<Longrightarrow>
     client_inv c'"
  using client_inv_same [of c c'] same_calls_fields [of c' c] by (simp add: client_inv_def)

lemma restart_inv: "client_inv c \<Longrightarrow> client_inv (restart c)"
proof -
  assume inv: "client_inv c"
  let ?c = "c\<lparr>req_resp_map := [], req_buffer := BytePacketBuffer_new, res_buffer := BytePacketBuffer_new\<rparr>"
  have "client_inv ?c" using inv by (rule client_inv_fields) simp_all
  then have "client_inv (fold drop_resp is ?c)" for "is"
    by (rule client_inv_same) (use \<open>client_inv ?c\<close> drop_all_keeps [of ?c "is"] in \<open>auto simp: client_inv_def\<close>)
  then show ?thesis by (simp add: restart_def)
qed

lemma enter_query_inv:
  assumes "client_inv c" "calls c i = Some q" "query_id q = qid"
  shows "client_inv (enter_query qid i c)"
proof -
  have add: "client_inv (d\<lparr>req_resp_map := (qid, i) # filter (\<lambda>(k, _). k \<noteq> qid) (req_resp_map d)\<rparr>)"
    if "client_inv d" "same_calls c d" for d
    using that same_calls_Some [OF that(2) assms(2)] assms(3)
    by (auto simp: client_inv_def calls_ok_def pending_ok_def requests_ok_def)
  show ?thesis
    using add [OF assms(1)] add [OF drop_resp_inv [OF assms(1)] drop_resp_keeps(1)]
    by (auto simp: enter_query_def Let_def split: option.splits)
qed

lemma fit_records_id: "fit_records p m i sz h rs b = (Ok (n, h'), b') \<Longrightarrow> h_id h' = h_id h"
proof (induction rs arbitrary: i sz h b)
  case (Cons r rs)
  then obtain k b1 where "(if sz + k > m then return (i, h\<lparr>truncated_message := True\<rparr>)
      else fit_records p m (i + 1) (sz + k) (count_record p i h) rs) b1 = (Ok (n, h'), b')"
    by (auto simp: bind_eq_Ok)
  with Cons.IH [of "i + 1" "sz + k" "count_record p i h" b1] show ?case
    by (auto simp: count_record_def split: if_splits)
qed simp

lemma packet_write_id: "DnsPacket_write ops p m b = (Ok q, b') \<Longrightarrow> h_id (header q) = h_id (header p)"
  by (auto simp: DnsPacket_write_def packet_plan_def bind_eq_Ok return_def Let_def dest: fit_records_id
      split: prod.splits outcome.splits)

lemma write_request_inv: "client_inv c \<Longrightarrow> write_request err c = Some c' \<Longrightarrow> client_inv c'"
proof -
  assume inv: "client_inv c" and w: "write_request err c = Some c'"
  then obtain rq rest where rq: "requests c = rq # rest" by (auto simp: write_request_def split: list.splits)
  let ?c = "c\<lparr>requests := rest\<rparr>"
  have inv': "client_inv ?c"
    using inv rq by (auto simp: client_inv_def calls_ok_def pending_ok_def requests_ok_def)
  obtain q where q: "calls c (rq_resp rq) = Some q" "c_request q = rq"
    using inv rq by (auto simp: client_inv_def requests_ok_def)
  have "client_inv (enter_query (h_id (header p)) (rq_resp rq) (?c\<lparr>req_buffer := b, datagrams := ds\<rparr>))"
    if "DnsPacket_write byte_ops (rq_packet rq) 512 b0 = (Ok p, b)" for p b b0 ds
    by (rule enter_query_inv [of _ _ q]) (use client_inv_fields [OF inv'] q packet_write_id [OF that] in \<open>simp_all add: query_id_def\<close>)
  then show ?thesis
    using w rq drop_resp_inv [OF restart_inv [OF inv']]
    by (auto simp: write_request_def Let_def split: prod.splits outcome.splits option.splits)
qed

lemma deliver_inv: "client_inv c \<Longrightarrow> client_inv (deliver packet c)"
proof (cases "map_of (req_resp_map c) (h_id (header packet))")
  case (Some i)
  assume inv: "client_inv c"
  let ?c = "c\<lparr>req_resp_map := filter (\<lambda>(k, _). k \<noteq> h_id (header packet)) (req_resp_map c)\<rparr>"
  have "client_inv ?c" using inv by (rule client_inv_fields) auto
  moreover obtain q where "calls c i = Some q" "query_id q = h_id (header packet)"
    using inv map_of_SomeD [OF Some] by (auto simp: client_inv_def pending_ok_def)
  ultimately show ?thesis using Some by (auto simp: deliver_def Let_def intro!: set_phase_inv)
qed (simp add: deliver_def)

lemma read_reply_inv: "client_inv c \<Longrightarrow> read_reply lc bytes c = Some c' \<Longrightarrow> client_inv c'"
  by (auto simp: read_reply_def split: prod.splits outcome.splits intro!: deliver_inv elim!: client_inv_fields)

lemma new_call_inv:
  assumes "client_inv c" "calls c i = None" "rq_resp (c_request q) = i" "c_phase q = Numbered"
    and "calls c' = (calls c)(i \<mapsto> q)" "req_resp_map c' = req_resp_map c" "requests c' = requests c"
  shows "client_inv c'"
proof -
  have keep: "calls c' j = Some r" if "calls c j = Some r" for j r using that assms(2,5) by auto
  have "calls_ok c'" using assms by (auto simp: client_inv_def calls_ok_def)
  moreover have "pending_ok c'" using assms(1,6) keep by (fastforce simp: client_inv_def pending_ok_def)
  moreover have "requests_ok c'" using assms(1,7) keep by (fastforce simp: client_inv_def requests_ok_def)
  ultimately show ?thesis by (simp add: client_inv_def)
qed

lemma client_step_inv: "client_step lc c a c' \<Longrightarrow> client_inv c \<Longrightarrow> client_inv c'"
proof (induction rule: client_step.induct)
  case (start c i qname qtype server rec)
  then show ?case
    by (elim new_call_inv [where i = i]) (simp_all add: start_query_def Let_def)
next
  case (reset c i q)
  let ?c = "if h_id (header (rq_packet (c_request q))) + 1 = 0xFFFF \<and> seq c = 0xFFFF then c\<lparr>seq := 0\<rparr> else c"
  have "client_inv ?c" using reset.prems by (rule client_inv_fields) auto
  then show ?case unfolding reset_seq_def by (intro set_phase_inv) simp_all
next
  case (submit c i q)
  then have "client_inv (c\<lparr>requests := requests c @ [c_request q]\<rparr>)"
    by (auto simp: client_inv_def calls_ok_def pending_ok_def requests_ok_def)
  then show ?case unfolding submit_def by (intro set_phase_inv) simp_all
next
  case (answered c i q packet)
  then have "h_id (header packet) = query_id q" by (metis calls_ok_def client_inv_def phase_ok.simps(1))
  with answered show ?case unfolding query_answered_def by (intro set_phase_inv) auto
next
  case (dropped c i q)
  have "client_inv (c\<lparr>total_failed := total_failed c + 1\<rparr>)" using dropped.prems by (rule client_inv_fields) simp_all
  then show ?case unfolding query_failed_def by (intro set_phase_inv) simp_all
next
  case (expired c i q)
  have "client_inv (c\<lparr>total_failed := total_failed c + 1\<rparr>)" using expired.prems by (rule client_inv_fields) simp_all
  then show ?case unfolding query_failed_def by (intro set_phase_inv) simp_all
next
  case (written err c c')
  then show ?case by (rule write_request_inv [rotated])
next
  case (receive bytes c c')
  then show ?case by (rule read_reply_inv [rotated])
next
  case (socket_error c)
  then show ?case by (rule restart_inv)
qed

lemma client_run_inv: "client_run lc as c \<Longrightarrow> client_inv c"
proof (induction rule: client_run.induct)
  case init
  show ?case
    by (simp add: client_inv_def calls_ok_def pending_ok_def requests_ok_def DnsNetworkClient_new_def)
qed (rule client_step_inv)

subsection \<open>Where answers come from\<close>

definition has_answer :: "network_client \<Rightarrow> dns_packet \<Rightarrow> bool" where
  "has_answer c p \<longleftrightarrow> (\<exists>i q. calls c i = Some q \<and> (c_phase q = Answered p \<or> c_phase q = Finished (Ok p)))"

lemma has_answer_upd [simp]:
  "has_answer (c\<lparr>requests := rs\<rparr>) p = has_answer c p" "has_answer (c\<lparr>req_resp_map := m\<rparr>) p = has_answer c p"
  "has_answer (c\<lparr>req_buffer := b\<rparr>) p = has_answer c p" "has_answer (c\<lparr>res_buffer := b\<rparr>) p = has_answer c p"
  "has_answer (c\<lparr>datagrams := ds\<rparr>) p = has_answer c p" "has_answer (c\<lparr>seq := n\<rparr>) p = has_answer c p"
  "has_answer (c\<lparr>total_failed := n\<rparr>) p = has_answer c p"
  by (simp_all add: has_answer_def)

lemma set_phase_answer:
  "has_answer (set_phase i ph c) p \<Longrightarrow> has_answer c p \<or> ph = Answered p \<or> ph = Finished (Ok p)"
  unfolding has_answer_def set_phase_def by (auto split: if_splits)

lemma drop_resp_answer: "has_answer (drop_resp i c) p \<Longrightarrow> has_answer c p"
  by (auto simp: drop_resp_def dest: set_phase_answer split: option.splits if_splits)

lemma restart_answer: "has_answer (restart c) p \<Longrightarrow> has_answer c p"
proof -
  have "has_answer (fold drop_resp is d) p \<Longrightarrow> has_answer d p" for "is" d
    by (induction "is" arbitrary: d) (auto dest: drop_resp_answer)
  then show "has_answer (restart c) p \<Longrightarrow> has_answer c p"
    unfolding restart_def by fastforce
qed

lemma enter_query_answer: "has_answer (enter_query k i c) p \<Longrightarrow> has_answer c p"
  by (auto simp: enter_query_def Let_def dest: drop_resp_answer split: option.splits)

lemma write_request_answer: "write_request err c = Some c' \<Longrightarrow> has_answer c' p \<Longrightarrow> has_answer c p"
  by (auto simp: write_request_def Let_def split: list.splits prod.splits outcome.splits option.splits
      dest!: enter_query_answer drop_resp_answer restart_answer)

lemma deliver_answer: "has_answer (deliver packet c) p \<Longrightarrow> has_answer c p \<or> p = packet"
  by (auto simp: deliver_def Let_def dest: set_phase_answer split: option.splits if_splits)

lemma read_reply_answer:
  assumes "read_reply lc bytes c = Some c'" "has_answer c' p"
  shows "has_answer c p \<or> (\<exists>b. fst (from_buffer byte_ops lc (overwrite bytes b)) = Ok p)"
  using assms by (auto simp: read_reply_def dest!: deliver_answer split: prod.splits outcome.splits)
    (metis fst_conv)+

lemma client_step_answer:
  assumes "client_step lc c a c'" "has_answer c' p"
  shows "has_answer c p \<or> (\<exists>bytes b. a = Receive bytes \<and> fst (from_buffer byte_ops lc (overwrite bytes b)) = Ok p)"
  using assms
proof (cases rule: client_step.cases)
  case (start i qname qtype server rec)
  with assms(2) show ?thesis by (auto simp: has_answer_def start_query_def Let_def split: if_splits)
next
  case (reset i q)
  with assms(2) show ?thesis
    by (auto simp: reset_seq_def dest!: set_phase_answer split: if_splits)
next
  case (submit i q)
  with assms(2) show ?thesis by (auto simp: submit_def dest!: set_phase_answer)
next
  case (answered i q packet)
  then have "has_answer c packet" by (auto simp: has_answer_def)
  with answered assms(2) show ?thesis by (auto simp: query_answered_def dest!: set_phase_answer split: if_splits)
next
  case (dropped i q)
  with assms(2) show ?thesis by (auto simp: query_failed_def dest!: set_phase_answer)
next
  case (expired i q)
  with assms(2) show ?thesis by (auto simp: query_failed_def dest!: set_phase_answer)
qed (use assms(2) in \<open>auto dest: write_request_answer read_reply_answer restart_answer\<close>)

lemma client_run_answer:
  "client_run lc as c \<Longrightarrow> has_answer c p \<Longrightarrow>
     \<exists>bytes b. Receive bytes \<in> set as \<and> fst (from_buffer byte_ops lc (overwrite bytes b)) = Ok p"
proof (induction rule: client_run.induct)
  case init
  then show ?case by (simp add: has_answer_def DnsNetworkClient_new_def)
next
  case (step as c a c')
  from client_step_answer [OF step.hyps(2) step.prems] step.IH show ?case by fastforce
qed

subsection \<open>One exchange\<close>

lemma sent_query: "sent (query_packet k d t r) 0 = query_packet k d t r"
  by (simp add: sent_def planned_def query_packet_def DnsPacket_new_def all_records_def)

lemma query_packet_readable:
  assumes "readable_name d" "from_num (to_num t) = t" "wire_len d < 496"
  shows "readable_packet (query_packet k d t r)" "uncounted (query_packet k d t r)"
    "packet_max (query_packet k d t r) < 512" "all_records (query_packet k d t r) = []"
  using assms by (simp_all add: readable_packet_def query_packet_def DnsPacket_new_def DnsHeader_new_def readable_question_def
      DnsQuestion_new_def all_records_def uncounted_def packet_max_def question_max_def)

lemma write_request_sends:
  assumes "ascii_lowercase lc" "requests c = rq # rest" "rq_packet rq = query_packet k d t r"
    "readable_name d" "from_num (to_num t) = t" "wire_len d < 496" "byte_wf (req_buffer c)"
  shows "\<exists>b. write_request None c = Some (enter_query k (rq_resp rq) (c\<lparr>requests := rest, req_buffer := b,
      datagrams := datagrams c @ [(byte_written b, rq_server rq)]\<rparr>)) \<and> byte_wf b \<and>
    length (byte_written b) < 512 \<and>
    (\<forall>xs. length (byte_written b @ xs) = 512 \<longrightarrow>
      fst (from_buffer byte_ops lc \<lparr>buf = byte_written b @ xs, bpos = 0\<rparr>) = Ok (query_packet k d t r))"
proof -
  note q = query_packet_readable [OF assms(4-6), of k r]
  have "byte_wf ((req_buffer c)\<lparr>bpos := 0\<rparr>)" using assms(7) by (simp add: byte_wf_def)
  from query_written [OF assms(1) q(1,2,3) less_imp_le [OF q(3)] this] obtain b where
    "DnsPacket_write byte_ops (query_packet k d t r) 512 ((req_buffer c)\<lparr>bpos := 0\<rparr>) = (Ok (query_packet k d t r), b)"
    "byte_wf b" "length (byte_written b) < 512"
    "\<forall>xs. length (byte_written b @ xs) = 512 \<longrightarrow>
      fst (from_buffer byte_ops lc \<lparr>buf = byte_written b @ xs, bpos = 0\<rparr>) = Ok (query_packet k d t r)"
    by (auto simp: q(4) sent_query)
  moreover have "h_id (header (query_packet k d t r)) = k" by (simp add: query_packet_def)
  ultimately show ?thesis using assms(2,3) by (auto simp: write_request_def)
qed

lemma enter_query_pending:
  assumes "calls c i = Some q" "c_phase q = Asked" "req_resp_map c = [] \<or> map_of (req_resp_map c) k = None"
  shows "map_of (req_resp_map (enter_query k i c)) k = Some i" "calls (enter_query k i c) = calls c"
    "res_buffer (enter_query k i c) = res_buffer c"
  using assms by (auto simp: enter_query_def)

lemma deliver_pending:
  assumes "map_of (req_resp_map c) (h_id (header p)) = Some i" "calls c i = Some q" "c_phase q = Asked"
  shows "calls (deliver p c) = (calls c)(i \<mapsto> q\<lparr>c_phase := Answered p\<rparr>)"
  using assms by (simp add: deliver_def Let_def set_phase_def)

lemma overwrite_buf:
  "length bytes \<le> 512 \<Longrightarrow> byte_wf b \<Longrightarrow>
     \<exists>xs. overwrite bytes b = \<lparr>buf = bytes @ xs, bpos = 0\<rparr> \<and> length (bytes @ xs) = 512"
  by (auto simp: overwrite_def byte_wf_def)

lemma exchange:
  assumes "fst (from_buffer byte_ops lc (overwrite bytes (res_buffer c))) = Ok p"
    and "map_of (req_resp_map c) (h_id (header p)) = Some i" "calls c i = Some q" "c_phase q = Asked"
    and "\<not> truncated_message (header p)"
  shows "\<exists>c1 c2. client_step lc c (Receive bytes) c1 \<and> client_step lc c1 (Return i) c2 \<and>
    calls c2 = (calls c)(i \<mapsto> q\<lparr>c_phase := Finished (Ok p)\<rparr>)"
proof -
  obtain b where b: "from_buffer byte_ops lc (overwrite bytes (res_buffer c)) = (Ok p, b)"
    using assms(1) by (cases "from_buffer byte_ops lc (overwrite bytes (res_buffer c))") auto
  let ?c1 = "deliver p (c\<lparr>res_buffer := b\<rparr>)"
  have c1: "calls ?c1 = (calls c)(i \<mapsto> q\<lparr>c_phase := Answered p\<rparr>)"
    using deliver_pending [of "c\<lparr>res_buffer := b\<rparr>" p i q] assms(2-4) by simp
  have "client_step lc c (Receive bytes) ?c1" using b by (intro receive) (simp add: read_reply_def)
  moreover have "client_step lc ?c1 (Return i) (query_answered i p ?c1)"
    by (rule answered [where q = "q\<lparr>c_phase := Answered p\<rparr>"]) (simp_all add: c1)
  moreover have "calls (query_answered i p ?c1) = (calls c)(i \<mapsto> q\<lparr>c_phase := Finished (Ok p)\<rparr>)"
    using assms(5) by (simp add: query_answered_def set_phase_def c1)
  ultimately show ?thesis by blast
qed

text \<open>C30: however queries, replies, errors and timeouts interleave, a query that returns a packet
  returns one that was parsed from a datagram received from the network, has the id the query was
  sent with and is not truncated.\<close>

theorem dns_reply_matches:
  assumes "client_run lc as c" "calls c i = Some q" "c_phase q = Finished (Ok p)"
  shows "h_id (header p) = query_id q \<and> \<not> truncated_message (header p) \<and>
    (\<exists>bytes b. Receive bytes \<in> set as \<and> fst (from_buffer byte_ops lc (overwrite bytes b)) = Ok p)"
proof -
  have "phase_ok (query_id q) (c_phase q)"
    using client_run_inv [OF assms(1)] assms(2) by (simp add: client_inv_def calls_ok_def)
  moreover have "has_answer c p" using assms(2,3) by (auto simp: has_answer_def)
  ultimately show ?thesis using client_run_answer [OF assms(1)] assms(3) by simp
qed

text \<open>A client whose first call asks for \<^verbatim>\<open>a.b\<close> and is answered.\<close>

lemma first_query:
  assumes "readable_name d" "from_num (to_num t) = t" "wire_len d < 496"
  shows "\<exists>c q. client_run (map ascii_lower) [Start 0 d t srv r, Reset 0, Submit 0, Write None] c \<and>
    map_of (req_resp_map c) 0 = Some 0 \<and> calls c 0 = Some q \<and> c_phase q = Asked \<and> query_id q = 0 \<and>
    res_buffer c = BytePacketBuffer_new"
proof -
  let ?lc = "map ascii_lower" and ?rq = "\<lparr>rq_packet = query_packet 0 d t r, rq_server = srv, rq_resp = 0\<rparr>"
  let ?q = "\<lambda>ph. \<lparr>c_request = ?rq, c_phase = ph\<rparr>"
  let ?c = "\<lambda>ph rs. DnsNetworkClient_new\<lparr>total_sent := 1, seq := 1, requests := rs, calls := [0 \<mapsto> ?q ph]\<rparr>"
  have s1: "client_step ?lc DnsNetworkClient_new (Start 0 d t srv r) (?c Numbered [])"
    using start [of DnsNetworkClient_new 0 ?lc d t srv r] by (simp add: start_query_def DnsNetworkClient_new_def)
  have s2: "client_step ?lc (?c Numbered []) (Reset 0) (?c Prepared [])"
    using reset [of "?c Numbered []" 0 "?q Numbered" ?lc] by (simp add: reset_seq_def set_phase_def query_packet_def)
  have s3: "client_step ?lc (?c Prepared []) (Submit 0) (?c Asked [?rq])"
    using submit [of "?c Prepared []" 0 "?q Prepared" ?lc] by (simp add: submit_def set_phase_def REQUEST_CAP_def)
  obtain b where s4: "write_request None (?c Asked [?rq]) = Some (enter_query 0 0 ((?c Asked [])\<lparr>req_buffer := b,
      datagrams := [(byte_written b, srv)]\<rparr>))"
    using write_request_sends [OF ascii_lowercase_map, of "?c Asked [?rq]" ?rq "[]" 0 d t r] assms byte_wf_new(1)
    by (auto simp: DnsNetworkClient_new_def)
  from client_run.step [OF client_run.step [OF client_run.step [OF client_run.step [OF client_run.init s1] s2] s3] written [OF s4]]
  have "client_run ?lc [Start 0 d t srv r, Reset 0, Submit 0, Write None]
      (enter_query 0 0 ((?c Asked [])\<lparr>req_buffer := b, datagrams := [(byte_written b, srv)]\<rparr>))"
    by simp
  then show ?thesis
    by - (rule exI, rule exI [of _ "?q Asked"], erule conjI, simp add: enter_query_def DnsNetworkClient_new_def query_id_def query_packet_def)
qed

definition sample_reply :: dns_packet where
  "sample_reply = DnsPacket_new\<lparr>header := DnsHeader_new\<lparr>response := True\<rparr>,
     questions := [DnsQuestion_new ''a.b'' QT_A], answers := [A ''a.b'' (Ipv4Addr 10 0 0 1) 1]\<rparr>"

theorem dns_reply_matches_witness:
  "\<exists>as c q p. client_run (map ascii_lower) as c \<and> calls c 0 = Some q \<and> c_phase q = Finished (Ok p) \<and>
     answers p = [A ''a.b'' (Ipv4Addr 10 0 0 1) 1] \<and> h_id (header p) = query_id q \<and> \<not> truncated_message (header p)"
proof -
  let ?lc = "map ascii_lower"
  have name: "readable_name ''a.b''" "from_num (to_num QT_A) = QT_A" "wire_len ''a.b'' < 496" by code_simp+
  obtain as c q where run: "client_run ?lc as c" and c: "map_of (req_resp_map c) 0 = Some 0" "calls c 0 = Some q"
      "c_phase q = Asked" "query_id q = 0" "res_buffer c = BytePacketBuffer_new"
    using first_query [OF name] by blast
  have r: "readable_packet sample_reply" "uncounted sample_reply" "packet_max sample_reply < 512" "packet_max sample_reply \<le> 512"
      "length (all_records sample_reply) = 1"
    by code_simp+
  obtain b :: vector_buffer where b: "length (vec b) < 512" "\<forall>rest. length (vec b @ rest) = 512 \<longrightarrow>
      fst (from_buffer byte_ops ?lc \<lparr>buf = vec b @ rest, bpos = 0\<rparr>) = Ok (sent sample_reply 1)"
    using reply_written_all [OF ascii_lowercase_map r(1,2,3,4)] unfolding r(5) by blast
  let ?p = "sent sample_reply 1"
  have p: "h_id (header ?p) = 0" "\<not> truncated_message (header ?p)" "answers ?p = [A ''a.b'' (Ipv4Addr 10 0 0 1) 1]"
    by code_simp+
  have "fst (from_buffer byte_ops ?lc (overwrite (vec b) (res_buffer c))) = Ok ?p"
    using overwrite_buf [of "vec b" "res_buffer c"] b c(5) byte_wf_new(1) by auto
  from exchange [OF this, of 0 q] c p(1,2) obtain c1 c2 where
    s: "client_step ?lc c (Receive (vec b)) c1" "client_step ?lc c1 (Return 0) c2"
      "calls c2 0 = Some (q\<lparr>c_phase := Finished (Ok ?p)\<rparr>)"
    by auto
  note run2 = client_run.step [OF client_run.step [OF run s(1)] s(2)]
  from dns_reply_matches [OF run2 s(3)] run2 s(3) p(3) show ?thesis by fastforce
qed

end
