(* ===== verification/Hosts_File.thy ===== *)
theory Hosts_File
  imports Rust_Std
begin

text \<open>
  The hosts file of \<^verbatim>\<open>hermes/hermesdns/src/hosts.rs\<close>.  White space is the ASCII white space of
  Unicode's \<^verbatim>\<open>White_Space\<close>; the model covers files of ASCII text.  The file itself is an
  argument: \<open>None\<close> when it cannot be opened or read.
\<close>

definition is_space :: "char \<Rightarrow> bool" where
  "is_space c \<longleftrightarrow> (let n = (of_char c :: nat) in n = 32 \<or> 9 \<le> n \<and> n \<le> 13)"

text \<open>\<^verbatim>\<open>str::lines\<close>: a carriage return before the line break and an empty last line are dropped.\<close>

definition strip_cr :: "string \<Rightarrow> string" where
  "strip_cr l = (if l \<noteq> [] \<and> last l = CHR 0x0D then butlast l else l)"

definition str_lines :: "string \<Rightarrow> string list" where
  "str_lines s = (let ls = split_on CHR 0x0A s in
     if last ls = [] then map strip_cr (butlast ls) else map strip_cr (butlast ls) @ [last ls])"

definition trim :: "string \<Rightarrow> string" where
  "trim s = rev (dropWhile is_space (rev (dropWhile is_space s)))"

fun split_whitespace :: "string \<Rightarrow> string list" where
  "split_whitespace [] = []"
| "split_whitespace (c # cs) =
     (if is_space c then split_whitespace cs
      else case cs of
        [] \<Rightarrow> [[c]]
      | d # _ \<Rightarrow> if is_space d then [c] # split_whitespace cs
                 else (case split_whitespace cs of [] \<Rightarrow> [[c]] | w # ws \<Rightarrow> (c # w) # ws))"

type_synonym hosts = "string \<rightharpoonup> ipv4"

definition line_entries :: "string \<Rightarrow> (string \<times> ipv4) list" where
  "line_entries line0 =
     (let line = trim line0 in
      if starts_with line ''#'' then []
      else let strip_comment = takeWhile (\<lambda>c. c \<noteq> CHR ''#'') line;
               segs = split_whitespace strip_comment in
        if length segs < 2 then []
        else case parse_ipv4 (segs ! 0) of
          Some ip \<Rightarrow> map (\<lambda>host. (host, ip)) (tl segs)
        | None \<Rightarrow> [])"

definition Hosts_parse :: "string \<Rightarrow> hosts" where
  "Hosts_parse content =
     fold (\<lambda>(host, ip) m. m(host \<mapsto> ip)) (concat (map line_entries (str_lines content))) Map.empty"

definition Hosts_load :: "string option \<Rightarrow> error_kind + hosts" where
  "Hosts_load file = (case file of Some content \<Rightarrow> Inr (Hosts_parse content) | None \<Rightarrow> Inl Other)"

definition Hosts_get :: "hosts \<Rightarrow> string \<Rightarrow> ipv4 option" where
  "Hosts_get h d = h d"

subsection \<open>Reading back a written hosts file\<close>

definition valid_host :: "string \<Rightarrow> bool" where
  "valid_host h \<longleftrightarrow> h \<noteq> [] \<and> (\<forall>c \<in> set h. \<not> is_space c \<and> c \<noteq> CHR ''#'')"

definition host_line :: "string \<times> ipv4 \<Rightarrow> string" where
  "host_line e = show_ipv4 (snd e) @ '' '' @ fst e"

definition print_hosts :: "(string \<times> ipv4) list \<Rightarrow> string" where
  "print_hosts es = concat (map (\<lambda>e. host_line e @ [CHR 0x0A]) es)"

lemma split_whitespace_word:
  "w \<noteq> [] \<Longrightarrow> \<forall>c \<in> set w. \<not> is_space c \<Longrightarrow> split_whitespace w = [w]"
proof (induction w)
  case (Cons c w)
  then show ?case by (cases w) auto
qed simp

lemma split_whitespace_cons:
  "w \<noteq> [] \<Longrightarrow> \<forall>c \<in> set w. \<not> is_space c \<Longrightarrow> is_space s \<Longrightarrow>
     split_whitespace (w @ s # rest) = w # split_whitespace rest"
proof (induction w)
  case (Cons c w)
  then show ?case by (cases w) auto
qed simp

lemma digit_not_space: "is_digit c \<Longrightarrow> \<not> is_space c \<and> c \<noteq> CHR ''#''"
  by (auto simp: is_digit_def is_space_def)

lemma show_ipv4_chars: "c \<in> set (show_ipv4 a) \<Longrightarrow> \<not> is_space c \<and> c \<noteq> CHR ''#''"
  using show_nat_digits digit_not_space
  by (cases a) (auto simp: show_ipv4_def list_all_iff is_space_def)

lemma show_ipv4_neq_Nil: "show_ipv4 a \<noteq> []"
  by (cases a) (simp add: show_ipv4_def)

lemma trim_id:
  assumes "w \<noteq> []" "\<not> is_space (hd w)" "\<not> is_space (last w)"
  shows "trim w = w"
proof -
  have "dropWhile is_space w = w" using assms by (cases w) auto
  moreover have "dropWhile is_space (rev w) = rev w" using assms by (cases w rule: rev_cases) auto
  ultimately show ?thesis by (simp add: trim_def)
qed

lemma host_line_chars:
  assumes "valid_host (fst e)"
  shows "hd (host_line e) \<in> set (show_ipv4 (snd e))" "last (host_line e) \<in> set (fst e)"
    "c \<in> set (host_line e) \<Longrightarrow> c \<noteq> CHR ''#'' \<and> (c = CHR '' '' \<or> \<not> is_space c)"
  using assms show_ipv4_neq_Nil [of "snd e"] show_ipv4_chars
  by (auto simp: host_line_def valid_host_def)

lemma line_entries_host_line:
  assumes "valid_host (fst e)"
  shows "line_entries (host_line e) = [e]"
proof -
  let ?ip = "show_ipv4 (snd e)" and ?l = "host_line e"
  note chars = host_line_chars [OF assms]
  have "trim ?l = ?l"
    using chars(1,2) assms show_ipv4_chars
    by (intro trim_id) (auto simp: host_line_def valid_host_def)
  moreover have "\<not> starts_with ?l ''#''"
    using show_ipv4_chars [of "hd ?ip" "snd e"] show_ipv4_neq_Nil [of "snd e"]
    by (cases "?ip") (simp_all add: starts_with_def host_line_def)
  moreover have "takeWhile (\<lambda>c. c \<noteq> CHR ''#'') ?l = ?l"
    using chars(3) by (simp add: takeWhile_eq_all_conv)
  moreover have "split_whitespace ?l = [?ip, fst e]"
    using assms show_ipv4_chars show_ipv4_neq_Nil
    by (simp add: host_line_def split_whitespace_cons split_whitespace_word valid_host_def is_space_def)
  ultimately show ?thesis
    by (simp add: line_entries_def Let_def del: takeWhile_eq_all_conv)
qed

lemma split_on_lines:
  assumes "\<forall>l \<in> set ls. CHR 0x0A \<notin> set l"
  shows "split_on CHR 0x0A (concat (map (\<lambda>l. l @ [CHR 0x0A]) ls)) = ls @ [[]]"
  using assms by (induction ls) (simp_all add: split_on_append_sep)

lemma str_lines_print:
  assumes "\<forall>e \<in> set es. valid_host (fst e)"
  shows "str_lines (print_hosts es) = map host_line es"
proof -
  have "\<forall>l \<in> set (map host_line es). CHR 0x0A \<notin> set l"
    using assms host_line_chars(3) by (fastforce simp: is_space_def)
  from split_on_lines [OF this] have "split_on CHR 0x0A (print_hosts es) = map host_line es @ [[]]"
    by (simp add: print_hosts_def comp_def)
  moreover have "strip_cr (host_line e) = host_line e" if "e \<in> set es" for e
  proof -
    have "\<not> is_space (last (host_line e))"
      using assms that host_line_chars(2) [of e] by (simp add: valid_host_def)
    then have "last (host_line e) \<noteq> CHR 0x0D" by (auto simp: is_space_def)
    then show ?thesis by (simp add: strip_cr_def)
  qed
  ultimately show ?thesis by (simp add: str_lines_def)
qed

lemma fold_map_upd: "fold (\<lambda>(k, v) m. m(k \<mapsto> v)) es m = m ++ map_of (rev es)"
  by (induction es arbitrary: m) (auto simp: map_add_assoc [symmetric])

text \<open>A hosts file with one address and one name per line is read as exactly that table, a later
  line overriding an earlier one for the same name.\<close>

lemma hosts_round_trip:
  assumes "\<forall>e \<in> set es. valid_host (fst e)"
  shows "Hosts_get (Hosts_parse (print_hosts es)) = map_of (rev es)"
proof -
  have "concat (map line_entries (map host_line es)) = es"
    using assms by (induction es) (simp_all add: line_entries_host_line)
  then show ?thesis
    using str_lines_print [OF assms]
    by (simp add: Hosts_parse_def Hosts_get_def fold_map_upd fun_eq_iff)
qed

lemma hosts_round_trip_instance:
  "Hosts_get (Hosts_parse (print_hosts [(''devdb'', Ipv4Addr 127 0 0 1), (''devdb'', Ipv4Addr 10 0 0 2)])) ''devdb''
     = Some (Ipv4Addr 10 0 0 2)"
  using hosts_round_trip [of "[(''devdb'', Ipv4Addr 127 0 0 1), (''devdb'', Ipv4Addr 10 0 0 2)]"]
  by (simp add: valid_host_def is_space_def)

end
