(* ===== verification/Fake_Ip.thy ===== *)
theory Fake_Ip
  imports Hosts_File Dns_Protocol
begin

text \<open>
  The resolver of \<^verbatim>\<open>dnsserver/src/resolver.rs\<close>, which hands out addresses of the TUN network for
  domain names and remembers which name an address stands for.

  The database (\<^verbatim>\<open>sled::Db\<close>, a third-party crate) is an argument: a record of its operations on a
  state \<open>'d\<close>, keys and values being byte strings.  \<open>kv_laws\<close> states what the resolver relies on:
  no operation fails, a key holds what was last inserted under it, and a cleared database is
  empty.
\<close>

record 'd kv =
  kv_get :: "'d \<Rightarrow> u8 list \<Rightarrow> error_kind + u8 list option"
  kv_insert :: "u8 list \<Rightarrow> u8 list \<Rightarrow> 'd \<Rightarrow> (error_kind + unit) \<times> 'd"
  kv_clear :: "'d \<Rightarrow> (error_kind + unit) \<times> 'd"

definition kv_laws :: "'d kv \<Rightarrow> bool" where
  "kv_laws kv \<longleftrightarrow>
     (\<forall>d k. \<exists>v. kv_get kv d k = Inr v) \<and>
     (\<forall>k v d. fst (kv_insert kv k v d) = Inr () \<and>
        (\<forall>k'. kv_get kv (snd (kv_insert kv k v d)) k' = (if k' = k then Inr (Some v) else kv_get kv d k'))) \<and>
     (\<forall>d. fst (kv_clear kv d) = Inr () \<and> (\<forall>k. kv_get kv (snd (kv_clear kv d)) k = Inr None))"

record 'd inner =
  db :: 'd
  next_ip :: u32
  inner_hosts :: hosts

definition NEXT_IP :: "u8 list" where
  "NEXT_IP = as_bytes ''next_ip''"

subsection \<open>Operations\<close>

definition db_get :: "'d kv \<Rightarrow> u8 list \<Rightarrow> ('d inner, u8 list option) rust" where
  "db_get kv k = (\<lambda>s. case kv_get kv (db s) k of Inr v \<Rightarrow> (Ok v, s) | Inl _ \<Rightarrow> (Panic, s))"

definition db_insert :: "'d kv \<Rightarrow> u8 list \<Rightarrow> u8 list \<Rightarrow> ('d inner, unit) rust" where
  "db_insert kv k v = (\<lambda>s. case kv_insert kv k v (db s) of
     (Inr _, d) \<Rightarrow> (Ok (), s\<lparr>db := d\<rparr>) | (Inl _, d) \<Rightarrow> (Panic, s\<lparr>db := d\<rparr>))"

text \<open>\<open>file\<close> is the contents of \<^verbatim>\<open>/etc/hosts\<close>.  Copying a stored value that is not four bytes long
  panics.\<close>

definition Inner_new :: "'d kv \<Rightarrow> 'd \<Rightarrow> string option \<Rightarrow> u32 \<Rightarrow> 'd inner outcome" where
  "Inner_new kv d file start =
     (let opened = (case kv_get kv d NEXT_IP of
          Inr (Some v) \<Rightarrow>
            (case v of [a, b, c, e] \<Rightarrow> Ok (d, join32 a b c e) | _ \<Rightarrow> Panic)
        | _ \<Rightarrow> (case kv_clear kv d of (Inr _, d') \<Rightarrow> Ok (d', start) | (Inl _, _) \<Rightarrow> Panic)) in
      case opened of
        Ok (d', ip) \<Rightarrow>
          (case Hosts_load file of
             Inr h \<Rightarrow> Ok \<lparr>db = d', next_ip = ip, inner_hosts = h\<rparr>
           | Inl _ \<Rightarrow> Panic)
      | Err e \<Rightarrow> Err e
      | Panic \<Rightarrow> Panic
      | Diverge \<Rightarrow> Diverge)"

definition lookup_host :: "'d kv \<Rightarrow> string \<Rightarrow> ('d inner, string option) rust" where
  "lookup_host kv addr =
     bind (db_get kv (as_bytes addr)) (\<lambda>r. case r of
       None \<Rightarrow> return None
     | Some host \<Rightarrow>
         (case from_utf8 host of Some h \<Rightarrow> return (Some h) | None \<Rightarrow> panic))"

definition ip_of_u32 :: "u32 \<Rightarrow> ipv4" where
  "ip_of_u32 n = (case u32_to_be_bytes n of
     [a, b, c, d] \<Rightarrow> Ipv4Addr a b c d | _ \<Rightarrow> Ipv4Addr 0 0 0 0)"

definition gen_ipaddr :: "('d inner, string) rust" where
  "gen_ipaddr = (\<lambda>s. (Ok (show_ipv4 (ip_of_u32 (next_ip s))), s\<lparr>next_ip := next_ip s + 1\<rparr>))"

definition allocate :: "'d kv \<Rightarrow> string \<Rightarrow> ('d inner, string) rust" where
  "allocate kv d =
     bind gen_ipaddr (\<lambda>ip.
     andthen (\<lambda>s. db_insert kv NEXT_IP (u32_to_be_bytes (next_ip s)) s)
    (andthen (db_insert kv (as_bytes d) (as_bytes ip))
    (andthen (db_insert kv (as_bytes ip) (as_bytes d))
             (return ip))))"

definition inner_ip :: "'d kv \<Rightarrow> string \<Rightarrow> ('d inner, string) rust" where
  "inner_ip kv d = (\<lambda>s.
     case Hosts_get (inner_hosts s) d of
       Some ip \<Rightarrow> (Ok (show_ipv4 ip), s)
     | None \<Rightarrow>
         bind (db_get kv (as_bytes d)) (\<lambda>r. case r of
           Some addr \<Rightarrow> (case from_utf8 addr of Some ip \<Rightarrow> return ip | None \<Rightarrow> panic)
         | None \<Rightarrow> allocate kv d) s)"

definition inner_resolve :: "'d kv \<Rightarrow> string \<Rightarrow> ('d inner, dns_packet) rust" where
  "inner_resolve kv d =
     bind (inner_ip kv d) (\<lambda>ip. case parse_ipv4 ip of
       Some addr \<Rightarrow> return (DnsPacket_new\<lparr>answers := [A d addr 1]\<rparr>)
     | None \<Rightarrow> panic)"

text \<open>The trait method ignores the query type and the recursion flag.\<close>

definition fake_resolve :: "'d kv \<Rightarrow> string \<Rightarrow> query_type \<Rightarrow> bool \<Rightarrow> ('d inner, dns_packet) rust" where
  "fake_resolve kv d qtype recursive = inner_resolve kv d"

subsection \<open>What the database holds\<close>

text \<open>The names that were given addresses, in order, determine the whole database: the name at
  position \<open>i\<close> has the address \<open>start + i\<close>.  A name that looks like an address, or is the key of
  the counter, would overwrite another entry.\<close>

definition plain_domain :: "string \<Rightarrow> bool" where
  "plain_domain d \<longleftrightarrow> d \<noteq> ''next_ip'' \<and> parse_ipv4 d = None \<and> utf8_valid (as_bytes d)"

definition addr_at :: "u32 \<Rightarrow> nat \<Rightarrow> string" where
  "addr_at start i = show_ipv4 (ip_of_u32 (start + of_nat i))"

definition allocated :: "'d kv \<Rightarrow> u32 \<Rightarrow> string list \<Rightarrow> 'd inner \<Rightarrow> bool" where
  "allocated kv start ds s \<longleftrightarrow>
     distinct ds \<and> list_all plain_domain ds \<and> length ds < 2 ^ 32 \<and>
     next_ip s = start + of_nat (length ds) \<and>
     (ds \<noteq> [] \<longrightarrow> kv_get kv (db s) NEXT_IP = Inr (Some (u32_to_be_bytes (next_ip s)))) \<and>
     (\<forall>i < length ds.
        kv_get kv (db s) (as_bytes (ds ! i)) = Inr (Some (as_bytes (addr_at start i))) \<and>
        kv_get kv (db s) (as_bytes (addr_at start i)) = Inr (Some (as_bytes (ds ! i)))) \<and>
     (\<forall>k. k \<noteq> NEXT_IP \<longrightarrow> (\<forall>i < length ds. k \<noteq> as_bytes (ds ! i) \<and> k \<noteq> as_bytes (addr_at start i)) \<longrightarrow>
        kv_get kv (db s) k = Inr None)"

lemma as_bytes_inj [simp]: "as_bytes a = as_bytes b \<longleftrightarrow> a = b"
  by (metis of_bytes_as_bytes)

lemma u32_bytes_join: "join32 a b c d = n" if "u32_to_be_bytes n = [a, b, c, d]"
  using that join32_be32 [of n] by (simp add: u32_to_be_bytes_def be32_def)

lemma u32_bytes_cases: "\<exists>a b c d. u32_to_be_bytes n = [a, b, c, d]"
  by (simp add: u32_to_be_bytes_def be32_def)

lemma ip_of_u32_inj: "ip_of_u32 m = ip_of_u32 n \<Longrightarrow> m = n"
proof -
  assume eq: "ip_of_u32 m = ip_of_u32 n"
  obtain a b c d e f g h where "u32_to_be_bytes m = [a, b, c, d]" "u32_to_be_bytes n = [e, f, g, h]"
    using u32_bytes_cases by metis
  moreover have "[a, b, c, d] = [e, f, g, h]" using eq calculation by (simp add: ip_of_u32_def)
  ultimately show "m = n" by (metis u32_bytes_join)
qed

lemma addr_at_inj:
  assumes "addr_at start i = addr_at start j" "i < 2 ^ 32" "j < 2 ^ 32"
  shows "i = j"
proof -
  have "start + of_nat i = start + of_nat j"
    using assms(1) unfolding addr_at_def by (intro ip_of_u32_inj show_ipv4_inj)
  then have "(of_nat i :: u32) = of_nat j" by simp
  then have "unat (of_nat i :: u32) = unat (of_nat j :: u32)" by simp
  then show ?thesis using assms(2,3) by (simp add: unat_of_nat)
qed

lemma parse_next_ip: "parse_ipv4 ''next_ip'' = None"
  by code_simp

lemma addr_not_plain: "plain_domain d \<Longrightarrow> addr_at start i \<noteq> d"
  by (auto simp: addr_at_def plain_domain_def)

lemma addr_not_next: "addr_at start i \<noteq> ''next_ip''"
  using parse_next_ip parse_show_ipv4 [of "ip_of_u32 (start + of_nat i)"] unfolding addr_at_def by force

lemma keys_not_next:
  "as_bytes (addr_at start i) \<noteq> NEXT_IP" "plain_domain d \<Longrightarrow> as_bytes d \<noteq> NEXT_IP"
  using addr_not_next by (simp_all add: NEXT_IP_def plain_domain_def)

lemma digits_ascii: "list_all is_digit s \<Longrightarrow> is_ascii s"
  by (fastforce simp: is_ascii_def list_all_iff is_digit_def)

lemma ascii_addr: "from_utf8 (as_bytes (show_ipv4 a)) = Some (show_ipv4 a)"
proof (rule from_utf8_ascii)
  have "is_ascii (show_nat n)" for n using show_nat_digits digits_ascii by blast
  then show "is_ascii (show_ipv4 a)" by (cases a) (auto simp: is_ascii_def show_ipv4_def)
qed

lemma plain_utf8: "plain_domain d \<Longrightarrow> from_utf8 (as_bytes d) = Some d"
  by (simp add: plain_domain_def from_utf8_def)

lemma db_insert_ok:
  assumes "kv_laws kv"
  shows "\<exists>d. db_insert kv k v s = (Ok (), s\<lparr>db := d\<rparr>) \<and>
    (\<forall>k'. kv_get kv d k' = (if k' = k then Inr (Some v) else kv_get kv (db s) k'))"
  using assms unfolding kv_laws_def db_insert_def
  by (cases "kv_insert kv k v (db s)") (metis (no_types, lifting) fst_conv snd_conv sum.case(2) case_prod_conv)

lemma allocate_ok:
  assumes kv: "kv_laws kv" and s: "allocated kv start ds s"
    and d: "plain_domain d" "d \<notin> set ds" "Suc (length ds) < 2 ^ 32"
  shows "\<exists>s'. allocate kv d s = (Ok (addr_at start (length ds)), s') \<and>
    allocated kv start (ds @ [d]) s' \<and> inner_hosts s' = inner_hosts s"
proof -
  let ?ip = "addr_at start (length ds)" and ?next = "next_ip s + 1"
  let ?s1 = "s\<lparr>next_ip := ?next\<rparr>"
  have ip: "gen_ipaddr s = (Ok ?ip, ?s1)"
    using s by (simp add: gen_ipaddr_def addr_at_def allocated_def)
  obtain d1 where d1: "db_insert kv NEXT_IP (u32_to_be_bytes ?next) ?s1 = (Ok (), ?s1\<lparr>db := d1\<rparr>)"
    "\<And>k. kv_get kv d1 k = (if k = NEXT_IP then Inr (Some (u32_to_be_bytes ?next)) else kv_get kv (db s) k)"
    using db_insert_ok [OF kv, of NEXT_IP _ ?s1] by fastforce
  obtain d2 where d2: "db_insert kv (as_bytes d) (as_bytes ?ip) (?s1\<lparr>db := d1\<rparr>) = (Ok (), ?s1\<lparr>db := d2\<rparr>)"
    "\<And>k. kv_get kv d2 k = (if k = as_bytes d then Inr (Some (as_bytes ?ip)) else kv_get kv d1 k)"
    using db_insert_ok [OF kv, of "as_bytes d" _ "?s1\<lparr>db := d1\<rparr>"] by fastforce
  obtain d3 where d3: "db_insert kv (as_bytes ?ip) (as_bytes d) (?s1\<lparr>db := d2\<rparr>) = (Ok (), ?s1\<lparr>db := d3\<rparr>)"
    "\<And>k. kv_get kv d3 k = (if k = as_bytes ?ip then Inr (Some (as_bytes d)) else kv_get kv d2 k)"
    using db_insert_ok [OF kv, of "as_bytes ?ip" _ "?s1\<lparr>db := d2\<rparr>"] by fastforce
  have run: "allocate kv d s = (Ok ?ip, ?s1\<lparr>db := d3\<rparr>)"
    using ip d1(1) d2(1) d3(1) by (simp add: allocate_def)
  have "addr_at start i \<noteq> ?ip" if "i < length ds" for i
  proof
    assume "addr_at start i = ?ip"
    from addr_at_inj [OF this] that d(3) show False by simp
  qed
  then have fresh: "\<forall>i < length ds. addr_at start i \<noteq> ?ip \<and> ds ! i \<noteq> d \<and> plain_domain (ds ! i)"
    using s d(2) by (auto simp: allocated_def list_all_length)
  note keys = keys_not_next keys_not_next [symmetric] addr_not_plain addr_not_plain [symmetric]
    d1(2) d2(2) d3(2)
  have "allocated kv start (ds @ [d]) (?s1\<lparr>db := d3\<rparr>)"
    using s d fresh unfolding allocated_def
    by (auto simp: keys nth_append less_Suc_eq ac_simps)
  with run show ?thesis by auto
qed

lemma resolve_known:
  assumes "allocated kv start ds s" "i < length ds" "inner_hosts s (ds ! i) = None"
  shows "inner_resolve kv (ds ! i) s =
      (Ok (DnsPacket_new\<lparr>answers := [A (ds ! i) (ip_of_u32 (start + of_nat i)) 1]\<rparr>), s)"
    and "lookup_host kv (addr_at start i) s = (Ok (Some (ds ! i)), s)"
proof -
  have i: "kv_get kv (db s) (as_bytes (ds ! i)) = Inr (Some (as_bytes (addr_at start i)))"
    "kv_get kv (db s) (as_bytes (addr_at start i)) = Inr (Some (as_bytes (ds ! i)))"
    "plain_domain (ds ! i)"
    using assms(1,2) by (auto simp: allocated_def list_all_length)
  have "inner_ip kv (ds ! i) s = (Ok (addr_at start i), s)"
    using i(1) assms(3) by (simp add: inner_ip_def Hosts_get_def db_get_def addr_at_def ascii_addr)
  then show "inner_resolve kv (ds ! i) s =
      (Ok (DnsPacket_new\<lparr>answers := [A (ds ! i) (ip_of_u32 (start + of_nat i)) 1]\<rparr>), s)"
    by (simp add: inner_resolve_def addr_at_def)
  show "lookup_host kv (addr_at start i) s = (Ok (Some (ds ! i)), s)"
    using i(2) plain_utf8 [OF i(3)] by (simp add: lookup_host_def db_get_def)
qed

lemma resolve_new:
  assumes "kv_laws kv" "allocated kv start ds s" "plain_domain d" "d \<notin> set ds"
    "Suc (length ds) < 2 ^ 32" "inner_hosts s d = None"
  shows "\<exists>s'. inner_resolve kv d s =
      (Ok (DnsPacket_new\<lparr>answers := [A d (ip_of_u32 (start + of_nat (length ds))) 1]\<rparr>), s') \<and>
    allocated kv start (ds @ [d]) s' \<and> inner_hosts s' = inner_hosts s"
proof -
  obtain s' where s': "allocate kv d s = (Ok (addr_at start (length ds)), s')"
    "allocated kv start (ds @ [d]) s'" "inner_hosts s' = inner_hosts s"
    using allocate_ok [OF assms(1-5)] by blast
  have "as_bytes d \<noteq> NEXT_IP" "\<forall>i < length ds. d \<noteq> ds ! i \<and> d \<noteq> addr_at start i"
    using assms(4) keys_not_next(2) [OF assms(3)] addr_not_plain [OF assms(3)]
    by (auto simp: eq_commute [of d])
  then have "kv_get kv (db s) (as_bytes d) = Inr None"
    using assms(2) by (auto simp: allocated_def)
  then have "inner_ip kv d s = (Ok (addr_at start (length ds)), s')"
    using s'(1) assms(6) by (simp add: inner_ip_def Hosts_get_def db_get_def)
  with s' show ?thesis by (auto simp: inner_resolve_def addr_at_def)
qed

text \<open>The states a server reaches by resolving plain names, and the names it has given addresses.\<close>

inductive fake_run :: "'d kv \<Rightarrow> u32 \<Rightarrow> 'd inner \<Rightarrow> string list \<Rightarrow> 'd inner \<Rightarrow> bool" for kv start s0 where
  fake_start: "fake_run kv start s0 [] s0"
| fake_resolved: "fake_run kv start s0 ds s \<Longrightarrow> plain_domain d \<Longrightarrow> inner_hosts s d = None \<Longrightarrow>
     inner_resolve kv d s = (Ok p, s') \<Longrightarrow> fake_run kv start s0 (if d \<in> set ds then ds else ds @ [d]) s'"

definition fresh_db :: "'d kv \<Rightarrow> u32 \<Rightarrow> 'd inner \<Rightarrow> bool" where
  "fresh_db kv start s \<longleftrightarrow> next_ip s = start \<and> (\<forall>k. kv_get kv (db s) k = Inr None)"

lemma fake_run_allocated:
  assumes "fake_run kv start s0 ds s" "kv_laws kv" "fresh_db kv start s0" "length ds < 2 ^ 32"
  shows "allocated kv start ds s"
  using assms
proof (induction rule: fake_run.induct)
  case fake_start
  then show ?case by (simp add: allocated_def fresh_db_def)
next
  case (fake_resolved ds s d p s')
  show ?case
  proof (cases "d \<in> set ds")
    case True
    then obtain i where i: "i < length ds" "ds ! i = d" by (auto simp: in_set_conv_nth)
    with fake_resolved resolve_known(1) [of kv start ds s i] True show ?thesis by auto
  next
    case False
    with fake_resolved resolve_new [of kv start ds s d] show ?thesis by auto
  qed
qed

text \<open>A database for the instances: a map from keys to values.\<close>

definition map_kv :: "(u8 list \<rightharpoonup> u8 list) kv" where
  "map_kv = \<lparr>kv_get = (\<lambda>d k. Inr (d k)), kv_insert = (\<lambda>k v d. (Inr (), d(k \<mapsto> v))),
     kv_clear = (\<lambda>_. (Inr (), Map.empty))\<rparr>"

definition sample_start :: "(u8 list \<rightharpoonup> u8 list) inner" where
  "sample_start = \<lparr>db = Map.empty, next_ip = 0x0A000001, inner_hosts = Map.empty\<rparr>"

lemma map_kv_laws: "kv_laws map_kv"
  by (simp add: kv_laws_def map_kv_def)

lemma sample_start_ok: "fresh_db map_kv 0x0A000001 sample_start" "inner_hosts sample_start = Map.empty"
  by (simp_all add: fresh_db_def map_kv_def sample_start_def)

lemma plain_sample: "plain_domain ''a.b''"
  by code_simp

lemma sample_run:
  "\<exists>s. fake_run map_kv 0x0A000001 sample_start [''a.b''] s \<and> inner_hosts s = Map.empty"
proof -
  have ok: "allocated map_kv 0x0A000001 [] sample_start"
    using fake_run_allocated [OF fake_start map_kv_laws sample_start_ok(1)] by simp
  obtain p s where "inner_resolve map_kv ''a.b'' sample_start = (Ok p, s)" "inner_hosts s = Map.empty"
    using resolve_new [OF map_kv_laws ok plain_sample] sample_start_ok(2) by auto
  with fake_resolved [OF fake_start plain_sample, of sample_start map_kv] sample_start_ok(2)
  show ?thesis by auto
qed

text \<open>C12: the names a server has resolved are in bijection with a block of addresses: the name at
  position \<open>i\<close> is always answered with \<open>start + i\<close>, without changing the state, and looking that
  address up gives the name back.\<close>

theorem fake_ip_bijection:
  assumes "kv_laws kv" "fresh_db kv start s0" "fake_run kv start s0 ds s" "length ds < 2 ^ 32"
    and "\<forall>d \<in> set ds. inner_hosts s d = None"
  shows "distinct ds \<and> distinct (map (\<lambda>i. ip_of_u32 (start + of_nat i)) [0..<length ds]) \<and>
    (\<forall>i < length ds. let ip = ip_of_u32 (start + of_nat i) in
       inner_resolve kv (ds ! i) s = (Ok (DnsPacket_new\<lparr>answers := [A (ds ! i) ip 1]\<rparr>), s) \<and>
       lookup_host kv (show_ipv4 ip) s = (Ok (Some (ds ! i)), s))"
proof -
  note ok = fake_run_allocated [OF assms(3,1,2,4)]
  have "distinct (map (\<lambda>i. ip_of_u32 (start + of_nat i)) [0..<length ds])"
    using assms(4) addr_at_inj [of start] by (auto simp: distinct_map inj_on_def addr_at_def)
  moreover have "distinct ds" using ok by (simp add: allocated_def)
  ultimately show ?thesis
    using resolve_known [OF ok] assms(5) by (auto simp: Let_def addr_at_def)
qed

text \<open>A name not seen before is never refused: it gets the next address, and the state that
  follows remembers it.\<close>

lemma fake_ip_allocates:
  assumes "kv_laws kv" "fresh_db kv start s0" "fake_run kv start s0 ds s" "Suc (length ds) < 2 ^ 32"
    and "plain_domain d" "d \<notin> set ds" "inner_hosts s d = None"
  shows "\<exists>s'. inner_resolve kv d s =
      (Ok (DnsPacket_new\<lparr>answers := [A d (ip_of_u32 (start + of_nat (length ds))) 1]\<rparr>), s') \<and>
    fake_run kv start s0 (ds @ [d]) s' \<and>
    lookup_host kv (show_ipv4 (ip_of_u32 (start + of_nat (length ds)))) s' = (Ok (Some d), s')"
proof -
  have "allocated kv start ds s" using fake_run_allocated [OF assms(3,1,2)] assms(4) by simp
  from resolve_new [OF assms(1) this assms(5,6,4,7)] obtain s' where
    s': "inner_resolve kv d s =
      (Ok (DnsPacket_new\<lparr>answers := [A d (ip_of_u32 (start + of_nat (length ds))) 1]\<rparr>), s')"
      "allocated kv start (ds @ [d]) s'" "inner_hosts s' = inner_hosts s" by blast
  moreover have "fake_run kv start s0 (ds @ [d]) s'"
    using fake_resolved [OF assms(3,5,7) s'(1)] assms(6) by simp
  moreover have "lookup_host kv (addr_at start (length ds)) s' = (Ok (Some d), s')"
    using resolve_known(2) [OF s'(2), of "length ds"] s'(3) assms(7) by simp
  ultimately show ?thesis unfolding addr_at_def by blast
qed

text \<open>C14: a server restarted on the same database continues where it stopped: the counter is read
  back and every name keeps its address.\<close>

theorem fake_ip_persistent:
  assumes "kv_laws kv" "fresh_db kv start s0" "fake_run kv start s0 ds s" "length ds < 2 ^ 32"
    and "ds \<noteq> []" "Hosts_load file = Inr h"
  shows "\<exists>s'. Inner_new kv (db s) file start' = Ok s' \<and> next_ip s' = next_ip s \<and>
    (\<forall>i < length ds. h (ds ! i) = None \<longrightarrow> inner_resolve kv (ds ! i) s' =
       (Ok (DnsPacket_new\<lparr>answers := [A (ds ! i) (ip_of_u32 (start + of_nat i)) 1]\<rparr>), s'))"
proof -
  note ok = fake_run_allocated [OF assms(3,1,2,4)]
  let ?s = "\<lparr>db = db s, next_ip = next_ip s, inner_hosts = h\<rparr>"
  obtain a b c d where bytes: "u32_to_be_bytes (next_ip s) = [a, b, c, d]"
    using u32_bytes_cases by metis
  have "kv_get kv (db s) NEXT_IP = Inr (Some [a, b, c, d])"
    using ok assms(5) bytes by (simp add: allocated_def)
  then have "Inner_new kv (db s) file start' = Ok ?s"
    using assms(6) u32_bytes_join [OF bytes] by (simp add: Inner_new_def)
  moreover have "allocated kv start ds ?s" using ok by (simp add: allocated_def)
  ultimately show ?thesis using resolve_known(1) [of kv start ds ?s] by auto
qed


theorem fake_ip_bijection_witness:
  "\<exists>s. inner_resolve map_kv ''a.b'' s =
      (Ok (DnsPacket_new\<lparr>answers := [A ''a.b'' (ip_of_u32 0x0A000001) 1]\<rparr>), s) \<and>
     lookup_host map_kv (show_ipv4 (ip_of_u32 0x0A000001)) s = (Ok (Some ''a.b''), s)"
proof -
  obtain s where s: "fake_run map_kv 0x0A000001 sample_start [''a.b''] s" "inner_hosts s = Map.empty"
    using sample_run by blast
  from fake_ip_bijection [OF map_kv_laws sample_start_ok(1) s(1)] s(2) show ?thesis
    by (auto simp: Let_def)
qed

lemma fake_ip_allocates_instance:
  "\<exists>s'. inner_resolve map_kv ''a.b'' sample_start =
      (Ok (DnsPacket_new\<lparr>answers := [A ''a.b'' (ip_of_u32 0x0A000001) 1]\<rparr>), s') \<and>
    fake_run map_kv 0x0A000001 sample_start [''a.b''] s' \<and>
    lookup_host map_kv (show_ipv4 (ip_of_u32 0x0A000001)) s' = (Ok (Some ''a.b''), s')"
  using fake_ip_allocates [OF map_kv_laws sample_start_ok(1) fake_start _ plain_sample] sample_start_ok(2)
  by simp

theorem fake_ip_persistent_witness:
  "\<exists>(s :: (u8 list \<rightharpoonup> u8 list) inner) s'. Inner_new map_kv (db s) (Some ''127.0.0.1 localhost'') 7 = Ok s' \<and> next_ip s' = next_ip s \<and>
    inner_resolve map_kv ''a.b'' s' =
      (Ok (DnsPacket_new\<lparr>answers := [A ''a.b'' (ip_of_u32 0x0A000001) 1]\<rparr>), s')"
proof -
  obtain s where s: "fake_run map_kv 0x0A000001 sample_start [''a.b''] s" using sample_run by blast
  have h: "Hosts_load (Some ''127.0.0.1 localhost'') = Inr (Hosts_parse ''127.0.0.1 localhost'')"
    by (simp add: Hosts_load_def)
  have none: "Hosts_parse ''127.0.0.1 localhost'' ''a.b'' = None" by code_simp
  have len: "length [''a.b''] < 2 ^ 32" "[''a.b''] \<noteq> []" by simp_all
  obtain s' where "Inner_new map_kv (db s) (Some ''127.0.0.1 localhost'') 7 = Ok s'"
      "next_ip s' = next_ip s"
    and run: "\<forall>i < length [''a.b'']. Hosts_parse ''127.0.0.1 localhost'' ([''a.b''] ! i) = None \<longrightarrow>
       inner_resolve map_kv ([''a.b''] ! i) s' = (Ok (DnsPacket_new\<lparr>answers :=
         [A ([''a.b''] ! i) (ip_of_u32 (0x0A000001 + of_nat i)) 1]\<rparr>), s')"
    using fake_ip_persistent [OF map_kv_laws sample_start_ok(1) s len h, of 7] by blast
  moreover from run have "inner_resolve map_kv ''a.b'' s' =
      (Ok (DnsPacket_new\<lparr>answers := [A ''a.b'' (ip_of_u32 0x0A000001) 1]\<rparr>), s')"
    using none by simp
  ultimately show ?thesis by blast
qed

end
