(* ===== verification/Dns_Exchange.thy ===== *)
theory Dns_Exchange
  imports Dns_Client Fake_Ip
begin

text \<open>
  The DNS server of the proxy as \<^verbatim>\<open>dnsserver/src/lib.rs\<close> puts it together (the server of the DNS
  library over the resolver that gives out addresses), and one exchange between it and the network
  client of the library.
\<close>

definition create_dns_server ::
  "'d kv \<Rightarrow> 'd \<Rightarrow> string option \<Rightarrow> string \<Rightarrow> ipv4 \<Rightarrow> ('d inner server_context \<times> 'd inner) outcome" where
  "create_dns_server kv d file addr start_ip =
     (let n = (case octets start_ip of [a, b, c, e] \<Rightarrow> join32 a b c e | _ \<Rightarrow> 0) in
      chain (Inner_new kv d file n) (\<lambda>inner. Ok (ServerContext_new addr (fake_resolve kv), inner)))"

subsection \<open>The server's side\<close>

definition fake_reply :: "u16 \<Rightarrow> string \<Rightarrow> ipv4 \<Rightarrow> dns_packet" where
  "fake_reply k d ip = DnsPacket_new\<lparr>
     header := DnsHeader_new\<lparr>h_id := k, recursion_available := True, response := True\<rparr>,
     questions := [DnsQuestion_new d QT_A], answers := [A d ip 1]\<rparr>"

lemma execute_fake:
  assumes "inner_resolve kv d s = (Ok (DnsPacket_new\<lparr>answers := [A d ip 1]\<rparr>), s')"
  shows "execute_query (ServerContext_new l (fake_resolve kv)) (query_packet k d QT_A True) s = (Ok (fake_reply k d ip), s')"
  using assms
  by (simp add: execute_query_def query_packet_def DnsQuestion_new_def ServerContext_new_def fake_resolve_def
      get_unresolved_cnames_def resolve_cnames_def cname_loop.simps collect_def reply_header_def fake_reply_def
      DnsPacket_new_def DnsHeader_new_def alias_host_def Let_def bind_def)

lemma fake_reply_readable:
  assumes "readable_name d" "wire_len d \<le> 240"
  shows "readable_packet (fake_reply k d ip)" "uncounted (fake_reply k d ip)"
    "packet_max (fake_reply k d ip) < 512" "packet_max (fake_reply k d ip) \<le> 512"
    "length (all_records (fake_reply k d ip)) = 1"
  using assms by (simp_all add: readable_packet_def fake_reply_def DnsPacket_new_def DnsHeader_new_def readable_question_def
      DnsQuestion_new_def all_records_def uncounted_def packet_max_def question_max_def readable_record_def from_num_def)

lemma fake_reply_sent:
  "h_id (header (sent (fake_reply k d ip) 1)) = k" "\<not> truncated_message (header (sent (fake_reply k d ip) 1))"
  "answers (sent (fake_reply k d ip) 1) = [A d ip 1]"
  by (simp_all add: sent_def planned_def fake_reply_def counted_def count_record_def DnsPacket_new_def
      DnsHeader_new_def all_records_def)

lemma serve_fake:
  assumes lc: "ascii_lowercase lc" and name: "readable_name d" "wire_len d \<le> 240"
    and res: "inner_resolve kv d s = (Ok (DnsPacket_new\<lparr>answers := [A d ip 1]\<rparr>), s')"
    and req: "fst (from_buffer byte_ops lc (datagram bytes)) = Ok (query_packet k d QT_A True)"
  shows "\<exists>reply. serve_datagram lc (ServerContext_new l (fake_resolve kv)) bytes s = (Ok (Some reply), s') \<and>
    length reply < 512 \<and> (\<forall>xs. length (reply @ xs) = 512 \<longrightarrow>
      fst (from_buffer byte_ops lc \<lparr>buf = reply @ xs, bpos = 0\<rparr>) = Ok (sent (fake_reply k d ip) 1))"
proof -
  note r = fake_reply_readable [OF name, of k ip]
  obtain b :: vector_buffer where
    b: "DnsPacket_write vector_ops (fake_reply k d ip) 512 VectorPacketBuffer_new = (Ok (sent (fake_reply k d ip) 1), b)"
      "vpos b = length (vec b)" "length (vec b) < 512" "\<forall>xs. length (vec b @ xs) = 512 \<longrightarrow>
      fst (from_buffer byte_ops lc \<lparr>buf = vec b @ xs, bpos = 0\<rparr>) = Ok (sent (fake_reply k d ip) 1)"
    using reply_written_all [OF lc r(1,2,3,4)] unfolding r(5) by blast
  have "edns_limit (query_packet k d QT_A True) = 512"
    by (simp add: edns_limit_def query_packet_def DnsPacket_new_def)
  with b(1,2) have "serve_datagram lc (ServerContext_new l (fake_resolve kv)) bytes s = (Ok (Some (vec b)), s')"
    by (simp add: serve_datagram_def req bind_def execute_fake [OF res] Let_def)
  with b show ?thesis by blast
qed

subsection \<open>The exchange\<close>

text \<open>A client about to send the query of call \<open>i\<close> for the name \<open>d\<close>, whose id no other query uses.\<close>

definition about_to_ask :: "nat \<Rightarrow> u16 \<Rightarrow> string \<Rightarrow> query_call \<Rightarrow> network_client \<Rightarrow> bool" where
  "about_to_ask i k d q c \<longleftrightarrow> calls c i = Some q \<and> c_phase q = Asked \<and> requests c = [c_request q] \<and>
     rq_resp (c_request q) = i \<and> rq_packet (c_request q) = query_packet k d QT_A True \<and>
     map_of (req_resp_map c) k = None \<and> byte_wf (req_buffer c) \<and> byte_wf (res_buffer c)"

lemma ask_fake:
  assumes lc: "ascii_lowercase lc" and name: "readable_name d" "wire_len d \<le> 240"
    and res: "inner_resolve kv d s = (Ok (DnsPacket_new\<lparr>answers := [A d ip 1]\<rparr>), s')"
    and ask: "about_to_ask i k d q c"
  shows "\<exists>c1 c2 c3 bytes reply p. client_step lc c (Write None) c1 \<and>
    datagrams c1 = datagrams c @ [(bytes, rq_server (c_request q))] \<and>
    serve_datagram lc (ServerContext_new l (fake_resolve kv)) bytes s = (Ok (Some reply), s') \<and>
    client_step lc c1 (Receive reply) c2 \<and> client_step lc c2 (Return i) c3 \<and>
    calls c3 = (calls c)(i \<mapsto> q\<lparr>c_phase := Finished (Ok p)\<rparr>) \<and> answers p = [A d ip 1]"
proof -
  let ?rq = "c_request q"
  from ask have a: "calls c i = Some q" "c_phase q = Asked" "requests c = [?rq]" "rq_resp ?rq = i"
      "rq_packet ?rq = query_packet k d QT_A True" "map_of (req_resp_map c) k = None" "byte_wf (req_buffer c)"
      "byte_wf (res_buffer c)"
    by (simp_all add: about_to_ask_def)
  have qt: "from_num (to_num QT_A) = QT_A" by (simp add: from_num_def)
  from write_request_sends [OF lc a(3,5) name(1) qt _ a(7)] name(2) obtain b where
    w: "write_request None c = Some (enter_query k i (c\<lparr>requests := [], req_buffer := b,
        datagrams := datagrams c @ [(byte_written b, rq_server ?rq)]\<rparr>))" "length (byte_written b) < 512"
    and parse: "\<And>xs. length (byte_written b @ xs) = 512 \<Longrightarrow>
      fst (from_buffer byte_ops lc \<lparr>buf = byte_written b @ xs, bpos = 0\<rparr>) = Ok (query_packet k d QT_A True)"
    unfolding a(4) by auto
  let ?c = "c\<lparr>requests := [], req_buffer := b, datagrams := datagrams c @ [(byte_written b, rq_server ?rq)]\<rparr>"
  let ?c1 = "enter_query k i ?c"
  have c1: "map_of (req_resp_map ?c1) k = Some i" "calls ?c1 = calls c" "res_buffer ?c1 = res_buffer c"
      "datagrams ?c1 = datagrams c @ [(byte_written b, rq_server ?rq)]"
    using enter_query_pending [of ?c i q k] a(1,2,6) by (simp_all add: enter_query_def)
  have "fst (from_buffer byte_ops lc (datagram (byte_written b))) = Ok (query_packet k d QT_A True)"
    using parse w(2) by (simp add: datagram_def received_def)
  from serve_fake [OF lc name res this] obtain reply where
    r: "serve_datagram lc (ServerContext_new l (fake_resolve kv)) (byte_written b) s = (Ok (Some reply), s')"
      "length reply < 512" and "\<And>xs. length (reply @ xs) = 512 \<Longrightarrow>
      fst (from_buffer byte_ops lc \<lparr>buf = reply @ xs, bpos = 0\<rparr>) = Ok (sent (fake_reply k d ip) 1)"
    by blast
  then have "fst (from_buffer byte_ops lc (overwrite reply (res_buffer ?c1))) = Ok (sent (fake_reply k d ip) 1)"
    using overwrite_buf [of reply "res_buffer ?c1"] a(8) c1(3) by auto
  from exchange [OF this, unfolded fake_reply_sent(1), OF c1(1)] a(1,2) c1(2) fake_reply_sent(2) obtain c2 c3 where
    "client_step lc ?c1 (Receive reply) c2" "client_step lc c2 (Return i) c3"
    "calls c3 = (calls c)(i \<mapsto> q\<lparr>c_phase := Finished (Ok (sent (fake_reply k d ip) 1))\<rparr>)"
    by auto
  then show ?thesis
    using written [OF w(1)] c1(4) r(1) fake_reply_sent(3) by blast
qed

end
