(* ===== verification/Cipher_Type.thy ===== *)
theory Cipher_Type
  imports Rust_Std
begin

text \<open>
  The cipher table of \<^verbatim>\<open>crypto/src/cipher.rs\<close>, with every optional cipher compiled in, the
  message digests of \<^verbatim>\<open>crypto/src/digest.rs\<close> and the derivation of a key from a password.

  The cryptographic libraries are third-party code.  What the program asks of them is collected in
  \<open>crypto_lib\<close>: the sizes OpenSSL and ring report for their algorithms, whether an OpenSSL
  build knows a cipher, and the MD5 and SHA-1 functions.  A digest context is the data it was fed.
  \<open>documented_sizes\<close> states the sizes their manuals give.
\<close>

datatype ssl_cipher =
    aes_128_cfb1 | aes_128_cfb8 | aes_128_cfb128 | aes_192_cfb1 | aes_192_cfb8 | aes_192_cfb128
  | aes_256_cfb1 | aes_256_cfb8 | aes_256_cfb128 | aes_128_ctr | aes_192_ctr | aes_256_ctr
  | CAMELLIA_128_CFB128 | CAMELLIA_128_CFB1 | CAMELLIA_128_CFB8 | CAMELLIA_192_CFB128
  | CAMELLIA_192_CFB1 | CAMELLIA_192_CFB8 | CAMELLIA_256_CFB128 | CAMELLIA_256_CFB1
  | CAMELLIA_256_CFB8 | rc4

datatype ring_alg = AES_128_GCM | AES_256_GCM | CHACHA20_POLY1305

record crypto_lib =
  ssl_known :: "ssl_cipher \<Rightarrow> bool"
  ssl_key_len :: "ssl_cipher \<Rightarrow> nat"
  ssl_iv_len :: "ssl_cipher \<Rightarrow> nat option"
  ring_key_len :: "ring_alg \<Rightarrow> nat"
  ring_nonce_len :: "ring_alg \<Rightarrow> nat"
  ring_tag_len :: "ring_alg \<Rightarrow> nat"
  md5 :: "u8 list \<Rightarrow> u8 list"
  md5_output_size :: nat
  sha1 :: "u8 list \<Rightarrow> u8 list"
  SHA1_OUTPUT_LEN :: nat

definition from_nid :: "crypto_lib \<Rightarrow> ssl_cipher \<Rightarrow> ssl_cipher outcome" where
  "from_nid lib c = (if ssl_known lib c then Ok c else Panic)"

subsection \<open>Cipher types and their names\<close>

datatype cipher_type =
    Table | Plain | Aes128Cfb | Aes128Cfb1 | Aes128Cfb8 | Aes128Cfb128 | Aes192Cfb | Aes192Cfb1
  | Aes192Cfb8 | Aes192Cfb128 | Aes256Cfb | Aes256Cfb1 | Aes256Cfb8 | Aes256Cfb128 | Aes128Ctr
  | Aes192Ctr | Aes256Ctr | Camellia128Cfb | Camellia192Cfb | Camellia256Cfb | Camellia128Cfb1
  | Camellia192Cfb1 | Camellia256Cfb1 | Camellia128Cfb8 | Camellia192Cfb8 | Camellia256Cfb8
  | Camellia128Cfb128 | Camellia192Cfb128 | Camellia256Cfb128 | Rc4 | Rc4Md5 | ChaCha20 | Salsa20
  | XSalsa20 | ChaCha20Ietf | Aes128Gcm | Aes256Gcm | ChaCha20IetfPoly1305 | XChaCha20IetfPoly1305
  | Aes128PmacSiv | Aes256PmacSiv

fun show_cipher :: "cipher_type \<Rightarrow> string" where
  "show_cipher Table = ''table''"
| "show_cipher Plain = ''plain''"
| "show_cipher Aes128Cfb = ''aes-128-cfb''"
| "show_cipher Aes128Cfb1 = ''aes-128-cfb1''"
| "show_cipher Aes128Cfb8 = ''aes-128-cfb8''"
| "show_cipher Aes128Cfb128 = ''aes-128-cfb128''"
| "show_cipher Aes192Cfb = ''aes-192-cfb''"
| "show_cipher Aes192Cfb1 = ''aes-192-cfb1''"
| "show_cipher Aes192Cfb8 = ''aes-192-cfb8''"
| "show_cipher Aes192Cfb128 = ''aes-192-cfb128''"
| "show_cipher Aes256Cfb = ''aes-256-cfb''"
| "show_cipher Aes256Cfb1 = ''aes-256-cfb1''"
| "show_cipher Aes256Cfb8 = ''aes-256-cfb8''"
| "show_cipher Aes256Cfb128 = ''aes-256-cfb128''"
| "show_cipher Aes128Ctr = ''aes-128-ctr''"
| "show_cipher Aes192Ctr = ''aes-192-ctr''"
| "show_cipher Aes256Ctr = ''aes-256-ctr''"
| "show_cipher Camellia128Cfb = ''camellia-128-cfb''"
| "show_cipher Camellia128Cfb1 = ''camellia-128-cfb1''"
| "show_cipher Camellia128Cfb8 = ''camellia-128-cfb8''"
| "show_cipher Camellia128Cfb128 = ''camellia-128-cfb128''"
| "show_cipher Camellia192Cfb = ''camellia-192-cfb''"
| "show_cipher Camellia192Cfb1 = ''camellia-192-cfb1''"
| "show_cipher Camellia192Cfb8 = ''camellia-192-cfb8''"
| "show_cipher Camellia192Cfb128 = ''camellia-192-cfb128''"
| "show_cipher Camellia256Cfb = ''camellia-256-cfb''"
| "show_cipher Camellia256Cfb1 = ''camellia-256-cfb1''"
| "show_cipher Camellia256Cfb8 = ''camellia-256-cfb8''"
| "show_cipher Camellia256Cfb128 = ''camellia-256-cfb128''"
| "show_cipher Rc4 = ''rc4''"
| "show_cipher Rc4Md5 = ''rc4-md5''"
| "show_cipher ChaCha20 = ''chacha20''"
| "show_cipher Salsa20 = ''salsa20''"
| "show_cipher XSalsa20 = ''xsalsa20''"
| "show_cipher ChaCha20Ietf = ''chacha20-ietf''"
| "show_cipher Aes128Gcm = ''aes-128-gcm''"
| "show_cipher Aes256Gcm = ''aes-256-gcm''"
| "show_cipher ChaCha20IetfPoly1305 = ''chacha20-ietf-poly1305''"
| "show_cipher XChaCha20IetfPoly1305 = ''xchacha20-ietf-poly1305''"
| "show_cipher Aes128PmacSiv = ''aes-128-pmac-siv''"
| "show_cipher Aes256PmacSiv = ''aes-256-pmac-siv''"

definition cipher_arms :: "(string \<times> cipher_type) list" where
  "cipher_arms =
    [(''table'', Table),
     ('''', Table),
     (''plain'', Plain),
     (''aes-128-cfb'', Aes128Cfb),
     (''aes-128-cfb1'', Aes128Cfb1),
     (''aes-128-cfb8'', Aes128Cfb8),
     (''aes-128-cfb128'', Aes128Cfb128),
     (''aes-192-cfb'', Aes192Cfb),
     (''aes-192-cfb1'', Aes192Cfb1),
     (''aes-192-cfb8'', Aes192Cfb8),
     (''aes-192-cfb128'', Aes192Cfb128),
     (''aes-256-cfb'', Aes256Cfb),
     (''aes-256-cfb1'', Aes256Cfb1),
     (''aes-256-cfb8'', Aes256Cfb8),
     (''aes-256-cfb128'', Aes256Cfb128),
     (''aes-128-ctr'', Aes128Ctr),
     (''aes-192-ctr'', Aes192Ctr),
     (''aes-256-ctr'', Aes256Ctr),
     (''camellia-128-cfb'', Camellia128Cfb),
     (''camellia-128-cfb1'', Camellia128Cfb1),
     (''camellia-128-cfb8'', Camellia128Cfb8),
     (''camellia-128-cfb128'', Camellia128Cfb128),
     (''camellia-192-cfb'', Camellia192Cfb),
     (''camellia-192-cfb1'', Camellia192Cfb1),
     (''camellia-192-cfb8'', Camellia192Cfb8),
     (''camellia-192-cfb128'', Camellia192Cfb128),
     (''camellia-256-cfb'', Camellia256Cfb),
     (''camellia-256-cfb1'', Camellia256Cfb1),
     (''camellia-256-cfb8'', Camellia256Cfb8),
     (''camellia-256-cfb128'', Camellia256Cfb128),
     (''rc4'', Rc4),
     (''rc4-md5'', Rc4Md5),
     (''chacha20'', ChaCha20),
     (''salsa20'', Salsa20),
     (''xsalsa20'', XSalsa20),
     (''chacha20-ietf'', ChaCha20Ietf),
     (''aes-128-gcm'', Aes128Gcm),
     (''aes-256-gcm'', Aes256Gcm),
     (''chacha20-ietf-poly1305'', ChaCha20IetfPoly1305),
     (''xchacha20-ietf-poly1305'', XChaCha20IetfPoly1305),
     (''aes-128-pmac-siv'', Aes128PmacSiv),
     (''aes-256-pmac-siv'', Aes256PmacSiv)]"

definition CipherType_from_str :: "string \<Rightarrow> cipher_type outcome" where
  "CipherType_from_str s =
     (case map_of cipher_arms s of Some t \<Rightarrow> Ok t | None \<Rightarrow> Err UnknownCipherType)"

subsection \<open>Sizes and categories\<close>

fun key_size :: "crypto_lib \<Rightarrow> cipher_type \<Rightarrow> nat outcome" where
  "key_size lib Table = Ok 0"
| "key_size lib Plain = Ok 0"
| "key_size lib Aes128Cfb1 = Ok (ssl_key_len lib aes_128_cfb1)"
| "key_size lib Aes128Cfb8 = Ok (ssl_key_len lib aes_128_cfb8)"
| "key_size lib Aes128Cfb = Ok (ssl_key_len lib aes_128_cfb128)"
| "key_size lib Aes128Cfb128 = Ok (ssl_key_len lib aes_128_cfb128)"
| "key_size lib Aes192Cfb1 = Ok (ssl_key_len lib aes_192_cfb1)"
| "key_size lib Aes192Cfb8 = Ok (ssl_key_len lib aes_192_cfb8)"
| "key_size lib Aes192Cfb = Ok (ssl_key_len lib aes_192_cfb128)"
| "key_size lib Aes192Cfb128 = Ok (ssl_key_len lib aes_192_cfb128)"
| "key_size lib Aes256Cfb1 = Ok (ssl_key_len lib aes_256_cfb1)"
| "key_size lib Aes256Cfb8 = Ok (ssl_key_len lib aes_256_cfb8)"
| "key_size lib Aes256Cfb = Ok (ssl_key_len lib aes_256_cfb128)"
| "key_size lib Aes256Cfb128 = Ok (ssl_key_len lib aes_256_cfb128)"
| "key_size lib Aes128Ctr = Ok (ssl_key_len lib aes_128_ctr)"
| "key_size lib Aes192Ctr = Ok (ssl_key_len lib aes_192_ctr)"
| "key_size lib Aes256Ctr = Ok (ssl_key_len lib aes_256_ctr)"
| "key_size lib Camellia128Cfb = chain (from_nid lib CAMELLIA_128_CFB128) (\<lambda>c. Ok (ssl_key_len lib c))"
| "key_size lib Camellia128Cfb1 = chain (from_nid lib CAMELLIA_128_CFB1) (\<lambda>c. Ok (ssl_key_len lib c))"
| "key_size lib Camellia128Cfb8 = chain (from_nid lib CAMELLIA_128_CFB8) (\<lambda>c. Ok (ssl_key_len lib c))"
| "key_size lib Camellia128Cfb128 = chain (from_nid lib CAMELLIA_128_CFB128) (\<lambda>c. Ok (ssl_key_len lib c))"
| "key_size lib Camellia192Cfb = chain (from_nid lib CAMELLIA_192_CFB128) (\<lambda>c. Ok (ssl_key_len lib c))"
| "key_size lib Camellia192Cfb1 = chain (from_nid lib CAMELLIA_192_CFB1) (\<lambda>c. Ok (ssl_key_len lib c))"
| "key_size lib Camellia192Cfb8 = chain (from_nid lib CAMELLIA_192_CFB8) (\<lambda>c. Ok (ssl_key_len lib c))"
| "key_size lib Camellia192Cfb128 = chain (from_nid lib CAMELLIA_192_CFB128) (\<lambda>c. Ok (ssl_key_len lib c))"
| "key_size lib Camellia256Cfb = chain (from_nid lib CAMELLIA_256_CFB128) (\<lambda>c. Ok (ssl_key_len lib c))"
| "key_size lib Camellia256Cfb1 = chain (from_nid lib CAMELLIA_256_CFB1) (\<lambda>c. Ok (ssl_key_len lib c))"
| "key_size lib Camellia256Cfb8 = chain (from_nid lib CAMELLIA_256_CFB8) (\<lambda>c. Ok (ssl_key_len lib c))"
| "key_size lib Camellia256Cfb128 = chain (from_nid lib CAMELLIA_256_CFB128) (\<lambda>c. Ok (ssl_key_len lib c))"
| "key_size lib Rc4 = Ok (ssl_key_len lib rc4)"
| "key_size lib Rc4Md5 = Ok (ssl_key_len lib rc4)"
| "key_size lib ChaCha20 = Ok 32"
| "key_size lib Salsa20 = Ok 32"
| "key_size lib XSalsa20 = Ok 32"
| "key_size lib ChaCha20Ietf = Ok 32"
| "key_size lib Aes128Gcm = Ok (ring_key_len lib AES_128_GCM)"
| "key_size lib Aes256Gcm = Ok (ring_key_len lib AES_256_GCM)"
| "key_size lib ChaCha20IetfPoly1305 = Ok (ring_key_len lib CHACHA20_POLY1305)"
| "key_size lib XChaCha20IetfPoly1305 = Ok 32"
| "key_size lib Aes128PmacSiv = Ok 32"
| "key_size lib Aes256PmacSiv = Ok 64"

fun iv_size :: "crypto_lib \<Rightarrow> cipher_type \<Rightarrow> nat outcome" where
  "iv_size lib Table = Ok 0"
| "iv_size lib Plain = Ok 0"
| "iv_size lib Aes128Cfb1 = unwrap (ssl_iv_len lib aes_128_cfb1)"
| "iv_size lib Aes128Cfb8 = unwrap (ssl_iv_len lib aes_128_cfb8)"
| "iv_size lib Aes128Cfb = unwrap (ssl_iv_len lib aes_128_cfb128)"
| "iv_size lib Aes128Cfb128 = unwrap (ssl_iv_len lib aes_128_cfb128)"
| "iv_size lib Aes192Cfb1 = unwrap (ssl_iv_len lib aes_192_cfb1)"
| "iv_size lib Aes192Cfb8 = unwrap (ssl_iv_len lib aes_192_cfb8)"
| "iv_size lib Aes192Cfb = unwrap (ssl_iv_len lib aes_192_cfb128)"
| "iv_size lib Aes192Cfb128 = unwrap (ssl_iv_len lib aes_192_cfb128)"
| "iv_size lib Aes256Cfb1 = unwrap (ssl_iv_len lib aes_256_cfb1)"
| "iv_size lib Aes256Cfb8 = unwrap (ssl_iv_len lib aes_256_cfb8)"
| "iv_size lib Aes256Cfb = unwrap (ssl_iv_len lib aes_256_cfb128)"
| "iv_size lib Aes256Cfb128 = unwrap (ssl_iv_len lib aes_256_cfb128)"
| "iv_size lib Aes128Ctr = unwrap (ssl_iv_len lib aes_128_ctr)"
| "iv_size lib Aes192Ctr = unwrap (ssl_iv_len lib aes_192_ctr)"
| "iv_size lib Aes256Ctr = unwrap (ssl_iv_len lib aes_256_ctr)"
| "iv_size lib Camellia128Cfb = chain (from_nid lib CAMELLIA_128_CFB128) (\<lambda>c. unwrap (ssl_iv_len lib c))"
| "iv_size lib Camellia128Cfb1 = chain (from_nid lib CAMELLIA_128_CFB1) (\<lambda>c. unwrap (ssl_iv_len lib c))"
| "iv_size lib Camellia128Cfb8 = chain (from_nid lib CAMELLIA_128_CFB8) (\<lambda>c. unwrap (ssl_iv_len lib c))"
| "iv_size lib Camellia128Cfb128 = chain (from_nid lib CAMELLIA_128_CFB128) (\<lambda>c. unwrap (ssl_iv_len lib c))"
| "iv_size lib Camellia192Cfb = chain (from_nid lib CAMELLIA_192_CFB128) (\<lambda>c. unwrap (ssl_iv_len lib c))"
| "iv_size lib Camellia192Cfb1 = chain (from_nid lib CAMELLIA_192_CFB1) (\<lambda>c. unwrap (ssl_iv_len lib c))"
| "iv_size lib Camellia192Cfb8 = chain (from_nid lib CAMELLIA_192_CFB8) (\<lambda>c. unwrap (ssl_iv_len lib c))"
| "iv_size lib Camellia192Cfb128 = chain (from_nid lib CAMELLIA_192_CFB128) (\<lambda>c. unwrap (ssl_iv_len lib c))"
| "iv_size lib Camellia256Cfb = chain (from_nid lib CAMELLIA_256_CFB128) (\<lambda>c. unwrap (ssl_iv_len lib c))"
| "iv_size lib Camellia256Cfb1 = chain (from_nid lib CAMELLIA_256_CFB1) (\<lambda>c. unwrap (ssl_iv_len lib c))"
| "iv_size lib Camellia256Cfb8 = chain (from_nid lib CAMELLIA_256_CFB8) (\<lambda>c. unwrap (ssl_iv_len lib c))"
| "iv_size lib Camellia256Cfb128 = chain (from_nid lib CAMELLIA_256_CFB128) (\<lambda>c. unwrap (ssl_iv_len lib c))"
| "iv_size lib Rc4 = unwrap (ssl_iv_len lib rc4)"
| "iv_size lib Rc4Md5 = Ok 16"
| "iv_size lib ChaCha20 = Ok 8"
| "iv_size lib Salsa20 = Ok 8"
| "iv_size lib XSalsa20 = Ok 24"
| "iv_size lib ChaCha20Ietf = Ok 12"
| "iv_size lib Aes128Gcm = Ok (ring_nonce_len lib AES_128_GCM)"
| "iv_size lib Aes256Gcm = Ok (ring_nonce_len lib AES_256_GCM)"
| "iv_size lib ChaCha20IetfPoly1305 = Ok (ring_nonce_len lib CHACHA20_POLY1305)"
| "iv_size lib XChaCha20IetfPoly1305 = Ok 24"
| "iv_size lib Aes128PmacSiv = Ok 8"
| "iv_size lib Aes256PmacSiv = Ok 8"

datatype cipher_category = Stream | Aead

fun category :: "cipher_type \<Rightarrow> cipher_category" where
  "category Aes128Gcm = Aead"
| "category Aes256Gcm = Aead"
| "category ChaCha20IetfPoly1305 = Aead"
| "category XChaCha20IetfPoly1305 = Aead"
| "category Aes128PmacSiv = Aead"
| "category Aes256PmacSiv = Aead"
| "category _ = Stream"

fun tag_size :: "crypto_lib \<Rightarrow> cipher_type \<Rightarrow> nat outcome" where
  "tag_size lib Aes128Gcm = Ok (ring_tag_len lib AES_128_GCM)"
| "tag_size lib Aes256Gcm = Ok (ring_tag_len lib AES_256_GCM)"
| "tag_size lib ChaCha20IetfPoly1305 = Ok (ring_tag_len lib CHACHA20_POLY1305)"
| "tag_size lib XChaCha20IetfPoly1305 = Ok 16"
| "tag_size lib Aes128PmacSiv = Ok 16"
| "tag_size lib Aes256PmacSiv = Ok 16"
| "tag_size lib _ = Panic"

definition salt_size :: "crypto_lib \<Rightarrow> cipher_type \<Rightarrow> nat outcome" where
  "salt_size lib t = (if category t = Aead then key_size lib t else Panic)"

text \<open>Random bytes come from the thread's generator, a function of the number of bytes asked for.\<close>

definition gen_init_vec :: "crypto_lib \<Rightarrow> (nat \<Rightarrow> u8 list) \<Rightarrow> cipher_type \<Rightarrow> u8 list outcome" where
  "gen_init_vec lib gen_random_bytes t = chain (iv_size lib t) (\<lambda>n. Ok (gen_random_bytes n))"

definition gen_salt :: "crypto_lib \<Rightarrow> (nat \<Rightarrow> u8 list) \<Rightarrow> cipher_type \<Rightarrow> u8 list outcome" where
  "gen_salt lib gen_random_bytes t = chain (salt_size lib t) (\<lambda>n. Ok (gen_random_bytes n))"

subsection \<open>Digests\<close>

datatype digest_type = Md5 | Sha1 | Sha

datatype digest_variant = Md5Context "u8 list" | Sha1Context "u8 list"

fun with_type :: "digest_type \<Rightarrow> digest_variant" where
  "with_type Md5 = Md5Context []"
| "with_type Sha1 = Sha1Context []"
| "with_type Sha = Sha1Context []"

fun digest_update :: "u8 list \<Rightarrow> digest_variant \<Rightarrow> digest_variant" where
  "digest_update bs (Md5Context d) = Md5Context (d @ bs)"
| "digest_update bs (Sha1Context d) = Sha1Context (d @ bs)"

fun digest_result :: "crypto_lib \<Rightarrow> digest_variant \<Rightarrow> u8 list" where
  "digest_result lib (Md5Context d) = md5 lib d"
| "digest_result lib (Sha1Context d) = sha1 lib d"

fun digest_len :: "crypto_lib \<Rightarrow> digest_variant \<Rightarrow> nat" where
  "digest_len lib (Md5Context _) = md5_output_size lib"
| "digest_len lib (Sha1Context _) = SHA1_OUTPUT_LEN lib"

fun digest_reset :: "digest_variant \<Rightarrow> digest_variant" where
  "digest_reset (Md5Context _) = Md5Context []"
| "digest_reset (Sha1Context _) = Sha1Context []"

subsection \<open>From a password to a key\<close>

fun key_rounds :: "nat \<Rightarrow> crypto_lib \<Rightarrow> u8 list \<Rightarrow> digest_variant \<Rightarrow> u8 list \<Rightarrow> u8 list \<Rightarrow> u8 list" where
  "key_rounds 0 lib key digest m result = result"
| "key_rounds (Suc n) lib key digest m result =
     (let vkey = m @ key;
          digest = digest_update vkey digest;
          m = digest_result lib digest;
          digest = digest_reset digest
      in key_rounds n lib key digest m (result @ m))"

definition classic_bytes_to_key :: "crypto_lib \<Rightarrow> cipher_type \<Rightarrow> u8 list \<Rightarrow> u8 list outcome" where
  "classic_bytes_to_key lib t key =
     chain (iv_size lib t) (\<lambda>iv_len.
     chain (key_size lib t) (\<lambda>key_len.
     if iv_len + key_len = 0 then Ok []
     else
       let digest = with_type Md5;
           total_loop = (key_len + iv_len + digest_len lib digest - 1) div digest_len lib digest
       in Ok (take key_len (key_rounds total_loop lib key digest [] []))))"

definition bytes_to_key :: "crypto_lib \<Rightarrow> cipher_type \<Rightarrow> u8 list \<Rightarrow> u8 list outcome" where
  "bytes_to_key lib t key = classic_bytes_to_key lib t key"

subsection \<open>Properties of the table\<close>

lemma cipher_arms_distinct: "distinct (map fst cipher_arms)"
  by (simp add: cipher_arms_def)

lemma cipher_arms_show: "(show_cipher t, t) \<in> set cipher_arms"
  by (cases t) (simp_all add: cipher_arms_def)

lemma cipher_arms_mem: "(s, t) \<in> set cipher_arms \<Longrightarrow> s = show_cipher t \<or> s = [] \<and> t = Table"
  by (auto simp: cipher_arms_def)

text \<open>A cipher is parsed from its printed name, every name denotes at most one cipher, and the
  only other accepted text is the empty one, for the table cipher.\<close>

lemma cipher_name_round_trip:
  "CipherType_from_str s = Ok t \<longleftrightarrow> s = show_cipher t \<or> (s = [] \<and> t = Table)"
proof -
  have "CipherType_from_str s = Ok t \<longleftrightarrow> (s, t) \<in> set cipher_arms"
    by (simp add: CipherType_from_str_def map_of_eq_Some_iff [OF cipher_arms_distinct, symmetric]
      split: option.split)
  moreover have "([], Table) \<in> set cipher_arms" by (simp add: cipher_arms_def)
  ultimately show ?thesis using cipher_arms_show cipher_arms_mem by blast
qed

text \<open>What the libraries' manuals say of the sizes.  RC4 takes no initialisation vector.\<close>

definition documented_sizes :: "crypto_lib \<Rightarrow> bool" where
  "documented_sizes lib \<longleftrightarrow>
     (\<forall>c. ssl_iv_len lib c = (if c = rc4 then None else Some 16)) \<and>
     ssl_key_len lib rc4 = 16 \<and>
     (\<forall>a. ring_nonce_len lib a = 12) \<and> (\<forall>a. ring_tag_len lib a = 16) \<and>
     ring_key_len lib AES_128_GCM = 16 \<and> ring_key_len lib AES_256_GCM = 32 \<and>
     ring_key_len lib CHACHA20_POLY1305 = 32 \<and>
     md5_output_size lib = 16 \<and> (\<forall>bs. length (md5 lib bs) = 16)"

text \<open>The reference derivation: blocks that each hash the previous block and the password.\<close>

fun key_blocks :: "(u8 list \<Rightarrow> u8 list) \<Rightarrow> u8 list \<Rightarrow> u8 list \<Rightarrow> nat \<Rightarrow> u8 list list" where
  "key_blocks hash key m 0 = []"
| "key_blocks hash key m (Suc n) = hash (m @ key) # key_blocks hash key (hash (m @ key)) n"

lemma key_rounds_blocks:
  "key_rounds n lib key (Md5Context []) m result = result @ concat (key_blocks (md5 lib) key m n)"
  by (induction n arbitrary: m result) (simp_all add: Let_def)

lemma length_key_blocks:
  "(\<And>bs. length (hash bs) = k) \<Longrightarrow> length (concat (key_blocks hash key m n)) = n * k"
  by (induction n arbitrary: m) simp_all

lemma iv_size_known:
  "documented_sizes lib \<Longrightarrow> key_size lib t = Ok n \<Longrightarrow> t \<noteq> Rc4 \<Longrightarrow> \<exists>v. iv_size lib t = Ok v"
  by (cases t) (simp_all add: documented_sizes_def from_nid_def split: if_splits)

lemma le_mult_round_up: "(n :: nat) \<le> (n + v + 15) div 16 * 16"
  by presburger

text \<open>C20: with the documented sizes, a password gives a key of exactly the size the cipher asks for,
  cut from the chain of hashes; the bare RC4 cipher is the one for which there is no key, because it
  has no initialisation vector to ask the size of.\<close>

theorem bytes_to_key_size:
  assumes "documented_sizes lib" "key_size lib t = Ok n"
  shows "if t = Rc4 then bytes_to_key lib t pw = Panic
    else \<exists>v k. iv_size lib t = Ok v \<and> bytes_to_key lib t pw = Ok k \<and> length k = n \<and>
      prefix k (concat (key_blocks (md5 lib) pw [] ((n + v + 15) div 16)))"
proof (cases "t = Rc4")
  case True
  with assms(1) show ?thesis
    by (simp add: bytes_to_key_def classic_bytes_to_key_def documented_sizes_def)
next
  case False
  obtain v where v: "iv_size lib t = Ok v" using iv_size_known [OF assms False] by blast
  let ?bs = "concat (key_blocks (md5 lib) pw [] ((n + v + 15) div 16))"
  have md5: "md5_output_size lib = 16" "\<And>bs. length (md5 lib bs) = 16"
    using assms(1) by (simp_all add: documented_sizes_def)
  have len: "length ?bs = (n + v + 15) div 16 * 16" by (rule length_key_blocks) (rule md5(2))
  have "bytes_to_key lib t pw = Ok (take n ?bs)"
    using v assms(2) md5(1)
    by (cases "v + n = 0")
      (simp_all add: bytes_to_key_def classic_bytes_to_key_def key_rounds_blocks ac_simps)
  moreover have "length (take n ?bs) = n" using len le_mult_round_up [of n v] by simp
  ultimately show ?thesis using v False by (simp add: take_is_prefix)
qed

text \<open>A library with the documented sizes, and a hash that only looks at the length.\<close>

definition sample_lib :: crypto_lib where
  "sample_lib = \<lparr>ssl_known = (\<lambda>_. True), ssl_key_len = (\<lambda>_. 16),
     ssl_iv_len = (\<lambda>c. if c = rc4 then None else Some 16),
     ring_key_len = (\<lambda>a. if a = AES_128_GCM then 16 else 32), ring_nonce_len = (\<lambda>_. 12),
     ring_tag_len = (\<lambda>_. 16), md5 = (\<lambda>bs. replicate 16 (of_nat (length bs))), md5_output_size = 16,
     sha1 = (\<lambda>bs. replicate 20 0), SHA1_OUTPUT_LEN = 20\<rparr>"

lemma sample_lib_documented: "documented_sizes sample_lib"
  by (simp add: documented_sizes_def sample_lib_def)

theorem bytes_to_key_size_witness:
  "\<exists>v k. iv_size sample_lib ChaCha20Ietf = Ok v \<and> bytes_to_key sample_lib ChaCha20Ietf [1, 2] = Ok k \<and>
     length k = 32"
  using bytes_to_key_size [OF sample_lib_documented, of ChaCha20Ietf 32 "[1, 2]"] by auto

end
