(* ===== verification/Stream_Ciphers.thy ===== *)
theory Stream_Ciphers
  imports Cipher_Type "HOL-Library.Multiset"
begin

text \<open>
  The stream ciphers of the crypto crate: \<^verbatim>\<open>table.rs\<close>, \<^verbatim>\<open>dummy.rs\<close>, the stream part of
  \<^verbatim>\<open>sodium.rs\<close>, \<^verbatim>\<open>openssl.rs\<close>, \<^verbatim>\<open>rc4_md5.rs\<close> and the choice between them in
  \<^verbatim>\<open>stream.rs\<close>.

  The functions of libsodium and the crypter of OpenSSL are the operations of \<open>stream_lib\<close>;
  a failing call is \<open>None\<close>.  A cipher's \<^verbatim>\<open>update\<close> returns the bytes it puts into its output.
\<close>

datatype crypto_mode = Encrypt | Decrypt

datatype sodium_fn = chacha20_xor_ic | chacha20_ietf_xor_ic | salsa20_xor_ic | xsalsa20_xor_ic

record 'k stream_lib = crypto_lib +
  sodium_xor :: "sodium_fn \<Rightarrow> nat \<Rightarrow> u8 list \<Rightarrow> u8 list \<Rightarrow> u8 list \<Rightarrow> u8 list option"
  crypter_new :: "ssl_cipher \<Rightarrow> crypto_mode \<Rightarrow> u8 list \<Rightarrow> u8 list \<Rightarrow> 'k option"
  crypter_update :: "'k \<Rightarrow> u8 list \<Rightarrow> (u8 list \<times> 'k) option"
  crypter_finalize :: "'k \<Rightarrow> (u8 list \<times> 'k) option"
  block_size :: "ssl_cipher \<Rightarrow> nat"

abbreviation libs :: "'k stream_lib \<Rightarrow> crypto_lib" where
  "libs lib \<equiv> crypto_lib.truncate lib"

subsection \<open>The table cipher\<close>

definition TABLE_SIZE :: nat where "TABLE_SIZE = 256"

fun le_value :: "u8 list \<Rightarrow> nat" where
  "le_value [] = 0"
| "le_value (b # bs) = unat b + 256 * le_value bs"

definition sorted_table :: "nat \<Rightarrow> nat list" where
  "sorted_table a =
     fold (\<lambda>i table. sort_key (\<lambda>x. a mod (x + i)) table) [1..<1024] [0..<TABLE_SIZE]"

definition encrypt_table :: "nat list \<Rightarrow> u8 list" where
  "encrypt_table table = map (\<lambda>i. of_nat (table ! i)) [0..<TABLE_SIZE]"

definition decrypt_table :: "nat list \<Rightarrow> u8 list" where
  "decrypt_table table =
     fold (\<lambda>(idx, item) t. t[item := of_nat idx]) (enumerate 0 table) (replicate TABLE_SIZE 0)"

definition TableCipher_new :: "crypto_lib \<Rightarrow> u8 list \<Rightarrow> crypto_mode \<Rightarrow> u8 list outcome" where
  "TableCipher_new lib key mode =
     (let key_digest = digest_result lib (digest_update key (with_type Md5)) in
      if length key_digest < 8 then Panic
      else
        let table = sorted_table (le_value (take 8 key_digest)) in
        Ok (case mode of Encrypt \<Rightarrow> encrypt_table table | Decrypt \<Rightarrow> decrypt_table table))"

definition table_process :: "u8 list \<Rightarrow> (u8 list, u8 list) rust" where
  "table_process data = (\<lambda>table. (Ok (map (\<lambda>d. table ! unat d) data), table))"

text \<open>The methods of the trait; \<^verbatim>\<open>table.rs\<close> has nothing to add at the end of a stream.\<close>

definition table_update :: "u8 list \<Rightarrow> (u8 list, u8 list) rust" where
  [simp]: "table_update data = table_process data"

definition table_finalize :: "(u8 list, u8 list) rust" where
  [simp]: "table_finalize = return []"

definition table_buffer_size :: "u8 list \<Rightarrow> nat" where
  [simp]: "table_buffer_size data = length data"

subsection \<open>The cipher that does nothing\<close>

definition dummy_update :: "u8 list \<Rightarrow> u8 list outcome" where
  [simp]: "dummy_update data = Ok data"

definition dummy_finalize :: "u8 list outcome" where
  [simp]: "dummy_finalize = Ok []"

definition dummy_buffer_size :: "u8 list \<Rightarrow> nat" where
  [simp]: "dummy_buffer_size data = length data"

subsection \<open>The libsodium stream ciphers\<close>

record sodium_stream =
  ss_type :: cipher_type
  ss_key :: "u8 list"
  ss_iv :: "u8 list"
  ss_counter :: nat

definition SODIUM_BLOCK_SIZE :: nat where "SODIUM_BLOCK_SIZE = 64"

definition is_sodium_stream :: "cipher_type \<Rightarrow> bool" where
  "is_sodium_stream t \<longleftrightarrow> t \<in> {ChaCha20, Salsa20, XSalsa20, ChaCha20Ietf}"

definition SodiumStreamCipher_new :: "cipher_type \<Rightarrow> u8 list \<Rightarrow> u8 list \<Rightarrow> sodium_stream outcome" where
  "SodiumStreamCipher_new t key iv =
     (if is_sodium_stream t then Ok \<lparr>ss_type = t, ss_key = key, ss_iv = iv, ss_counter = 0\<rparr> else Panic)"

definition padding_len :: "sodium_stream \<Rightarrow> nat" where
  "padding_len c = ss_counter c mod SODIUM_BLOCK_SIZE"

definition crypto_stream_xor_ic ::
  "'k stream_lib \<Rightarrow> cipher_type \<Rightarrow> nat \<Rightarrow> u8 list \<Rightarrow> u8 list \<Rightarrow> u8 list \<Rightarrow> u8 list outcome" where
  "crypto_stream_xor_ic lib t ic iv key data =
     chain (if t = ChaCha20 then Ok (sodium_xor lib chacha20_xor_ic ic iv key data)
       else if t = ChaCha20Ietf then Ok (sodium_xor lib chacha20_ietf_xor_ic (ic mod 2 ^ 32) iv key data)
       else if t = Salsa20 then Ok (sodium_xor lib salsa20_xor_ic ic iv key data)
       else if t = XSalsa20 then Ok (sodium_xor lib xsalsa20_xor_ic ic iv key data)
       else Panic)
     (\<lambda>ret. case ret of Some out \<Rightarrow> Ok out | None \<Rightarrow> Err SodiumError)"

definition sodium_process :: "'k stream_lib \<Rightarrow> u8 list \<Rightarrow> (sodium_stream, u8 list) rust" where
  "sodium_process lib data = (\<lambda>c.
     let padding = padding_len c;
         plain_text = replicate padding 0 @ data in
     case crypto_stream_xor_ic lib (ss_type c) (ss_counter c div SODIUM_BLOCK_SIZE) (ss_iv c) (ss_key c)
            plain_text of
       Ok out_buf \<Rightarrow> (Ok (take (length data) (drop padding out_buf)),
                      c\<lparr>ss_counter := ss_counter c + length data\<rparr>)
     | Err e \<Rightarrow> (Err e, c)
     | Panic \<Rightarrow> (Panic, c)
     | Diverge \<Rightarrow> (Diverge, c))"

definition sodium_update :: "'k stream_lib \<Rightarrow> u8 list \<Rightarrow> (sodium_stream, u8 list) rust" where
  [simp]: "sodium_update lib data = sodium_process lib data"

definition sodium_finalize :: "(sodium_stream, u8 list) rust" where
  [simp]: "sodium_finalize = return []"

definition sodium_buffer_size :: "u8 list \<Rightarrow> nat" where
  [simp]: "sodium_buffer_size data = length data"

subsection \<open>The OpenSSL ciphers\<close>

record 'k ssl_crypto =
  ssl_cipher_of :: ssl_cipher
  ssl_inner :: 'k

fun ssl_cipher_for :: "crypto_lib \<Rightarrow> cipher_type \<Rightarrow> ssl_cipher outcome" where
  "ssl_cipher_for lib Aes128Cfb = Ok aes_128_cfb128"
| "ssl_cipher_for lib Aes128Cfb1 = Ok aes_128_cfb1"
| "ssl_cipher_for lib Aes128Cfb128 = Ok aes_128_cfb128"
| "ssl_cipher_for lib Aes192Cfb = Ok aes_192_cfb128"
| "ssl_cipher_for lib Aes192Cfb1 = Ok aes_192_cfb1"
| "ssl_cipher_for lib Aes192Cfb128 = Ok aes_192_cfb128"
| "ssl_cipher_for lib Aes256Cfb = Ok aes_256_cfb128"
| "ssl_cipher_for lib Aes256Cfb1 = Ok aes_256_cfb1"
| "ssl_cipher_for lib Aes256Cfb128 = Ok aes_256_cfb128"
| "ssl_cipher_for lib Aes128Ctr = Ok aes_128_ctr"
| "ssl_cipher_for lib Aes192Ctr = Ok aes_192_ctr"
| "ssl_cipher_for lib Aes256Ctr = Ok aes_256_ctr"
| "ssl_cipher_for lib Camellia128Cfb = from_nid lib CAMELLIA_128_CFB128"
| "ssl_cipher_for lib Camellia128Cfb1 = from_nid lib CAMELLIA_128_CFB1"
| "ssl_cipher_for lib Camellia128Cfb8 = from_nid lib CAMELLIA_128_CFB8"
| "ssl_cipher_for lib Camellia128Cfb128 = from_nid lib CAMELLIA_128_CFB128"
| "ssl_cipher_for lib Camellia192Cfb = from_nid lib CAMELLIA_192_CFB128"
| "ssl_cipher_for lib Camellia192Cfb1 = from_nid lib CAMELLIA_192_CFB1"
| "ssl_cipher_for lib Camellia192Cfb8 = from_nid lib CAMELLIA_192_CFB8"
| "ssl_cipher_for lib Camellia192Cfb128 = from_nid lib CAMELLIA_192_CFB128"
| "ssl_cipher_for lib Camellia256Cfb = from_nid lib CAMELLIA_256_CFB128"
| "ssl_cipher_for lib Camellia256Cfb1 = from_nid lib CAMELLIA_256_CFB1"
| "ssl_cipher_for lib Camellia256Cfb8 = from_nid lib CAMELLIA_256_CFB8"
| "ssl_cipher_for lib Camellia256Cfb128 = from_nid lib CAMELLIA_256_CFB128"
| "ssl_cipher_for lib Rc4 = Ok rc4"
| "ssl_cipher_for lib _ = Panic"

definition OpenSSLCrypto_new ::
  "'k stream_lib \<Rightarrow> cipher_type \<Rightarrow> u8 list \<Rightarrow> u8 list \<Rightarrow> crypto_mode \<Rightarrow> 'k ssl_crypto outcome" where
  "OpenSSLCrypto_new lib t key iv mode =
     chain (ssl_cipher_for (libs lib) t) (\<lambda>c.
     chain (unwrap (crypter_new lib c mode key iv)) (\<lambda>k.
     Ok \<lparr>ssl_cipher_of = c, ssl_inner = k\<rparr>))"

definition openssl_update :: "'k stream_lib \<Rightarrow> u8 list \<Rightarrow> ('k ssl_crypto, u8 list) rust" where
  "openssl_update lib data = (\<lambda>c. case crypter_update lib (ssl_inner c) data of
       Some (out, k) \<Rightarrow> (Ok out, c\<lparr>ssl_inner := k\<rparr>)
     | None \<Rightarrow> (Err Other, c))"

definition openssl_finalize :: "'k stream_lib \<Rightarrow> ('k ssl_crypto, u8 list) rust" where
  "openssl_finalize lib = (\<lambda>c. case crypter_finalize lib (ssl_inner c) of
       Some (out, k) \<Rightarrow> (Ok out, c\<lparr>ssl_inner := k\<rparr>)
     | None \<Rightarrow> (Err Other, c))"

definition openssl_buffer_size :: "'k stream_lib \<Rightarrow> 'k ssl_crypto \<Rightarrow> u8 list \<Rightarrow> nat" where
  [simp]: "openssl_buffer_size lib c data = block_size lib (ssl_cipher_of c) + length data"

text \<open>\<^verbatim>\<open>OpenSSLCipher\<close> and \<^verbatim>\<open>Rc4Md5Cipher\<close> pass their calls on to the same worker.\<close>

definition OpenSSLCipher_new ::
  "'k stream_lib \<Rightarrow> cipher_type \<Rightarrow> u8 list \<Rightarrow> u8 list \<Rightarrow> crypto_mode \<Rightarrow> 'k ssl_crypto outcome" where
  [simp]: "OpenSSLCipher_new lib t key iv mode = OpenSSLCrypto_new lib t key iv mode"

definition ssl_cipher_update :: "'k stream_lib \<Rightarrow> u8 list \<Rightarrow> ('k ssl_crypto, u8 list) rust" where
  [simp]: "ssl_cipher_update lib data = openssl_update lib data"

definition ssl_cipher_finalize :: "'k stream_lib \<Rightarrow> ('k ssl_crypto, u8 list) rust" where
  [simp]: "ssl_cipher_finalize lib = openssl_finalize lib"

definition ssl_cipher_buffer_size :: "'k stream_lib \<Rightarrow> 'k ssl_crypto \<Rightarrow> u8 list \<Rightarrow> nat" where
  [simp]: "ssl_cipher_buffer_size lib c data = openssl_buffer_size lib c data"

definition Rc4Md5Cipher_new ::
  "'k stream_lib \<Rightarrow> u8 list \<Rightarrow> u8 list \<Rightarrow> crypto_mode \<Rightarrow> 'k ssl_crypto outcome" where
  "Rc4Md5Cipher_new lib key iv mode =
     (let digest = digest_update iv (digest_update key (with_type Md5)) in
      OpenSSLCrypto_new lib Rc4 (digest_result (libs lib) digest) [] mode)"

definition rc4_md5_update :: "'k stream_lib \<Rightarrow> u8 list \<Rightarrow> ('k ssl_crypto, u8 list) rust" where
  [simp]: "rc4_md5_update lib data = openssl_update lib data"

definition rc4_md5_finalize :: "'k stream_lib \<Rightarrow> ('k ssl_crypto, u8 list) rust" where
  [simp]: "rc4_md5_finalize lib = openssl_finalize lib"

definition rc4_md5_buffer_size :: "'k stream_lib \<Rightarrow> 'k ssl_crypto \<Rightarrow> u8 list \<Rightarrow> nat" where
  [simp]: "rc4_md5_buffer_size lib c data = openssl_buffer_size lib c data"

subsection \<open>The variants behind the trait object\<close>

datatype 'k stream_cipher =
    TableCipher "u8 list"
  | DummyCipher
  | SodiumCipher sodium_stream
  | OpenSSLCipher "'k ssl_crypto"
  | Rc4Md5Cipher "'k ssl_crypto"

definition new_stream ::
  "'k stream_lib \<Rightarrow> cipher_type \<Rightarrow> u8 list \<Rightarrow> u8 list \<Rightarrow> crypto_mode \<Rightarrow> 'k stream_cipher outcome" where
  "new_stream lib t key iv mode =
     (if category t \<noteq> Stream then Panic
      else case t of
        Table \<Rightarrow> chain (TableCipher_new (libs lib) key mode) (\<lambda>c. Ok (TableCipher c))
      | Plain \<Rightarrow> Ok DummyCipher
      | ChaCha20 \<Rightarrow> chain (SodiumStreamCipher_new t key iv) (\<lambda>c. Ok (SodiumCipher c))
      | Salsa20 \<Rightarrow> chain (SodiumStreamCipher_new t key iv) (\<lambda>c. Ok (SodiumCipher c))
      | XSalsa20 \<Rightarrow> chain (SodiumStreamCipher_new t key iv) (\<lambda>c. Ok (SodiumCipher c))
      | ChaCha20Ietf \<Rightarrow> chain (SodiumStreamCipher_new t key iv) (\<lambda>c. Ok (SodiumCipher c))
      | Rc4Md5 \<Rightarrow> chain (Rc4Md5Cipher_new lib key iv mode) (\<lambda>c. Ok (Rc4Md5Cipher c))
      | Rc4 \<Rightarrow> Panic
      | _ \<Rightarrow> chain (OpenSSLCipher_new lib t key iv mode) (\<lambda>c. Ok (OpenSSLCipher c)))"

text \<open>Running an operation on the state inside a variant.\<close>

definition within :: "('a \<Rightarrow> 's) \<Rightarrow> ('a, 'b) rust \<Rightarrow> 'a \<Rightarrow> 'b outcome \<times> 's" where
  "within wrap m c = (case m c of (r, c') \<Rightarrow> (r, wrap c'))"

fun stream_update :: "'k stream_lib \<Rightarrow> u8 list \<Rightarrow> ('k stream_cipher, u8 list) rust" where
  "stream_update lib data (TableCipher c) = within TableCipher (table_update data) c"
| "stream_update lib data DummyCipher = (dummy_update data, DummyCipher)"
| "stream_update lib data (SodiumCipher c) = within SodiumCipher (sodium_update lib data) c"
| "stream_update lib data (OpenSSLCipher c) = within OpenSSLCipher (ssl_cipher_update lib data) c"
| "stream_update lib data (Rc4Md5Cipher c) = within Rc4Md5Cipher (rc4_md5_update lib data) c"

fun stream_finalize :: "'k stream_lib \<Rightarrow> ('k stream_cipher, u8 list) rust" where
  "stream_finalize lib (TableCipher c) = within TableCipher table_finalize c"
| "stream_finalize lib DummyCipher = (dummy_finalize, DummyCipher)"
| "stream_finalize lib (SodiumCipher c) = within SodiumCipher sodium_finalize c"
| "stream_finalize lib (OpenSSLCipher c) = within OpenSSLCipher (ssl_cipher_finalize lib) c"
| "stream_finalize lib (Rc4Md5Cipher c) = within Rc4Md5Cipher (rc4_md5_finalize lib) c"

fun stream_buffer_size :: "'k stream_lib \<Rightarrow> 'k stream_cipher \<Rightarrow> u8 list \<Rightarrow> nat" where
  "stream_buffer_size lib (TableCipher c) data = table_buffer_size data"
| "stream_buffer_size lib DummyCipher data = dummy_buffer_size data"
| "stream_buffer_size lib (SodiumCipher c) data = sodium_buffer_size data"
| "stream_buffer_size lib (OpenSSLCipher c) data = ssl_cipher_buffer_size lib c data"
| "stream_buffer_size lib (Rc4Md5Cipher c) data = rc4_md5_buffer_size lib c data"

subsection \<open>The contract of a stream cipher\<close>

text \<open>Each byte is transformed by a function of its position in the stream.\<close>

fun code_from :: "(nat \<Rightarrow> u8 \<Rightarrow> u8) \<Rightarrow> nat \<Rightarrow> u8 list \<Rightarrow> u8 list" where
  "code_from code p [] = []"
| "code_from code p (b # bs) = code p b # code_from code (Suc p) bs"

fun update_all :: "(u8 list \<Rightarrow> ('c, u8 list) rust) \<Rightarrow> u8 list list \<Rightarrow> ('c, u8 list) rust" where
  "update_all upd [] = return []"
| "update_all upd (xs # xss) = bind (upd xs) (\<lambda>ys. bind (update_all upd xss) (\<lambda>zs. return (ys @ zs)))"

fun update_list :: "(u8 list \<Rightarrow> ('c, u8 list) rust) \<Rightarrow> u8 list list \<Rightarrow> ('c, u8 list list) rust" where
  "update_list upd [] = return []"
| "update_list upd (xs # xss) = bind (upd xs) (\<lambda>ys. bind (update_list upd xss) (\<lambda>yss. return (ys # yss)))"

lemma length_code_from [simp]: "length (code_from code p bs) = length bs"
  by (induction bs arbitrary: p) simp_all

lemma code_from_append:
  "code_from code p (as @ bs) = code_from code p as @ code_from code (p + length as) bs"
  by (induction as arbitrary: p) (simp_all add: add.commute)

lemma code_from_inverse:
  "(\<And>p b. decode p (encode p b) = b) \<Longrightarrow> code_from decode p (code_from encode p bs) = bs"
  by (induction bs arbitrary: p) simp_all

lemma code_from_nth: "i < length bs \<Longrightarrow> code_from code p bs ! i = code (p + i) (bs ! i)"
  by (induction bs arbitrary: p i) (auto simp: nth_Cons split: nat.split)

locale byte_cipher =
  fixes upd :: "u8 list \<Rightarrow> ('c, u8 list) rust"
    and at :: "'c \<Rightarrow> nat \<Rightarrow> nat \<Rightarrow> bool"      \<comment> \<open>at a position, with room for that many more bytes\<close>
    and code :: "nat \<Rightarrow> u8 \<Rightarrow> u8"
  assumes upd_step: "at c p n \<Longrightarrow> length data \<le> n \<Longrightarrow>
      \<exists>c'. upd data c = (Ok (code_from code p data), c') \<and> at c' (p + length data) (n - length data)"
begin

lemma update_all_code:
  "at c p n \<Longrightarrow> length (concat xss) \<le> n \<Longrightarrow>
     \<exists>c'. update_all upd xss c = (Ok (code_from code p (concat xss)), c') \<and>
       at c' (p + length (concat xss)) (n - length (concat xss))"
proof (induction xss arbitrary: c p n)
  case (Cons xs xss)
  from Cons.prems obtain c1 where c1: "upd xs c = (Ok (code_from code p xs), c1)"
      "at c1 (p + length xs) (n - length xs)"
    using upd_step [of c p n xs] by auto
  from Cons.prems(2) have "length (concat xss) \<le> n - length xs" by simp
  from Cons.IH [OF c1(2) this] obtain c2
    where "update_all upd xss c1 = (Ok (code_from code (p + length xs) (concat xss)), c2)"
      "at c2 (p + length xs + length (concat xss)) (n - length xs - length (concat xss))"
    by blast
  then show ?case by (simp add: bind_Ok [where m = "upd xs", OF c1(1)] code_from_append ac_simps)
qed simp

lemma update_list_code:
  "at c p n \<Longrightarrow> length (concat xss) \<le> n \<Longrightarrow>
     \<exists>yss c'. update_list upd xss c = (Ok yss, c') \<and> map length yss = map length xss \<and>
       concat yss = code_from code p (concat xss)"
proof (induction xss arbitrary: c p n)
  case (Cons xs xss)
  from Cons.prems obtain c1 where c1: "upd xs c = (Ok (code_from code p xs), c1)"
      "at c1 (p + length xs) (n - length xs)"
    using upd_step [of c p n xs] by auto
  from Cons.prems(2) have "length (concat xss) \<le> n - length xs" by simp
  from Cons.IH [OF c1(2) this] obtain yss c2
    where "update_list upd xss c1 = (Ok yss, c2)" "map length yss = map length xss"
      "concat yss = code_from code (p + length xs) (concat xss)"
    by blast
  then show ?case by (simp add: bind_Ok [where m = "upd xs", OF c1(1)] code_from_append)
qed simp

end

text \<open>Two ciphers whose transformations are inverse: however the sender cuts the data into writes and
  the network cuts the ciphertext into reads, the receiver gets the data back.\<close>

locale cipher_pair = enc: byte_cipher eupd eat ecode + dec: byte_cipher dupd dat dcode
  for eupd :: "u8 list \<Rightarrow> ('e, u8 list) rust" and eat ecode
    and dupd :: "u8 list \<Rightarrow> ('d, u8 list) rust" and dat dcode +
  assumes inverse: "dcode p (ecode p b) = b"
begin

lemma chunked_round_trip:
  assumes "eat e p n" "dat d p n" "length (concat xss) \<le> n"
  shows "\<exists>ys e'. update_all eupd xss e = (Ok ys, e') \<and> length ys = length (concat xss) \<and>
    (\<forall>yss. concat yss = ys \<longrightarrow> (\<exists>d'. update_all dupd yss d = (Ok (concat xss), d')))"
proof -
  obtain e' where "update_all eupd xss e = (Ok (code_from ecode p (concat xss)), e')"
    using enc.update_all_code [OF assms(1,3)] by blast
  moreover have "\<exists>d'. update_all dupd yss d = (Ok (concat xss), d')"
    if "concat yss = code_from ecode p (concat xss)" for yss
    using dec.update_all_code [OF assms(2), of yss] that assms(3)
    by (auto simp: code_from_inverse [of dcode ecode] inverse)
  ultimately show ?thesis by simp
qed

lemma chunked_list_round_trip:
  assumes "eat e p n" "dat d p n" "length (concat xss) \<le> n"
  shows "\<exists>yss e'. update_list eupd xss e = (Ok yss, e') \<and> map length yss = map length xss \<and>
    (\<forall>zss. concat zss = concat yss \<longrightarrow> (\<exists>outs d'. update_list dupd zss d = (Ok outs, d') \<and>
      map length outs = map length zss \<and> concat outs = concat xss))"
proof -
  obtain yss e' where yss: "update_list eupd xss e = (Ok yss, e')" "map length yss = map length xss"
      "concat yss = code_from ecode p (concat xss)"
    using enc.update_list_code [OF assms(1,3)] by blast
  moreover have "\<exists>outs d'. update_list dupd zss d = (Ok outs, d') \<and>
      map length outs = map length zss \<and> concat outs = concat xss"
    if "concat zss = concat yss" for zss
    using dec.update_list_code [OF assms(2), of zss] that assms(3) yss(3)
    by (auto simp: code_from_inverse [of dcode ecode] inverse)
  ultimately show ?thesis by blast
qed

end

subsection \<open>The table cipher\<close>

definition is_table :: "nat list \<Rightarrow> bool" where
  "is_table table \<longleftrightarrow> mset table = mset [0..<TABLE_SIZE]"

lemma sorted_table_perm: "is_table (sorted_table a)"
proof -
  have "mset (fold (\<lambda>i table. sort_key (\<lambda>x. a mod (x + i)) table) is t) = mset t" for "is" t
    by (induction "is" arbitrary: t) simp_all
  then show ?thesis by (simp only: is_table_def sorted_table_def)
qed

lemma is_tableD:
  assumes "is_table table"
  shows "length table = TABLE_SIZE" "distinct table" "set table = {..<TABLE_SIZE}"
proof -
  have perm: "mset table = mset [0..<TABLE_SIZE]" using assms by (simp add: is_table_def)
  show "length table = TABLE_SIZE" using mset_eq_length [OF perm] by simp
  show "distinct table" using perm by (metis distinct_upt mset_eq_imp_distinct_iff)
  show "set table = {..<TABLE_SIZE}" using mset_eq_setD [OF perm] by (auto simp: atLeast0LessThan)
qed

lemma length_fold_update:
  "length (fold (\<lambda>(idx, item) t. t[item := f idx]) xs t) = length t"
  by (induction xs arbitrary: t) auto

lemma fold_update_notin:
  "k \<notin> set table \<Longrightarrow> fold (\<lambda>(idx, item) t. t[item := f idx]) (enumerate n table) t ! k = t ! k"
  by (induction table arbitrary: n t) (auto simp: enumerate_Suc_eq [symmetric])

lemma fold_update_nth:
  assumes "distinct table" "\<forall>x \<in> set table. x < length t" "i < length table"
  shows "fold (\<lambda>(idx, item) t. t[item := f idx]) (enumerate n table) t ! (table ! i) = f (n + i)"
  using assms
proof (induction table arbitrary: n t i)
  case (Cons x table)
  show ?case
  proof (cases i)
    case 0
    with Cons.prems show ?thesis by (simp add: fold_update_notin)
  next
    case (Suc j)
    with Cons.prems Cons.IH [of "t[x := f n]" j "Suc n"] show ?thesis by simp
  qed
qed simp

lemma decrypt_encrypt_table:
  assumes "is_table table"
  shows "decrypt_table table ! unat (encrypt_table table ! unat b) = b"
proof -
  note t = is_tableD [OF assms]
  have b: "unat b < TABLE_SIZE" using unsigned_less [of b, where 'a = nat] by (simp add: TABLE_SIZE_def)
  with t have item: "table ! unat b < TABLE_SIZE" by (metis lessThan_iff nth_mem)
  then have "unat (of_nat (table ! unat b) :: u8) = table ! unat b"
    by (simp add: unat_of_nat take_bit_eq_mod TABLE_SIZE_def)
  moreover have "decrypt_table table ! (table ! unat b) = of_nat (0 + unat b)"
    unfolding decrypt_table_def
    by (rule fold_update_nth) (use t b in \<open>simp_all\<close>)
  ultimately show ?thesis using b by (simp add: encrypt_table_def)
qed

lemma table_process_code:
  "table_process data table = (Ok (code_from (\<lambda>_ b. table ! unat b) p data), table)"
proof -
  have "map (\<lambda>d. table ! unat d) data = code_from (\<lambda>_ b. table ! unat b) p data"
    by (induction data arbitrary: p) simp_all
  then show ?thesis by (simp add: table_process_def)
qed

interpretation table: cipher_pair
  table_process "\<lambda>c _ _. c = encrypt_table (sorted_table a)" "\<lambda>_ b. encrypt_table (sorted_table a) ! unat b"
  table_process "\<lambda>c _ _. c = decrypt_table (sorted_table a)" "\<lambda>_ b. decrypt_table (sorted_table a) ! unat b"
  for a
  by unfold_locales
    (simp_all add: table_process_code decrypt_encrypt_table [OF sorted_table_perm])

text \<open>For every key, the table cipher's decryption undoes its encryption, whatever way the data and
  the ciphertext are cut.\<close>

lemma table_round_trip:
  assumes "8 \<le> length (md5 lib key)"
  shows "\<exists>e d ys e'. TableCipher_new lib key Encrypt = Ok e \<and> TableCipher_new lib key Decrypt = Ok d \<and>
    update_all table_process xss e = (Ok ys, e') \<and> length ys = length (concat xss) \<and>
    (\<forall>yss. concat yss = ys \<longrightarrow> (\<exists>d'. update_all table_process yss d = (Ok (concat xss), d')))"
proof -
  let ?t = "sorted_table (le_value (take 8 (md5 lib key)))"
  have new: "TableCipher_new lib key Encrypt = Ok (encrypt_table ?t)"
    "TableCipher_new lib key Decrypt = Ok (decrypt_table ?t)"
    using assms by (simp_all add: TableCipher_new_def Let_def)
  obtain ys e' where ys: "update_all table_process xss (encrypt_table ?t) = (Ok ys, e')"
      "length ys = length (concat xss)"
      "\<forall>yss. concat yss = ys \<longrightarrow>
        (\<exists>d'. update_all table_process yss (decrypt_table ?t) = (Ok (concat xss), d'))"
    using table.chunked_round_trip [OF refl refl le_refl, of xss "le_value (take 8 (md5 lib key))"]
    by (elim exE conjE)
  show ?thesis
    by (rule exI [of _ "encrypt_table ?t"], rule exI [of _ "decrypt_table ?t"], rule exI [of _ ys],
        rule exI [of _ e'], intro conjI new ys)
qed

lemma table_round_trip_instance:
  "\<exists>e d ys e'. TableCipher_new sample_lib [1] Encrypt = Ok e \<and> TableCipher_new sample_lib [1] Decrypt = Ok d \<and>
    update_all table_process [[104, 105], [33]] e = (Ok ys, e') \<and> length ys = 3 \<and>
    (\<exists>d'. update_all table_process [ys] d = (Ok [104, 105, 33], d'))"
proof -
  have "8 \<le> length (md5 sample_lib [1])" by (simp add: sample_lib_def)
  then obtain e d ys e' where ed: "TableCipher_new sample_lib [1] Encrypt = Ok e"
      "TableCipher_new sample_lib [1] Decrypt = Ok d"
    and ys: "update_all table_process [[104, 105], [33]] e = (Ok ys, e')"
      "length ys = length (concat [[104, 105], [33 :: u8]])"
      "\<forall>yss. concat yss = ys \<longrightarrow>
        (\<exists>d'. update_all table_process yss d = (Ok (concat [[104, 105], [33]]), d'))"
    by (rule table_round_trip [of sample_lib "[1]" "[[104, 105], [33]]", THEN exE]) (elim exE conjE)
  have "length ys = 3" "\<exists>d'. update_all table_process [ys] d = (Ok [104, 105, 33], d')"
    using ys(2) ys(3) [rule_format, of "[ys]"] by simp_all
  then show ?thesis
    by - (rule exI [of _ e], rule exI [of _ d], rule exI [of _ ys], rule exI [of _ e'], intro conjI ed ys(1))
qed

subsection \<open>The libsodium stream ciphers\<close>

text \<open>What libsodium documents of its stream functions: the output is the input combined with a key
  stream that depends on the function, the key and the nonce only, from the 64-byte block \<open>ic\<close> on, as
  long as the block counter (32 bits for the IETF variant, 64 bits otherwise) does not run out.\<close>

definition stream_limit :: "sodium_fn \<Rightarrow> nat" where
  "stream_limit f = SODIUM_BLOCK_SIZE * (if f = chacha20_ietf_xor_ic then 2 ^ 32 else 2 ^ 64)"

definition keystream_law ::
  "'k stream_lib \<Rightarrow> (sodium_fn \<Rightarrow> u8 list \<Rightarrow> u8 list \<Rightarrow> nat \<Rightarrow> u8) \<Rightarrow> bool" where
  "keystream_law lib ks \<longleftrightarrow> (\<forall>f ic iv key data.
     SODIUM_BLOCK_SIZE * ic + length data \<le> stream_limit f \<longrightarrow>
     sodium_xor lib f ic iv key data =
       Some (code_from (\<lambda>p b. b XOR ks f iv key p) (SODIUM_BLOCK_SIZE * ic) data))"

fun sodium_fn_of :: "cipher_type \<Rightarrow> sodium_fn" where
  "sodium_fn_of ChaCha20 = chacha20_xor_ic"
| "sodium_fn_of ChaCha20Ietf = chacha20_ietf_xor_ic"
| "sodium_fn_of Salsa20 = salsa20_xor_ic"
| "sodium_fn_of _ = xsalsa20_xor_ic"

definition sodium_at ::
  "'k stream_lib \<Rightarrow> (sodium_fn \<Rightarrow> u8 list \<Rightarrow> u8 list \<Rightarrow> nat \<Rightarrow> u8) \<Rightarrow> cipher_type \<Rightarrow> u8 list \<Rightarrow> u8 list \<Rightarrow>
    sodium_stream \<Rightarrow> nat \<Rightarrow> nat \<Rightarrow> bool" where
  "sodium_at lib ks t key iv c p n \<longleftrightarrow> keystream_law lib ks \<and> is_sodium_stream t \<and>
     c = \<lparr>ss_type = t, ss_key = key, ss_iv = iv, ss_counter = p\<rparr> \<and> p + n < stream_limit (sodium_fn_of t)"

lemma xor_ic_keystream:
  assumes "keystream_law lib ks" "is_sodium_stream t"
    "SODIUM_BLOCK_SIZE * ic + length data < stream_limit (sodium_fn_of t)"
  shows "crypto_stream_xor_ic lib t ic iv key data =
    Ok (code_from (\<lambda>p b. b XOR ks (sodium_fn_of t) iv key p) (SODIUM_BLOCK_SIZE * ic) data)"
proof -
  have "ic < 2 ^ 32" if "t = ChaCha20Ietf"
    using assms(3) that by (simp add: stream_limit_def SODIUM_BLOCK_SIZE_def)
  then show ?thesis
    using assms unfolding is_sodium_stream_def keystream_law_def
    by (auto simp: crypto_stream_xor_ic_def)
qed

lemma sodium_process_code:
  assumes "sodium_at lib ks t key iv c p n" "length data \<le> n"
  shows "sodium_process lib data c =
    (Ok (code_from (\<lambda>p b. b XOR ks (sodium_fn_of t) iv key p) p data), c\<lparr>ss_counter := p + length data\<rparr>)"
proof -
  let ?code = "\<lambda>p b. b XOR ks (sodium_fn_of t) iv key p"
  let ?pad = "p mod SODIUM_BLOCK_SIZE" and ?ic = "p div SODIUM_BLOCK_SIZE"
  have split: "SODIUM_BLOCK_SIZE * ?ic + ?pad = p" by simp
  from assms have "crypto_stream_xor_ic lib t ?ic iv key (replicate ?pad 0 @ data) =
      Ok (code_from ?code (SODIUM_BLOCK_SIZE * ?ic) (replicate ?pad 0 @ data))"
    by (intro xor_ic_keystream) (simp_all add: sodium_at_def)
  with assms(1) show ?thesis
    by (simp add: sodium_process_def sodium_at_def padding_len_def Let_def code_from_append split)
qed

interpretation sodium: cipher_pair
  "sodium_process lib" "sodium_at lib ks t key iv" "\<lambda>p b. b XOR ks (sodium_fn_of t) iv key p"
  "sodium_process lib" "sodium_at lib ks t key iv" "\<lambda>p b. b XOR ks (sodium_fn_of t) iv key p"
  for lib ks t key iv
proof unfold_locales
  fix c p n and data :: "u8 list"
  assume "sodium_at lib ks t key iv c p n" "length data \<le> n"
  then show "\<exists>c'. sodium_process lib data c =
      (Ok (code_from (\<lambda>p b. b XOR ks (sodium_fn_of t) iv key p) p data), c') \<and>
      sodium_at lib ks t key iv c' (p + length data) (n - length data)"
    by (simp add: sodium_process_code) (simp add: sodium_at_def)
qed (simp add: xor.assoc)

text \<open>Two libsodium streams started with the same key and nonce are inverse to each other, whatever
  way the data and the ciphertext are cut and although every call restarts in the middle of a
  64-byte block, up to the number of bytes the block counter can address.\<close>

lemma sodium_round_trip:
  assumes "keystream_law lib ks" "is_sodium_stream t"
    and "length (concat xss) < stream_limit (sodium_fn_of t)"
  shows "\<exists>c ys e'. SodiumStreamCipher_new t key iv = Ok c \<and>
    update_all (sodium_process lib) xss c = (Ok ys, e') \<and> length ys = length (concat xss) \<and>
    (\<forall>yss. concat yss = ys \<longrightarrow> (\<exists>d'. update_all (sodium_process lib) yss c = (Ok (concat xss), d')))"
proof -
  let ?c = "\<lparr>ss_type = t, ss_key = key, ss_iv = iv, ss_counter = 0\<rparr>"
  have "SodiumStreamCipher_new t key iv = Ok ?c" using assms(2) by (simp add: SodiumStreamCipher_new_def)
  moreover have "sodium_at lib ks t key iv ?c 0 (length (concat xss))"
    using assms by (simp add: sodium_at_def)
  note sodium.chunked_round_trip [OF this this le_refl]
  ultimately show ?thesis by blast
qed

definition sample_stream_lib :: "unit stream_lib" where
  "sample_stream_lib = crypto_lib.extend sample_lib
     (stream_lib.fields
       (\<lambda>f ic iv key data. Some (code_from (\<lambda>p b. b XOR of_nat p) (SODIUM_BLOCK_SIZE * ic) data))
       (\<lambda>c m key iv. Some ()) (\<lambda>k data. Some (data, k)) (\<lambda>k. Some ([], k)) (\<lambda>c. 1))"

lemma sample_keystream: "keystream_law sample_stream_lib (\<lambda>f iv key p. of_nat p)"
  by (simp add: keystream_law_def sample_stream_lib_def crypto_lib.extend_def stream_lib.fields_def)

lemma sodium_round_trip_instance:
  "\<exists>c ys e'. SodiumStreamCipher_new ChaCha20Ietf [1] [2] = Ok c \<and>
    update_all (sodium_process sample_stream_lib) [[104, 105], [33]] c = (Ok ys, e') \<and>
    (\<exists>d'. update_all (sodium_process sample_stream_lib) [ys] c = (Ok [104, 105, 33], d'))"
proof -
  have t: "is_sodium_stream ChaCha20Ietf"
      "length (concat [[104, 105], [33 :: u8]]) < stream_limit (sodium_fn_of ChaCha20Ietf)"
    by (simp_all add: is_sodium_stream_def stream_limit_def SODIUM_BLOCK_SIZE_def)
  obtain c ys e' where c: "SodiumStreamCipher_new ChaCha20Ietf [1] [2] = Ok c"
      "update_all (sodium_process sample_stream_lib) [[104, 105], [33]] c = (Ok ys, e')"
    and ys: "\<forall>yss. concat yss = ys \<longrightarrow> (\<exists>d'. update_all (sodium_process sample_stream_lib) yss c =
        (Ok (concat [[104, 105], [33]]), d'))"
    using sodium_round_trip [OF sample_keystream t, of "[1]" "[2]"] by (elim exE conjE)
  from ys [rule_format, of "[ys]"]
  have "\<exists>d'. update_all (sodium_process sample_stream_lib) [ys] c = (Ok [104, 105, 33], d')" by simp
  then show ?thesis by - (rule exI [of _ c], rule exI [of _ ys], rule exI [of _ e'], intro conjI c)
qed

subsection \<open>Round trips behind the trait object\<close>

lemma byte_cipher_within:
  assumes "byte_cipher upd at code" "\<And>data x. big data (wrap x) = within wrap (upd data) x"
  shows "byte_cipher big (\<lambda>c p n. \<exists>x. c = wrap x \<and> at x p n) code"
proof
  fix c p n and data :: "u8 list"
  assume "\<exists>x. c = wrap x \<and> at x p n" "length data \<le> n"
  then obtain x x' where "c = wrap x" "upd data x = (Ok (code_from code p data), x')"
      "at x' (p + length data) (n - length data)"
    using byte_cipher.upd_step [OF assms(1)] by metis
  then show "\<exists>c'. big data c = (Ok (code_from code p data), c') \<and>
      (\<exists>x. c' = wrap x \<and> at x (p + length data) (n - length data))"
    by (auto simp: assms(2) within_def)
qed

lemma cipher_pair_within:
  assumes "cipher_pair eupd eat ecode dupd dat dcode"
    "\<And>data x. big data (wrap x) = within wrap (eupd data) x"
    "\<And>data x. big data (wrap x) = within wrap (dupd data) x"
  shows "cipher_pair big (\<lambda>c p n. \<exists>x. c = wrap x \<and> eat x p n) ecode
    big (\<lambda>c p n. \<exists>x. c = wrap x \<and> dat x p n) dcode"
  using assms(1) unfolding cipher_pair_def
  by (auto intro!: byte_cipher_within [where wrap = wrap] assms(2,3))

interpretation table_box: cipher_pair
  "stream_update lib" "\<lambda>c p n. \<exists>x. c = TableCipher x \<and> x = encrypt_table (sorted_table a)"
    "\<lambda>_ b. encrypt_table (sorted_table a) ! unat b"
  "stream_update lib" "\<lambda>c p n. \<exists>x. c = TableCipher x \<and> x = decrypt_table (sorted_table a)"
    "\<lambda>_ b. decrypt_table (sorted_table a) ! unat b" for lib a
  by (rule cipher_pair_within [OF table.cipher_pair_axioms]) simp_all

interpretation dummy_box: cipher_pair
  "stream_update lib" "\<lambda>c p n. c = DummyCipher" "\<lambda>_ b. b"
  "stream_update lib" "\<lambda>c p n. c = DummyCipher" "\<lambda>_ b. b" for lib
proof -
  have "code_from (\<lambda>_ b. b) p data = data" for p data by (induction data arbitrary: p) simp_all
  then show "cipher_pair (stream_update lib) (\<lambda>c p n. c = DummyCipher) (\<lambda>_ b. b)
      (stream_update lib) (\<lambda>c p n. c = DummyCipher) (\<lambda>_ b. b)"
    by unfold_locales simp_all
qed

interpretation sodium_box: cipher_pair
  "stream_update lib" "\<lambda>c p n. \<exists>x. c = SodiumCipher x \<and> sodium_at lib ks t key iv x p n"
    "\<lambda>p b. b XOR ks (sodium_fn_of t) iv key p"
  "stream_update lib" "\<lambda>c p n. \<exists>x. c = SodiumCipher x \<and> sodium_at lib ks t key iv x p n"
    "\<lambda>p b. b XOR ks (sodium_fn_of t) iv key p" for lib ks t key iv
  by (rule cipher_pair_within [OF sodium.cipher_pair_axioms]) simp_all

text \<open>The stream types whose cipher is the program's own or libsodium's, and the bytes one session can
  carry.\<close>

definition own_stream :: "cipher_type \<Rightarrow> bool" where
  "own_stream t \<longleftrightarrow> t = Table \<or> t = Plain \<or> is_sodium_stream t"

definition stream_room :: "cipher_type \<Rightarrow> nat \<Rightarrow> bool" where
  "stream_room t n \<longleftrightarrow> (is_sodium_stream t \<longrightarrow> n < stream_limit (sodium_fn_of t))"

definition stream_opens :: "'k stream_lib \<Rightarrow> 'k stream_cipher \<Rightarrow> 'k stream_cipher \<Rightarrow> u8 list list \<Rightarrow> bool" where
  "stream_opens lib e d xss \<longleftrightarrow> (\<exists>yss e'. update_list (stream_update lib) xss e = (Ok yss, e') \<and>
     map length yss = map length xss \<and>
     (\<forall>zss. concat zss = concat yss \<longrightarrow> (\<exists>outs d'. update_list (stream_update lib) zss d = (Ok outs, d') \<and>
       map length outs = map length zss \<and> concat outs = concat xss)))"

lemma new_stream_pair:
  assumes "keystream_law lib ks" "8 \<le> length (md5 lib key)" "own_stream t"
    and "stream_room t (length (concat xss))"
  shows "\<exists>e d. new_stream lib t key iv Encrypt = Ok e \<and> new_stream lib t key iv Decrypt = Ok d \<and>
    stream_opens lib e d xss"
proof -
  consider "t = Table" | "t = Plain" | "is_sodium_stream t" using assms(3) by (auto simp: own_stream_def)
  then show ?thesis
  proof cases
    case 1
    let ?t = "sorted_table (le_value (take 8 (md5 lib key)))"
    have "new_stream lib t key iv Encrypt = Ok (TableCipher (encrypt_table ?t))"
      "new_stream lib t key iv Decrypt = Ok (TableCipher (decrypt_table ?t))"
      using 1 assms(2) by (simp_all add: new_stream_def TableCipher_new_def Let_def crypto_lib.truncate_def)
    moreover have "stream_opens lib (TableCipher (encrypt_table ?t)) (TableCipher (decrypt_table ?t)) xss"
      unfolding stream_opens_def
      by (rule table_box.chunked_list_round_trip [OF exI exI le_refl, OF conjI conjI, OF refl refl refl refl])
    ultimately show ?thesis by blast
  next
    case 2
    have "stream_opens lib DummyCipher DummyCipher xss"
      unfolding stream_opens_def by (rule dummy_box.chunked_list_round_trip [OF refl refl le_refl])
    with 2 show ?thesis by (simp add: new_stream_def)
  next
    case 3
    let ?c = "\<lparr>ss_type = t, ss_key = key, ss_iv = iv, ss_counter = 0\<rparr>"
    have new: "new_stream lib t key iv m = Ok (SodiumCipher ?c)" for m
      using 3 by (auto simp: new_stream_def is_sodium_stream_def SodiumStreamCipher_new_def)
    have "sodium_at lib ks t key iv ?c 0 (length (concat xss))"
      using assms 3 by (simp add: sodium_at_def stream_room_def)
    then have at: "\<exists>x. SodiumCipher ?c = SodiumCipher x \<and> sodium_at lib ks t key iv x 0 (length (concat xss))"
      by blast
    have "stream_opens lib (SodiumCipher ?c) (SodiumCipher ?c) xss"
      unfolding stream_opens_def by (rule sodium_box.chunked_list_round_trip [OF at at le_refl])
    with new show ?thesis by blast
  qed
qed

subsection \<open>Which ciphers can be started\<close>

text \<open>With libraries that know every algorithm and accept every key, a stream cipher is started for
  exactly the stream types other than the bare RC4 and the 8-bit feedback modes of AES, which the
  configuration accepts by name but no branch of the constructor serves.\<close>

lemma new_stream_starts:
  assumes "\<And>c. ssl_known lib c" "\<And>c m k v. crypter_new lib c m k v \<noteq> None" "8 \<le> length (md5 lib key)"
  shows "(\<exists>c. new_stream lib t key iv mode = Ok c) \<longleftrightarrow>
    category t = Stream \<and> t \<notin> {Rc4, Aes128Cfb8, Aes192Cfb8, Aes256Cfb8}"
proof -
  have crypter: "\<exists>k. crypter_new lib c mode key' v = Some k" for c key' v
    using assms(2) by (simp add: option.expand)
  have nid: "from_nid (libs lib) c = Ok c" for c
    using assms(1) by (simp add: from_nid_def crypto_lib.truncate_def)
  have "\<exists>c. TableCipher_new (libs lib) key mode = Ok c"
    using assms(3) by (simp add: TableCipher_new_def Let_def crypto_lib.truncate_def)
  moreover have "\<exists>c. OpenSSLCrypto_new lib t key' v mode = Ok c" if "ssl_cipher_for (libs lib) t = Ok k" for t k key' v
    using crypter [of k key' v] that by (auto simp: OpenSSLCrypto_new_def)
  moreover have "OpenSSLCrypto_new lib t key' v mode = Panic" if "ssl_cipher_for (libs lib) t = Panic" for t key' v
    using that by (simp add: OpenSSLCrypto_new_def)
  ultimately show ?thesis
    by (cases t) (simp_all add: new_stream_def SodiumStreamCipher_new_def is_sodium_stream_def
        Rc4Md5Cipher_new_def Let_def nid chain_eq_Ok)
qed

lemma new_stream_starts_instance:
  "(\<exists>c. new_stream sample_stream_lib Aes128Cfb [1] [2] Encrypt = Ok c) \<and>
   \<not> (\<exists>c. new_stream sample_stream_lib Aes128Cfb8 [1] [2] Encrypt = Ok c)"
proof -
  have lib: "ssl_known sample_stream_lib c" "crypter_new sample_stream_lib c m k v \<noteq> None"
      "8 \<le> length (md5 sample_stream_lib [1])" for c m k v
    by (simp_all add: sample_stream_lib_def sample_lib_def crypto_lib.extend_def stream_lib.fields_def)
  show ?thesis
    using new_stream_starts [where lib = sample_stream_lib and key = "[1]", OF lib, of Aes128Cfb "[2]" Encrypt]
      new_stream_starts [where lib = sample_stream_lib and key = "[1]", OF lib, of Aes128Cfb8 "[2]" Encrypt]
    by simp
qed

end
