(* ===== verification/Aead_Ciphers.thy ===== *)
theory Aead_Ciphers
  imports Stream_Ciphers
begin

text \<open>
  The authenticated ciphers of the crypto crate: the session key and the nonce of \<^verbatim>\<open>aead.rs\<close>,
  the three implementations of \<^verbatim>\<open>ring.rs\<close>, \<^verbatim>\<open>sodium.rs\<close> and \<^verbatim>\<open>siv.rs\<close>, and the choice
  between them.

  The sealing and opening functions, the key derivation and \<^verbatim>\<open>sodium_increment\<close> are third-party
  code and the operations of \<open>aead_lib\<close>; \<open>aead_laws\<close> is what their manuals promise.  An
  operation that fills an output slice takes the slice's length and returns its new content.
\<close>

datatype siv_alg = Aes128Siv | Aes256Siv

record 'k aead_lib = "'k stream_lib" +
  hkdf :: "u8 list \<Rightarrow> u8 list \<Rightarrow> u8 list \<Rightarrow> nat \<Rightarrow> u8 list"            \<comment> \<open>salt, key, info, length\<close>
  ring_seal :: "ring_alg \<Rightarrow> u8 list \<Rightarrow> u8 list \<Rightarrow> u8 list \<Rightarrow> u8 list option"
  ring_open :: "ring_alg \<Rightarrow> u8 list \<Rightarrow> u8 list \<Rightarrow> u8 list \<Rightarrow> u8 list option"
  xchacha_encrypt :: "u8 list \<Rightarrow> u8 list \<Rightarrow> u8 list \<Rightarrow> u8 list option"
  xchacha_decrypt :: "u8 list \<Rightarrow> u8 list \<Rightarrow> u8 list \<Rightarrow> u8 list option"
  siv_seal :: "siv_alg \<Rightarrow> u8 list \<Rightarrow> u8 list \<Rightarrow> u8 list \<Rightarrow> u8 list"
  siv_open :: "siv_alg \<Rightarrow> u8 list \<Rightarrow> u8 list \<Rightarrow> u8 list \<Rightarrow> u8 list option"
  sodium_increment :: "u8 list \<Rightarrow> u8 list"

abbreviation clib :: "'k aead_lib \<Rightarrow> crypto_lib" where
  "clib lib \<equiv> crypto_lib.truncate lib"

subsection \<open>Session keys and nonces\<close>

definition SUBKEY_INFO :: "u8 list" where "SUBKEY_INFO = as_bytes ''ss-subkey''"

definition make_skey :: "'k aead_lib \<Rightarrow> cipher_type \<Rightarrow> u8 list \<Rightarrow> u8 list \<Rightarrow> u8 list outcome" where
  "make_skey lib t key salt =
     (if category t = Aead then Ok (hkdf lib salt key SUBKEY_INFO (length key)) else Panic)"

definition increase_nonce :: "'k aead_lib \<Rightarrow> u8 list \<Rightarrow> u8 list" where
  "increase_nonce lib nonce = sodium_increment lib nonce"

text \<open>The variant compiled without libsodium.\<close>

fun increase_loop :: "u16 \<Rightarrow> u8 list \<Rightarrow> u8 list" where
  "increase_loop prev [] = []"
| "increase_loop prev (i # is) =
     (let prev = prev + ucast i in ucast prev # increase_loop (drop_bit 8 prev) is)"

definition increase_nonce_portable :: "u8 list \<Rightarrow> u8 list" where
  "increase_nonce_portable nonce = increase_loop 1 nonce"

subsection \<open>ring\<close>

datatype ring_variant = Seal ring_alg "u8 list" "u8 list" | Open ring_alg "u8 list" "u8 list"

record ring_cipher =
  ra_cipher :: ring_variant
  ra_type :: cipher_type
  ra_key :: "u8 list"
  ra_nonce :: "u8 list"

fun ring_alg_of :: "cipher_type \<Rightarrow> ring_alg outcome" where
  "ring_alg_of Aes128Gcm = Ok AES_128_GCM"
| "ring_alg_of Aes256Gcm = Ok AES_256_GCM"
| "ring_alg_of ChaCha20IetfPoly1305 = Ok CHACHA20_POLY1305"
| "ring_alg_of _ = Panic"

definition new_variant ::
  "'k aead_lib \<Rightarrow> cipher_type \<Rightarrow> u8 list \<Rightarrow> u8 list \<Rightarrow> bool \<Rightarrow> ring_variant outcome" where
  "new_variant lib t key nonce is_seal =
     chain (ring_alg_of t) (\<lambda>alg.
     if length key = ring_key_len lib alg
     then Ok (if is_seal then Seal alg key nonce else Open alg key nonce)
     else Panic)"

definition RingAeadCipher_new ::
  "'k aead_lib \<Rightarrow> cipher_type \<Rightarrow> u8 list \<Rightarrow> u8 list \<Rightarrow> bool \<Rightarrow> ring_cipher outcome" where
  "RingAeadCipher_new lib t key salt is_seal =
     chain (iv_size (clib lib) t) (\<lambda>nonce_size.
     let nonce = replicate nonce_size 0 in
     chain (make_skey lib t key salt) (\<lambda>skey.
     chain (new_variant lib t skey nonce is_seal) (\<lambda>cipher.
     Ok \<lparr>ra_cipher = cipher, ra_type = t, ra_key = skey, ra_nonce = nonce\<rparr>)))"

definition ring_reset :: "'k aead_lib \<Rightarrow> (ring_cipher, unit) rust" where
  "ring_reset lib = (\<lambda>c.
     let c = c\<lparr>ra_nonce := increase_nonce lib (ra_nonce c)\<rparr>;
         is_seal = (case ra_cipher c of Seal _ _ _ \<Rightarrow> True | Open _ _ _ \<Rightarrow> False) in
     case new_variant lib (ra_type c) (ra_key c) (ra_nonce c) is_seal of
       Ok var \<Rightarrow> (Ok (), c\<lparr>ra_cipher := var\<rparr>)
     | _ \<Rightarrow> (Panic, c))"

definition ring_encrypt :: "'k aead_lib \<Rightarrow> u8 list \<Rightarrow> nat \<Rightarrow> (ring_cipher, u8 list) rust" where
  "ring_encrypt lib input out_len = (\<lambda>c. case tag_size (clib lib) (ra_type c) of
       Ok tag_len \<Rightarrow>
         if out_len \<noteq> length input + tag_len then (Panic, c)
         else (case ra_cipher c of
             Seal alg key nonce \<Rightarrow>
               if length nonce \<noteq> ring_nonce_len lib alg then (Panic, c)
               else (case ring_seal lib alg key nonce input of
                   Some buf \<Rightarrow>
                     if length buf = out_len
                     then bind (ring_reset lib) (\<lambda>_. return buf) c
                     else (Panic, c)
                 | None \<Rightarrow> (Panic, c))
           | Open _ _ _ \<Rightarrow> (Panic, c))
     | _ \<Rightarrow> (Panic, c))"

definition ring_decrypt :: "'k aead_lib \<Rightarrow> u8 list \<Rightarrow> nat \<Rightarrow> (ring_cipher, u8 list) rust" where
  "ring_decrypt lib input out_len = (\<lambda>c. case tag_size (clib lib) (ra_type c) of
       Ok tag_len \<Rightarrow>
         if out_len + tag_len \<noteq> length input then (Panic, c)
         else (case ra_cipher c of
             Open alg key nonce \<Rightarrow>
               if length nonce \<noteq> ring_nonce_len lib alg then (Panic, c)
               else (case ring_open lib alg key nonce input of
                   Some obuf \<Rightarrow>
                     if length obuf = out_len
                     then bind (ring_reset lib) (\<lambda>_. return obuf) c
                     else (Panic, c)
                 | None \<Rightarrow> bind (ring_reset lib) (\<lambda>_. throw AeadDecryptFailed) c)
           | Seal _ _ _ \<Rightarrow> (Panic, c))
     | _ \<Rightarrow> (Panic, c))"

subsection \<open>libsodium\<close>

record sodium_cipher =
  sa_type :: cipher_type
  sa_key :: "u8 list"
  sa_nonce :: "u8 list"

definition SodiumAeadCipher_new ::
  "'k aead_lib \<Rightarrow> cipher_type \<Rightarrow> u8 list \<Rightarrow> u8 list \<Rightarrow> sodium_cipher outcome" where
  "SodiumAeadCipher_new lib t key salt =
     chain (iv_size (clib lib) t) (\<lambda>nonce_size.
     chain (make_skey lib t key salt) (\<lambda>skey.
     Ok \<lparr>sa_type = t, sa_key = skey, sa_nonce = replicate nonce_size 0\<rparr>))"

definition sodium_reset :: "'k aead_lib \<Rightarrow> sodium_cipher \<Rightarrow> sodium_cipher" where
  "sodium_reset lib c = c\<lparr>sa_nonce := increase_nonce lib (sa_nonce c)\<rparr>"

definition sodium_encrypt :: "'k aead_lib \<Rightarrow> u8 list \<Rightarrow> nat \<Rightarrow> (sodium_cipher, u8 list) rust" where
  "sodium_encrypt lib input out_len = (\<lambda>c. case tag_size (clib lib) (sa_type c) of
       Ok tag_len \<Rightarrow>
         if out_len < length input + tag_len \<or> sa_type c \<noteq> XChaCha20IetfPoly1305 then (Panic, c)
         else (case xchacha_encrypt lib (sa_nonce c) (sa_key c) input of
             Some out \<Rightarrow>
               if length out = out_len then (Ok out, sodium_reset lib c) else (Panic, sodium_reset lib c)
           | None \<Rightarrow> (Panic, sodium_reset lib c))
     | _ \<Rightarrow> (Panic, c))"

definition sodium_decrypt :: "'k aead_lib \<Rightarrow> u8 list \<Rightarrow> nat \<Rightarrow> (sodium_cipher, u8 list) rust" where
  "sodium_decrypt lib input out_len = (\<lambda>c. case tag_size (clib lib) (sa_type c) of
       Ok tag_len \<Rightarrow>
         if length input < tag_len \<or> out_len < length input - tag_len \<or>
            sa_type c \<noteq> XChaCha20IetfPoly1305 then (Panic, c)
         else (case xchacha_decrypt lib (sa_nonce c) (sa_key c) input of
             Some out \<Rightarrow>
               if length out = out_len then (Ok out, sodium_reset lib c)
               else (Err SodiumError, sodium_reset lib c)
           | None \<Rightarrow> (Err SodiumError, sodium_reset lib c))
     | _ \<Rightarrow> (Panic, c))"

subsection \<open>Miscreant\<close>

record siv_cipher =
  siv_type :: cipher_type
  siv_variant :: "siv_alg \<times> u8 list"
  siv_nonce :: "u8 list"

definition siv_new_variant :: "cipher_type \<Rightarrow> u8 list \<Rightarrow> (siv_alg \<times> u8 list) outcome" where
  "siv_new_variant t key =
     (if t = Aes128PmacSiv then (if length key = 32 then Ok (Aes128Siv, key) else Panic)
      else if t = Aes256PmacSiv then (if length key = 64 then Ok (Aes256Siv, key) else Panic)
      else Panic)"

definition MiscreantCipher_new ::
  "'k aead_lib \<Rightarrow> cipher_type \<Rightarrow> u8 list \<Rightarrow> u8 list \<Rightarrow> siv_cipher outcome" where
  "MiscreantCipher_new lib t key salt =
     chain (iv_size (clib lib) t) (\<lambda>nonce_size.
     chain (make_skey lib t key salt) (\<lambda>skey.
     chain (siv_new_variant t skey) (\<lambda>cipher.
     Ok \<lparr>siv_type = t, siv_variant = cipher, siv_nonce = replicate nonce_size 0\<rparr>)))"

definition siv_step :: "'k aead_lib \<Rightarrow> siv_cipher \<Rightarrow> siv_cipher" where
  "siv_step lib c = c\<lparr>siv_nonce := increase_nonce lib (siv_nonce c)\<rparr>"

definition siv_encrypt :: "'k aead_lib \<Rightarrow> u8 list \<Rightarrow> nat \<Rightarrow> (siv_cipher, u8 list) rust" where
  "siv_encrypt lib input out_len = (\<lambda>c. case tag_size (clib lib) (siv_type c) of
       Ok tag_len \<Rightarrow>
         (let (alg, key) = siv_variant c;
              buf = siv_seal lib alg key (siv_nonce c) input in
          if out_len = length input + tag_len \<and> length buf = length input + tag_len
          then (Ok (drop tag_len buf @ take tag_len buf), siv_step lib c)
          else (Panic, c))
     | _ \<Rightarrow> (Panic, c))"

definition siv_decrypt :: "'k aead_lib \<Rightarrow> u8 list \<Rightarrow> nat \<Rightarrow> (siv_cipher, u8 list) rust" where
  "siv_decrypt lib input out_len = (\<lambda>c. case tag_size (clib lib) (siv_type c) of
       Ok tag_len \<Rightarrow>
         if length input < tag_len then (Panic, c)
         else
           (let n = length input - tag_len;
                buf = drop n input @ take n input;
                (alg, key) = siv_variant c in
            case siv_open lib alg key (siv_nonce c) buf of
              Some out \<Rightarrow> if length out = out_len then (Ok out, siv_step lib c) else (Panic, c)
            | None \<Rightarrow> (Err AeadDecryptFailed, c))
     | _ \<Rightarrow> (Panic, c))"

subsection \<open>The variants behind the trait objects\<close>

datatype aead_cipher = RingC ring_cipher | SodiumC sodium_cipher | SivC siv_cipher

definition new_aead :: "'k aead_lib \<Rightarrow> bool \<Rightarrow> cipher_type \<Rightarrow> u8 list \<Rightarrow> u8 list \<Rightarrow> aead_cipher outcome" where
  "new_aead lib is_seal t key nonce =
     (if category t \<noteq> Aead then Panic
      else if t \<in> {Aes128Gcm, Aes256Gcm, ChaCha20IetfPoly1305}
        then chain (RingAeadCipher_new lib t key nonce is_seal) (\<lambda>c. Ok (RingC c))
      else if t = XChaCha20IetfPoly1305
        then chain (SodiumAeadCipher_new lib t key nonce) (\<lambda>c. Ok (SodiumC c))
      else chain (MiscreantCipher_new lib t key nonce) (\<lambda>c. Ok (SivC c)))"

definition new_aead_encryptor :: "'k aead_lib \<Rightarrow> cipher_type \<Rightarrow> u8 list \<Rightarrow> u8 list \<Rightarrow> aead_cipher outcome" where
  "new_aead_encryptor lib = new_aead lib True"

definition new_aead_decryptor :: "'k aead_lib \<Rightarrow> cipher_type \<Rightarrow> u8 list \<Rightarrow> u8 list \<Rightarrow> aead_cipher outcome" where
  "new_aead_decryptor lib = new_aead lib False"

fun aead_encrypt :: "'k aead_lib \<Rightarrow> u8 list \<Rightarrow> nat \<Rightarrow> (aead_cipher, u8 list) rust" where
  "aead_encrypt lib input n (RingC c) = within RingC (ring_encrypt lib input n) c"
| "aead_encrypt lib input n (SodiumC c) = within SodiumC (sodium_encrypt lib input n) c"
| "aead_encrypt lib input n (SivC c) = within SivC (siv_encrypt lib input n) c"

fun aead_decrypt :: "'k aead_lib \<Rightarrow> u8 list \<Rightarrow> nat \<Rightarrow> (aead_cipher, u8 list) rust" where
  "aead_decrypt lib input n (RingC c) = within RingC (ring_decrypt lib input n) c"
| "aead_decrypt lib input n (SodiumC c) = within SodiumC (sodium_decrypt lib input n) c"
| "aead_decrypt lib input n (SivC c) = within SivC (siv_decrypt lib input n) c"

subsection \<open>The nonce is a little-endian counter\<close>

lemma le_value_bound: "le_value bs < 256 ^ length bs"
proof (induction bs)
  case (Cons b bs)
  have "unat b < 256" using unsigned_less [of b, where 'a = nat] by simp
  with Cons show ?case by simp
qed simp

lemma le_value_inj: "length as = length bs \<Longrightarrow> le_value as = le_value bs \<Longrightarrow> as = bs"
proof (induction as bs rule: list_induct2)
  case (Cons a as b bs)
  have lt: "unat a < 256" "unat b < 256"
    using unsigned_less [of a, where 'a = nat] unsigned_less [of b, where 'a = nat] by simp_all
  have eq: "unat a + 256 * le_value as = unat b + 256 * le_value bs" using Cons.prems by simp
  then have "(unat a + 256 * le_value as) mod 256 = (unat b + 256 * le_value bs) mod 256" by (rule arg_cong)
  with lt have "unat a = unat b" by (simp only: mod_mult_self2 mod_less)
  with eq Cons.IH show ?case by (simp add: word_unat_eq_iff)
qed simp

lemma increase_loop_value:
  assumes "unat prev \<le> 1"
  shows "length (increase_loop prev bs) = length bs \<and>
    le_value (increase_loop prev bs) = (le_value bs + unat prev) mod 256 ^ length bs"
  using assms
proof (induction bs arbitrary: prev)
  case (Cons b bs)
  let ?s = "prev + ucast b :: u16"
  have b: "unat b < 256" using unsigned_less [of b, where 'a = nat] by simp
  have s: "unat ?s = unat prev + unat b"
    using Cons.prems b by (simp add: unat_word_ariths unsigned_ucast_eq take_bit_eq_mod)
  have lo: "unat (ucast ?s :: u8) = (unat prev + unat b) mod 256"
    by (simp add: unsigned_ucast_eq take_bit_eq_mod flip: s)
  have hi: "unat (drop_bit 8 ?s) = (unat prev + unat b) div 256"
    by (subst unat_drop_bit_eq) (simp add: drop_bit_eq_div s)
  then have "unat (drop_bit 8 ?s) \<le> 1" using Cons.prems b by simp
  from Cons.IH [OF this] hi
  have IH: "length (increase_loop (drop_bit 8 ?s) bs) = length bs"
      "le_value (increase_loop (drop_bit 8 ?s) bs) =
        (le_value bs + (unat prev + unat b) div 256) mod 256 ^ length bs" by simp_all
  let ?m = "unat b + 256 * le_value bs + unat prev"
  have "?m mod (256 * 256 ^ length bs) = 256 * (?m div 256 mod 256 ^ length bs) + ?m mod 256"
    by (rule mod_mult2_eq)
  moreover have m: "?m = (unat prev + unat b) + 256 * le_value bs" by simp
  have "?m div 256 = le_value bs + (unat prev + unat b) div 256"
    "?m mod 256 = (unat prev + unat b) mod 256" unfolding m by simp_all
  ultimately show ?case using IH lo by (simp add: Let_def)
qed simp

text \<open>C21: the portable nonce increment adds one to the nonce read as a little-endian number, wrapping
  around only when all its bytes are 255.\<close>

theorem increase_nonce_portable_counts:
  "length (increase_nonce_portable nonce) = length nonce \<and>
   le_value (increase_nonce_portable nonce) = (le_value nonce + 1) mod 256 ^ length nonce"
  using increase_loop_value [of 1 nonce] by (simp add: increase_nonce_portable_def)

subsection \<open>Sessions\<close>

text \<open>An encryptor and a decryptor in step: what one seals, the other opens, and both move on
  together.  The contract is stated for one message and lifted to a session.\<close>

fun encrypt_all :: "(u8 list \<Rightarrow> nat \<Rightarrow> ('c, u8 list) rust) \<Rightarrow> nat \<Rightarrow> u8 list list \<Rightarrow> ('c, u8 list list) rust" where
  "encrypt_all enc tag [] = return []"
| "encrypt_all enc tag (m # ms) =
     bind (enc m (length m + tag)) (\<lambda>c. bind (encrypt_all enc tag ms) (\<lambda>cs. return (c # cs)))"

fun decrypt_all :: "(u8 list \<Rightarrow> nat \<Rightarrow> ('c, u8 list) rust) \<Rightarrow> nat \<Rightarrow> u8 list list \<Rightarrow> ('c, u8 list list) rust" where
  "decrypt_all dec tag [] = return []"
| "decrypt_all dec tag (c # cs) =
     bind (dec c (length c - tag)) (\<lambda>m. bind (decrypt_all dec tag cs) (\<lambda>ms. return (m # ms)))"

locale aead_session =
  fixes enc :: "u8 list \<Rightarrow> nat \<Rightarrow> ('e, u8 list) rust"
    and dec :: "u8 list \<Rightarrow> nat \<Rightarrow> ('d, u8 list) rust"
    and tag :: nat
    and in_step :: "'e \<Rightarrow> 'd \<Rightarrow> bool"
  assumes step: "in_step e d \<Longrightarrow>
      \<exists>c e' d'. enc m (length m + tag) e = (Ok c, e') \<and> length c = length m + tag \<and>
        dec c (length m) d = (Ok m, d') \<and> in_step e' d'"
begin

lemma session:
  "in_step e d \<Longrightarrow>
     \<exists>cs e' d'. encrypt_all enc tag ms e = (Ok cs, e') \<and> map length cs = map (\<lambda>m. length m + tag) ms \<and>
       decrypt_all dec tag cs d = (Ok ms, d') \<and> in_step e' d'"
proof (induction ms arbitrary: e d)
  case (Cons m ms)
  obtain c e1 d1 where one: "enc m (length m + tag) e = (Ok c, e1)" "length c = length m + tag"
      "dec c (length m) d = (Ok m, d1)" "in_step e1 d1"
    using step [OF Cons.prems] by blast
  obtain cs e2 d2 where rest: "encrypt_all enc tag ms e1 = (Ok cs, e2)"
      "map length cs = map (\<lambda>m. length m + tag) ms" "decrypt_all dec tag cs d1 = (Ok ms, d2)" "in_step e2 d2"
    using Cons.IH [OF one(4)] by blast
  have "encrypt_all enc tag (m # ms) e = (Ok (c # cs), e2)"
    using one(1) rest(1) by (simp add: bind_def)
  moreover have "decrypt_all dec tag (c # cs) d = (Ok (m # ms), d2)"
    using one(2,3) rest(3) by (simp add: bind_def)
  ultimately show ?case using one(2) rest(2,4) by (intro exI [of _ "c # cs"] exI [of _ e2] exI [of _ d2]) simp
qed simp

end

text \<open>What the manuals promise: a sealed message opens under the same key and nonce and is longer by
  the tag, derived keys have the length asked for, and \<^verbatim>\<open>sodium_increment\<close> counts.\<close>

definition seals :: "nat \<Rightarrow> (u8 list \<Rightarrow> u8 list option) \<Rightarrow> (u8 list \<Rightarrow> u8 list option) \<Rightarrow> bool" where
  "seals tag seal open \<longleftrightarrow> (\<forall>m. \<exists>c. seal m = Some c \<and> length c = length m + tag \<and> open c = Some m)"

definition aead_laws :: "'k aead_lib \<Rightarrow> bool" where
  "aead_laws lib \<longleftrightarrow> documented_sizes (clib lib) \<and>
     (\<forall>salt key info n. length (hkdf lib salt key info n) = n) \<and>
     (\<forall>alg key nonce. length key = ring_key_len lib alg \<longrightarrow> length nonce = 12 \<longrightarrow>
        seals 16 (ring_seal lib alg key nonce) (ring_open lib alg key nonce)) \<and>
     (\<forall>key nonce. length key = 32 \<longrightarrow> length nonce = 24 \<longrightarrow>
        seals 16 (xchacha_encrypt lib nonce key) (xchacha_decrypt lib nonce key)) \<and>
     (\<forall>alg key nonce. length nonce = 8 \<longrightarrow>
        seals 16 (\<lambda>m. Some (siv_seal lib alg key nonce m)) (siv_open lib alg key nonce)) \<and>
     (\<forall>nonce. length (sodium_increment lib nonce) = length nonce \<and>
        le_value (sodium_increment lib nonce) = (le_value nonce + 1) mod 256 ^ length nonce)"

lemma aead_lawsD:
  assumes "aead_laws lib"
  shows "length (hkdf lib salt key info n) = n"
    and "length k = ring_key_len lib alg \<Longrightarrow> length nonce = 12 \<Longrightarrow>
      seals 16 (ring_seal lib alg k nonce) (ring_open lib alg k nonce)"
    and "length k = 32 \<Longrightarrow> length nonce = 24 \<Longrightarrow>
      seals 16 (xchacha_encrypt lib nonce k) (xchacha_decrypt lib nonce k)"
    and "length nonce = 8 \<Longrightarrow>
      seals 16 (\<lambda>m. Some (siv_seal lib siv k nonce m)) (siv_open lib siv k nonce)"
    and "length (increase_nonce lib nonce) = length nonce"
    and "le_value (increase_nonce lib nonce) = (le_value nonce + 1) mod 256 ^ length nonce"
    and "ring_nonce_len lib alg = 12" "ring_tag_len lib alg = 16"
  using assms
  by (simp_all add: aead_laws_def increase_nonce_def documented_sizes_def crypto_lib.truncate_def)

text \<open>The libraries' sizes, seen through the part of the record the cipher table reads.\<close>

lemma clib_fields [simp]:
  "ring_tag_len (clib lib) = ring_tag_len lib" "ring_nonce_len (clib lib) = ring_nonce_len lib"
  "ring_key_len (clib lib) = ring_key_len lib"
  by (simp_all add: crypto_lib.truncate_def)

subsubsection \<open>ring\<close>

definition ring_state :: "bool \<Rightarrow> ring_alg \<Rightarrow> cipher_type \<Rightarrow> u8 list \<Rightarrow> u8 list \<Rightarrow> ring_cipher" where
  "ring_state is_seal alg t key nonce =
     \<lparr>ra_cipher = (if is_seal then Seal alg key nonce else Open alg key nonce), ra_type = t,
      ra_key = key, ra_nonce = nonce\<rparr>"

definition ring_in_step :: "'k aead_lib \<Rightarrow> ring_cipher \<Rightarrow> ring_cipher \<Rightarrow> bool" where
  "ring_in_step lib e d \<longleftrightarrow> aead_laws lib \<and> (\<exists>alg t key nonce.
     ring_alg_of t = Ok alg \<and> length key = ring_key_len lib alg \<and> length nonce = 12 \<and>
     e = ring_state True alg t key nonce \<and> d = ring_state False alg t key nonce)"

lemma ring_tag: "ring_alg_of t = Ok alg \<Longrightarrow> tag_size (clib lib) t = Ok (ring_tag_len lib alg)"
  by (cases t) auto

lemma ring_reset_state:
  assumes "ring_alg_of t = Ok alg" "length key = ring_key_len lib alg"
  shows "ring_reset lib (ring_state b alg t key nonce) =
    (Ok (), ring_state b alg t key (increase_nonce lib nonce))"
  using assms by (simp add: ring_reset_def ring_state_def new_variant_def Let_def)

lemma ring_step:
  assumes "ring_in_step lib e d"
  shows "\<exists>c e' d'. ring_encrypt lib m (length m + 16) e = (Ok c, e') \<and> length c = length m + 16 \<and>
    ring_decrypt lib c (length m) d = (Ok m, d') \<and> ring_in_step lib e' d'"
proof -
  from assms obtain alg t key nonce where laws: "aead_laws lib" and t: "ring_alg_of t = Ok alg"
    and len: "length key = ring_key_len lib alg" "length nonce = 12"
    and st: "e = ring_state True alg t key nonce" "d = ring_state False alg t key nonce"
    by (auto simp: ring_in_step_def)
  note law = aead_lawsD [OF laws]
  obtain c where c: "ring_seal lib alg key nonce m = Some c" "length c = length m + 16"
      "ring_open lib alg key nonce c = Some m"
    using law(2) [OF len] by (auto simp: seals_def)
  have "ring_encrypt lib m (length m + 16) e = (Ok c, ring_state True alg t key (increase_nonce lib nonce))"
    using c len law(7,8)
    by (simp add: ring_encrypt_def st ring_state_def ring_tag [OF t])
      (simp add: bind_def ring_reset_state [OF t len(1), of True, unfolded ring_state_def, simplified])
  moreover have "ring_decrypt lib c (length m) d =
      (Ok m, ring_state False alg t key (increase_nonce lib nonce))"
    using c len law(7,8)
    by (simp add: ring_decrypt_def st ring_state_def ring_tag [OF t])
      (simp add: bind_def ring_reset_state [OF t len(1), of False, unfolded ring_state_def, simplified])
  moreover have "ring_in_step lib (ring_state True alg t key (increase_nonce lib nonce))
      (ring_state False alg t key (increase_nonce lib nonce))"
    using laws t len law(5) unfolding ring_in_step_def by metis
  ultimately show ?thesis using c(2) by blast
qed

interpretation ring: aead_session "ring_encrypt lib" "ring_decrypt lib" 16 "ring_in_step lib" for lib
  by unfold_locales (rule ring_step)

subsubsection \<open>libsodium\<close>

definition sodium_in_step :: "'k aead_lib \<Rightarrow> sodium_cipher \<Rightarrow> sodium_cipher \<Rightarrow> bool" where
  "sodium_in_step lib e d \<longleftrightarrow> aead_laws lib \<and> e = d \<and> sa_type e = XChaCha20IetfPoly1305 \<and>
     length (sa_key e) = 32 \<and> length (sa_nonce e) = 24"

lemma sodium_step:
  assumes "sodium_in_step lib e d"
  shows "\<exists>c e' d'. sodium_encrypt lib m (length m + 16) e = (Ok c, e') \<and> length c = length m + 16 \<and>
    sodium_decrypt lib c (length m) d = (Ok m, d') \<and> sodium_in_step lib e' d'"
proof -
  from assms have laws: "aead_laws lib" and d: "d = e"
    and e: "sa_type e = XChaCha20IetfPoly1305" "length (sa_key e) = 32" "length (sa_nonce e) = 24"
    by (auto simp: sodium_in_step_def)
  obtain c where c: "xchacha_encrypt lib (sa_nonce e) (sa_key e) m = Some c" "length c = length m + 16"
      "xchacha_decrypt lib (sa_nonce e) (sa_key e) c = Some m"
    using aead_lawsD(3) [OF laws e(2,3)] by (auto simp: seals_def)
  have "sodium_encrypt lib m (length m + 16) e = (Ok c, sodium_reset lib e)"
    using c e(1) by (simp add: sodium_encrypt_def)
  moreover have "sodium_decrypt lib c (length m) d = (Ok m, sodium_reset lib e)"
    using c e(1) d by (simp add: sodium_decrypt_def)
  moreover have "sodium_in_step lib (sodium_reset lib e) (sodium_reset lib e)"
    using laws e by (simp add: sodium_in_step_def sodium_reset_def aead_lawsD(5))
  ultimately show ?thesis using c(2) by blast
qed

interpretation sodium_aead: aead_session "sodium_encrypt lib" "sodium_decrypt lib" 16 "sodium_in_step lib" for lib
  by unfold_locales (rule sodium_step)

subsubsection \<open>Miscreant\<close>

definition siv_in_step :: "'k aead_lib \<Rightarrow> siv_cipher \<Rightarrow> siv_cipher \<Rightarrow> bool" where
  "siv_in_step lib e d \<longleftrightarrow> aead_laws lib \<and> e = d \<and> siv_type e \<in> {Aes128PmacSiv, Aes256PmacSiv} \<and>
     length (siv_nonce e) = 8"

lemma siv_step_session:
  assumes "siv_in_step lib e d"
  shows "\<exists>c e' d'. siv_encrypt lib m (length m + 16) e = (Ok c, e') \<and> length c = length m + 16 \<and>
    siv_decrypt lib c (length m) d = (Ok m, d') \<and> siv_in_step lib e' d'"
proof -
  from assms have laws: "aead_laws lib" and d: "d = e" and n: "length (siv_nonce e) = 8"
    and tag: "tag_size (clib lib) (siv_type e) = Ok 16"
    by (auto simp: siv_in_step_def)
  obtain alg key where v: "siv_variant e = (alg, key)" by (cases "siv_variant e")
  let ?c = "siv_seal lib alg key (siv_nonce e) m"
  have c: "length ?c = length m + 16" "siv_open lib alg key (siv_nonce e) ?c = Some m"
    using aead_lawsD(4) [OF laws n] by (auto simp: seals_def)
  have "siv_encrypt lib m (length m + 16) e = (Ok (drop 16 ?c @ take 16 ?c), siv_step lib e)"
    using c by (simp add: siv_encrypt_def tag v Let_def)
  moreover have "siv_decrypt lib (drop 16 ?c @ take 16 ?c) (length m) d = (Ok m, siv_step lib e)"
    using c d by (simp add: siv_decrypt_def tag v Let_def)
  moreover have "siv_in_step lib (siv_step lib e) (siv_step lib e)"
    using assms laws d by (simp add: siv_in_step_def siv_step_def aead_lawsD(5))
  ultimately show ?thesis using c(1) by (intro exI [of _ "drop 16 ?c @ take 16 ?c"]) auto
qed

interpretation siv: aead_session "siv_encrypt lib" "siv_decrypt lib" 16 "siv_in_step lib" for lib
  by unfold_locales (rule siv_step_session)

subsubsection \<open>Any of them\<close>

definition aead_in_step :: "'k aead_lib \<Rightarrow> aead_cipher \<Rightarrow> aead_cipher \<Rightarrow> bool" where
  "aead_in_step lib e d \<longleftrightarrow>
     (\<exists>x y. e = RingC x \<and> d = RingC y \<and> ring_in_step lib x y) \<or>
     (\<exists>x y. e = SodiumC x \<and> d = SodiumC y \<and> sodium_in_step lib x y) \<or>
     (\<exists>x y. e = SivC x \<and> d = SivC y \<and> siv_in_step lib x y)"

lemma within_Ok: "m c = (Ok x, c') \<Longrightarrow> within wrap m c = (Ok x, wrap c')"
  by (simp add: within_def)

lemma lift_step:
  assumes "\<exists>c x' y'. enc x = (Ok c, x') \<and> length c = n \<and> dec c k y = (Ok m, y') \<and> P x' y'"
  shows "\<exists>c e' d'. within f enc x = (Ok c, e') \<and> length c = n \<and> within g (dec c k) y = (Ok m, d') \<and>
    (\<exists>x' y'. e' = f x' \<and> d' = g y' \<and> P x' y')"
  using assms within_Ok by metis

lemma aead_step:
  assumes "aead_in_step lib e d"
  shows "\<exists>c e' d'. aead_encrypt lib m (length m + 16) e = (Ok c, e') \<and> length c = length m + 16 \<and>
    aead_decrypt lib c (length m) d = (Ok m, d') \<and> aead_in_step lib e' d'"
  using assms [unfolded aead_in_step_def]
proof (elim disjE exE conjE)
  fix x y
  assume st: "e = RingC x" "d = RingC y" and "ring_in_step lib x y"
  from lift_step [where enc = "ring_encrypt lib m (length m + 16)" and dec = "ring_decrypt lib" and
      P = "ring_in_step lib" and f = RingC and g = RingC, OF ring_step [OF this(3)]] show ?thesis
    unfolding aead_in_step_def st aead_encrypt.simps aead_decrypt.simps by blast
next
  fix x y
  assume st: "e = SodiumC x" "d = SodiumC y" and "sodium_in_step lib x y"
  from lift_step [where enc = "sodium_encrypt lib m (length m + 16)" and dec = "sodium_decrypt lib" and
      P = "sodium_in_step lib" and f = SodiumC and g = SodiumC, OF sodium_step [OF this(3)]] show ?thesis
    unfolding aead_in_step_def st aead_encrypt.simps aead_decrypt.simps by blast
next
  fix x y
  assume st: "e = SivC x" "d = SivC y" and "siv_in_step lib x y"
  from lift_step [where enc = "siv_encrypt lib m (length m + 16)" and dec = "siv_decrypt lib" and
      P = "siv_in_step lib" and f = SivC and g = SivC, OF siv_step_session [OF this(3)]] show ?thesis
    unfolding aead_in_step_def st aead_encrypt.simps aead_decrypt.simps by blast
qed

interpretation aead: aead_session "aead_encrypt lib" "aead_decrypt lib" 16 "aead_in_step lib" for lib
  by unfold_locales (rule aead_step)

lemma ring_new_in_step:
  assumes "aead_laws lib" "ring_alg_of t = Ok alg" "key_size (clib lib) t = Ok (length key)"
  shows "\<exists>e d. RingAeadCipher_new lib t key salt True = Ok e \<and>
    RingAeadCipher_new lib t key salt False = Ok d \<and> ring_in_step lib e d"
proof -
  let ?k = "hkdf lib salt key SUBKEY_INFO (length key)" and ?n = "replicate 12 0 :: u8 list"
  have t: "category t = Aead" "iv_size (clib lib) t = Ok 12" "ring_key_len lib alg = length key"
    using assms(2,3) aead_lawsD(7) [OF assms(1)] by (cases t; auto)+
  have k: "length ?k = ring_key_len lib alg" using aead_lawsD(1) [OF assms(1)] t(3) by simp
  then have "RingAeadCipher_new lib t key salt b = Ok (ring_state b alg t ?k ?n)" for b
    using t assms(2) by (simp add: RingAeadCipher_new_def make_skey_def new_variant_def ring_state_def Let_def)
  moreover have "ring_in_step lib (ring_state True alg t ?k ?n) (ring_state False alg t ?k ?n)"
    unfolding ring_in_step_def using assms(1,2) k by (metis length_replicate)
  ultimately show ?thesis by blast
qed

lemma new_aead_in_step:
  assumes "aead_laws lib" "category t = Aead" "key_size (clib lib) t = Ok (length key)"
  shows "\<exists>e d. new_aead_encryptor lib t key salt = Ok e \<and> new_aead_decryptor lib t key salt = Ok d \<and>
    aead_in_step lib e d"
proof (cases "\<exists>alg. ring_alg_of t = Ok alg")
  case True
  then obtain alg where alg: "ring_alg_of t = Ok alg" by blast
  then have t: "t \<in> {Aes128Gcm, Aes256Gcm, ChaCha20IetfPoly1305}" by (cases t) auto
  obtain e d where "RingAeadCipher_new lib t key salt True = Ok e"
      "RingAeadCipher_new lib t key salt False = Ok d" "ring_in_step lib e d"
    using ring_new_in_step [OF assms(1) alg assms(3)] by blast
  then have "new_aead lib True t key salt = Ok (RingC e)" "new_aead lib False t key salt = Ok (RingC d)"
    "aead_in_step lib (RingC e) (RingC d)"
    using t assms(2) by (simp_all add: new_aead_def aead_in_step_def)
  then show ?thesis unfolding new_aead_encryptor_def new_aead_decryptor_def by blast
next
  case False
  have hk: "length (hkdf lib salt key SUBKEY_INFO (length key)) = length key"
    by (rule aead_lawsD(1) [OF assms(1)])
  have "\<exists>c. (\<forall>b. new_aead lib b t key salt = Ok c) \<and> aead_in_step lib c c"
    using False assms hk
    by (cases t) (auto simp: new_aead_def SodiumAeadCipher_new_def MiscreantCipher_new_def make_skey_def
        siv_new_variant_def aead_in_step_def sodium_in_step_def siv_in_step_def)
  then show ?thesis by (auto simp: new_aead_encryptor_def new_aead_decryptor_def)
qed

text \<open>C22: with any of the authenticated ciphers, an encryptor and a decryptor made from the same key and
  salt form a session: every message, each longer by the 16 bytes of its tag, is opened in order to
  what was sealed, for as many messages as are sent.\<close>

theorem aead_session_round_trip:
  assumes "aead_laws lib" "category t = Aead" "key_size (clib lib) t = Ok (length key)"
  shows "\<exists>e d cs e' d'. new_aead_encryptor lib t key salt = Ok e \<and> new_aead_decryptor lib t key salt = Ok d \<and>
    encrypt_all (aead_encrypt lib) 16 ms e = (Ok cs, e') \<and>
    map length cs = map (\<lambda>m. length m + 16) ms \<and>
    decrypt_all (aead_decrypt lib) 16 cs d = (Ok ms, d')"
  using new_aead_in_step [OF assms] aead.session [of lib _ _ ms] by blast

subsection \<open>Nonces are not reused\<close>

lemma ring_encrypt_nonce:
  assumes "ring_encrypt lib m n c = (Ok out, c')"
  shows "ra_nonce c' = increase_nonce lib (ra_nonce c) \<and> (\<exists>alg key. ra_cipher c' = Seal alg key (ra_nonce c'))"
  using assms
  by (auto simp: ring_encrypt_def ring_reset_def new_variant_def bind_eq_Ok chain_eq_Ok Let_def
      split: outcome.splits if_splits ring_variant.splits option.splits)

lemma encrypt_all_nonce:
  assumes "aead_laws lib" "encrypt_all (ring_encrypt lib) tag ms c = (Ok cs, c')"
  shows "length (ra_nonce c') = length (ra_nonce c) \<and>
    le_value (ra_nonce c') = (le_value (ra_nonce c) + length ms) mod 256 ^ length (ra_nonce c)"
  using assms(2)
proof (induction ms arbitrary: c cs)
  case Nil
  then show ?case using le_value_bound [of "ra_nonce c"] by simp
next
  case (Cons m ms)
  from Cons.prems obtain x c1 ys where "ring_encrypt lib m (length m + tag) c = (Ok x, c1)"
    and rest: "encrypt_all (ring_encrypt lib) tag ms c1 = (Ok ys, c')"
    by (auto simp: bind_eq_Ok)
  then have "ra_nonce c1 = increase_nonce lib (ra_nonce c)" using ring_encrypt_nonce by blast
  with Cons.IH [OF rest] aead_lawsD(5,6) [OF assms(1)] show ?case
    by (simp add: mod_simps ac_simps)
qed


text \<open>A library whose sealing appends a constant tag, for the examples.\<close>

definition sample_aead_lib :: "unit aead_lib" where
  "sample_aead_lib = stream_lib.extend sample_stream_lib
     (aead_lib.fields (\<lambda>salt key info n. replicate n 7)
       (\<lambda>alg key nonce m. Some (m @ replicate 16 1)) (\<lambda>alg key nonce c. Some (take (length c - 16) c))
       (\<lambda>nonce key m. Some (m @ replicate 16 1)) (\<lambda>nonce key c. Some (take (length c - 16) c))
       (\<lambda>alg key nonce m. replicate 16 1 @ m) (\<lambda>alg key nonce c. Some (drop 16 c))
       increase_nonce_portable)"

lemmas sample_aead_defs = sample_aead_lib_def sample_stream_lib_def sample_lib_def stream_lib.extend_def
  aead_lib.fields_def crypto_lib.extend_def stream_lib.fields_def crypto_lib.truncate_def

lemma sample_aead_laws: "aead_laws sample_aead_lib"
proof -
  have "clib sample_aead_lib = sample_lib" by (simp add: sample_aead_defs)
  then show ?thesis
    using increase_loop_value [of 1]
    by (simp add: aead_laws_def sample_lib_documented)
      (simp add: sample_aead_defs seals_def increase_nonce_portable_def)
qed

theorem aead_session_round_trip_witness:
  "\<exists>e d cs e' d'. new_aead_encryptor sample_aead_lib Aes128Gcm (replicate 16 5) [9] = Ok e \<and>
    new_aead_decryptor sample_aead_lib Aes128Gcm (replicate 16 5) [9] = Ok d \<and>
    encrypt_all (aead_encrypt sample_aead_lib) 16 [[1, 2], []] e = (Ok cs, e') \<and>
    decrypt_all (aead_decrypt sample_aead_lib) 16 cs d = (Ok [[1, 2], []], d')"
proof -
  have "category Aes128Gcm = Aead"
    "key_size (clib sample_aead_lib) Aes128Gcm = Ok (length (replicate 16 5 :: u8 list))"
    by (simp_all add: sample_aead_defs)
  from aead_session_round_trip [OF sample_aead_laws this, of "[9]" "[[1, 2], []]"]
  show ?thesis by blast
qed


end
