(* ===== verification/Socks5_Address.thy ===== *)
theory Socks5_Address
  imports Rust_Std
begin

text \<open>
  The SOCKS5 address of \<^verbatim>\<open>config/src/socks5.rs\<close>: the header every proxied connection and
  datagram starts with.  A buffer is a \<^verbatim>\<open>BytesMut\<close>, its content and its capacity: as the
  \<^verbatim>\<open>bytes\<close> crate documents, putting more than the remaining capacity panics.  A reader is the
  list of bytes still to come, and a read past its end is the error \<open>UnexpectedEof\<close>.
\<close>

definition SOCKS5_ADDR_TYPE_IPV4 :: u8 where "SOCKS5_ADDR_TYPE_IPV4 = 0x01"
definition SOCKS5_ADDR_TYPE_DOMAIN_NAME :: u8 where "SOCKS5_ADDR_TYPE_DOMAIN_NAME = 0x03"
definition SOCKS5_ADDR_TYPE_IPV6 :: u8 where "SOCKS5_ADDR_TYPE_IPV6 = 0x04"

lemmas addr_types = SOCKS5_ADDR_TYPE_IPV4_def SOCKS5_ADDR_TYPE_DOMAIN_NAME_def SOCKS5_ADDR_TYPE_IPV6_def

datatype address =
    SocketAddress socket_addr
  | DomainNameAddress string u16

subsection \<open>Writing\<close>

record bytes_mut =
  bm_bytes :: "u8 list"
  bm_cap :: nat

definition with_capacity :: "nat \<Rightarrow> bytes_mut" where
  "with_capacity n = \<lparr>bm_bytes = [], bm_cap = n\<rparr>"

definition put_slice :: "u8 list \<Rightarrow> (bytes_mut, unit) rust" where
  "put_slice bs = (\<lambda>buf.
     if length (bm_bytes buf) + length bs \<le> bm_cap buf
     then (Ok (), buf\<lparr>bm_bytes := bm_bytes buf @ bs\<rparr>)
     else (Panic, buf))"

text \<open>A cursor over a fixed array: what does not fit is dropped, as the ignored results of the
  writes do.\<close>

definition cursor_write :: "u8 list \<Rightarrow> u8 list \<times> nat \<Rightarrow> u8 list \<times> nat" where
  "cursor_write bs = (\<lambda>(a, p).
     let n = min (length bs) (length a - p) in (take p a @ take n bs @ drop (p + n) a, p + n))"

definition write_ipv4_address :: "ipv4 \<Rightarrow> u16 \<Rightarrow> (bytes_mut, unit) rust" where
  "write_ipv4_address ip port =
     (let cur = (replicate (1 + 4 + 2) 0, 0);
          cur = cursor_write [SOCKS5_ADDR_TYPE_IPV4] cur;
          cur = cursor_write (octets ip) cur;
          cur = cursor_write (be16 port) cur
      in put_slice (fst cur))"

definition write_ipv6_address :: "ipv6 \<Rightarrow> u16 \<Rightarrow> (bytes_mut, unit) rust" where
  "write_ipv6_address ip port =
     (let cur = (replicate (1 + 16 + 2) 0, 0);
          cur = cursor_write [SOCKS5_ADDR_TYPE_IPV6] cur;
          cur = fold (\<lambda>seg. cursor_write (be16 seg)) (segments ip) cur;
          cur = cursor_write (be16 port) cur
      in put_slice (fst cur))"

definition write_domain_name_address :: "string \<Rightarrow> u16 \<Rightarrow> (bytes_mut, unit) rust" where
  "write_domain_name_address dnaddr port =
     (if length dnaddr \<le> 255 then
        andthen (put_slice [SOCKS5_ADDR_TYPE_DOMAIN_NAME])
       (andthen (put_slice [of_nat (length dnaddr)])
       (andthen (put_slice (as_bytes dnaddr))
                (put_slice (be16 port))))
      else panic)"

fun write_socket_address :: "socket_addr \<Rightarrow> (bytes_mut, unit) rust" where
  "write_socket_address (V4 ip port) = write_ipv4_address ip port"
| "write_socket_address (V6 ip port _ _) = write_ipv6_address ip port"

fun write_address :: "address \<Rightarrow> (bytes_mut, unit) rust" where
  "write_address (SocketAddress addr) = write_socket_address addr"
| "write_address (DomainNameAddress dnaddr port) = write_domain_name_address dnaddr port"

fun get_addr_len :: "address \<Rightarrow> nat" where
  "get_addr_len (SocketAddress (V4 _ _)) = 1 + 4 + 2"
| "get_addr_len (SocketAddress (V6 _ _ _ _)) = 1 + 8 * 2 + 2"
| "get_addr_len (DomainNameAddress dmname _) = 1 + 1 + length dmname + 2"

definition serialized_len :: "address \<Rightarrow> nat" where
  "serialized_len a = get_addr_len a"

definition to_bytes :: "address \<Rightarrow> u8 list outcome" where
  "to_bytes a =
     (case write_address a (with_capacity (serialized_len a)) of (r, buf) \<Rightarrow> chain r (\<lambda>_. Ok (bm_bytes buf)))"

subsection \<open>Reading\<close>

definition rd_u8 :: "(u8 list, u8) rust" where
  "rd_u8 = (\<lambda>r. case r of b # bs \<Rightarrow> (Ok b, bs) | [] \<Rightarrow> (Err UnexpectedEof, []))"

definition rd_exact :: "nat \<Rightarrow> (u8 list, u8 list) rust" where
  "rd_exact n = (\<lambda>r. if n \<le> length r then (Ok (take n r), drop n r) else (Err UnexpectedEof, []))"

definition rd_u16 :: "(u8 list, u16) rust" where
  "rd_u16 = bind (rd_exact 2) (\<lambda>bs. return (join16 (bs ! 0) (bs ! 1)))"

definition read_ipv4 :: "(u8 list, address) rust" where
  "read_ipv4 =
     bind rd_u8 (\<lambda>a. bind rd_u8 (\<lambda>b. bind rd_u8 (\<lambda>c. bind rd_u8 (\<lambda>d.
     bind rd_u16 (\<lambda>port. return (SocketAddress (V4 (Ipv4Addr a b c d) port)))))))"

definition read_ipv6 :: "(u8 list, address) rust" where
  "read_ipv6 =
     bind rd_u16 (\<lambda>a. bind rd_u16 (\<lambda>b. bind rd_u16 (\<lambda>c. bind rd_u16 (\<lambda>d.
     bind rd_u16 (\<lambda>e. bind rd_u16 (\<lambda>f. bind rd_u16 (\<lambda>g. bind rd_u16 (\<lambda>h.
     bind rd_u16 (\<lambda>port. return (SocketAddress (V6 (Ipv6Addr a b c d e f g h) port 0 0)))))))))))"

definition read_domain_name :: "(u8 list, address) rust" where
  "read_domain_name =
     bind rd_u8 (\<lambda>addr_len.
     bind (rd_exact (unat addr_len)) (\<lambda>raw_addr.
     case from_utf8 raw_addr of
       None \<Rightarrow> throw InvalidData
     | Some addr \<Rightarrow> bind rd_u16 (\<lambda>port. return (DomainNameAddress addr port))))"

definition read_address :: "(u8 list, address) rust" where
  "read_address =
     bind rd_u8 (\<lambda>addr_type.
     if addr_type = SOCKS5_ADDR_TYPE_IPV4 then read_ipv4
     else if addr_type = SOCKS5_ADDR_TYPE_IPV6 then read_ipv6
     else if addr_type = SOCKS5_ADDR_TYPE_DOMAIN_NAME then read_domain_name
     else throw InvalidData)"

subsection \<open>The bytes of an address\<close>

text \<open>What can be sent and comes back unchanged: a domain name is valid UTF-8 of at most 255
  bytes, and an IPv6 address carries neither flow information nor a scope.\<close>

fun wire_address :: "address \<Rightarrow> bool" where
  "wire_address (SocketAddress (V4 _ _)) = True"
| "wire_address (SocketAddress (V6 _ _ flow scope)) = (flow = 0 \<and> scope = 0)"
| "wire_address (DomainNameAddress d _) = (length d \<le> 255 \<and> utf8_valid (as_bytes d))"

fun address_bytes :: "address \<Rightarrow> u8 list" where
  "address_bytes (SocketAddress (V4 ip port)) = 1 # octets ip @ be16 port"
| "address_bytes (SocketAddress (V6 ip port _ _)) = 4 # concat (map be16 (segments ip)) @ be16 port"
| "address_bytes (DomainNameAddress d port) = 3 # of_nat (length d) # as_bytes d @ be16 port"

lemma write_ipv4_bytes: "write_ipv4_address ip port = put_slice (1 # octets ip @ be16 port)"
  by (cases ip) (simp add: write_ipv4_address_def cursor_write_def Let_def addr_types
    be16_def eval_nat_numeral)

lemma write_ipv6_bytes:
  "write_ipv6_address ip port = put_slice (4 # concat (map be16 (segments ip)) @ be16 port)"
  by (cases ip) (simp add: write_ipv6_address_def cursor_write_def Let_def addr_types
    be16_def eval_nat_numeral)

fun writable :: "address \<Rightarrow> bool" where
  "writable (SocketAddress _) = True"
| "writable (DomainNameAddress d _) = (length d \<le> 255)"

text \<open>Writing succeeds exactly when the name is short enough and the bytes fit the buffer.\<close>

lemma write_address_bytes:
  "writable a \<Longrightarrow> length (bm_bytes b) + length (address_bytes a) \<le> bm_cap b \<Longrightarrow>
     write_address a b = (Ok (), b\<lparr>bm_bytes := bm_bytes b @ address_bytes a\<rparr>)"
  by (cases a rule: address_bytes.cases)
    (simp_all add: write_ipv4_bytes write_ipv6_bytes write_domain_name_address_def put_slice_def
      bind_def addr_types)

lemma write_address_panics:
  "\<not> (writable a \<and> length (bm_bytes b) + length (address_bytes a) \<le> bm_cap b) \<Longrightarrow>
     fst (write_address a b) = Panic"
  by (cases a rule: address_bytes.cases)
    (auto simp: write_ipv4_bytes write_ipv6_bytes write_domain_name_address_def put_slice_def
      bind_def addr_types split: if_splits)

lemma length_address_bytes: "length (address_bytes a) = get_addr_len a"
proof (cases a rule: address_bytes.cases)
  case (2 ip port f s)
  then show ?thesis by (cases ip) simp
qed simp_all

lemma rd_u8_Cons [simp]: "rd_u8 (b # bs) = (Ok b, bs)"
  by (simp add: rd_u8_def)

lemma rd_u16_be16 [simp]: "rd_u16 (be16 v @ bs) = (Ok v, bs)"
  by (simp add: rd_u16_def bind_def rd_exact_def be16_def join16_be16)

lemma rd_exact_append [simp]: "rd_exact (length xs) (xs @ ys) = (Ok xs, ys)"
  by (simp add: rd_exact_def)

lemma read_address_bytes:
  "wire_address a \<Longrightarrow> read_address (address_bytes a @ rest) = (Ok a, rest)"
proof (cases a rule: address_bytes.cases)
  case (1 ip port)
  then show ?thesis by (cases ip) (simp add: read_address_def addr_types read_ipv4_def)
next
  case (2 ip port f s)
  moreover assume "wire_address a"
  ultimately show ?thesis by (cases ip) (simp add: read_address_def addr_types read_ipv6_def)
next
  case (3 d port)
  moreover assume "wire_address a"
  ultimately have "length d < 256" "utf8_valid (as_bytes d)" by simp_all
  then have "unat (of_nat (length d) :: u8) = length (as_bytes d)"
    by (simp add: unat_of_nat take_bit_eq_mod)
  with \<open>utf8_valid (as_bytes d)\<close> 3 show ?thesis
    by (simp add: read_address_def addr_types read_domain_name_def from_utf8_def del: length_as_bytes)
qed

subsection \<open>Properties\<close>

lemma to_bytes_writable: "writable a \<Longrightarrow> to_bytes a = Ok (address_bytes a)"
  using write_address_bytes [of a "with_capacity (serialized_len a)"]
  by (simp add: to_bytes_def with_capacity_def serialized_len_def length_address_bytes)

lemma wire_writable: "wire_address a \<Longrightarrow> writable a"
  by (cases a rule: wire_address.cases) simp_all

text \<open>C15: an address is written to exactly the bytes its announced length promises, into any buffer
  with that much room, and is read back from them; the reader stops where the payload behind the
  address starts.\<close>

theorem address_round_trip:
  assumes "wire_address a" "length (bm_bytes b) + serialized_len a \<le> bm_cap b"
  shows "\<exists>bs. write_address a b = (Ok (), b\<lparr>bm_bytes := bm_bytes b @ bs\<rparr>) \<and> to_bytes a = Ok bs \<and>
    length bs = serialized_len a \<and> read_address (bs @ payload) = (Ok a, payload)"
  using assms wire_writable [OF assms(1)]
  by (simp add: write_address_bytes to_bytes_writable serialized_len_def length_address_bytes
    read_address_bytes)

theorem address_round_trip_witness:
  "\<exists>bs. write_address (DomainNameAddress ''a.b'' 80) (with_capacity 100) =
      (Ok (), (with_capacity 100)\<lparr>bm_bytes := bs\<rparr>) \<and>
    to_bytes (DomainNameAddress ''a.b'' 80) = Ok bs \<and>
    read_address (bs @ [7]) = (Ok (DomainNameAddress ''a.b'' 80), [7])"
proof -
  have "wire_address (DomainNameAddress ''a.b'' 80)" by code_simp
  from address_round_trip [OF this, of "with_capacity 100" "[7]"] show ?thesis
    by (auto simp: with_capacity_def serialized_len_def)
qed

lemma rd_u8_eq_Ok: "rd_u8 r = (Ok b, r') \<longleftrightarrow> r = b # r'"
  by (auto simp: rd_u8_def split: list.splits)

lemma rd_exact_eq_Ok: "rd_exact n r = (Ok bs, r') \<longleftrightarrow> r = bs @ r' \<and> length bs = n"
  by (auto simp: rd_exact_def intro: append_take_drop_id [symmetric])

lemma rd_u16_eq_Ok: "rd_u16 r = (Ok v, r') \<longleftrightarrow> r = be16 v @ r'"
proof
  assume "rd_u16 r = (Ok v, r')"
  then obtain a b where "r = [a, b] @ r'" "v = join16 a b"
    by (auto simp: rd_u16_def bind_eq_Ok rd_exact_eq_Ok length_Suc_conv eval_nat_numeral)
  then show "r = be16 v @ r'" by (simp add: be16_join16)
qed simp

lemmas rd_eq_Ok = bind_eq_Ok rd_u8_eq_Ok rd_u16_eq_Ok rd_exact_eq_Ok

lemma read_ipv4_sound:
  "read_ipv4 r = (Ok a, r') \<Longrightarrow> wire_address a \<and> 1 # r = address_bytes a @ r'"
  by (auto simp: read_ipv4_def rd_eq_Ok)

lemma read_ipv6_sound:
  "read_ipv6 r = (Ok a, r') \<Longrightarrow> wire_address a \<and> 4 # r = address_bytes a @ r'"
  by (auto simp: read_ipv6_def rd_eq_Ok)

lemma read_domain_name_sound:
  assumes "read_domain_name r = (Ok a, r')"
  shows "wire_address a \<and> 3 # r = address_bytes a @ r'"
proof -
  from assms obtain n bs d port where r: "r = n # bs @ be16 port @ r'" "length bs = unat n"
    and a: "from_utf8 bs = Some d" "a = DomainNameAddress d port"
    by (auto simp: read_domain_name_def rd_eq_Ok split: option.splits)
  have "as_bytes d = bs" using a(1) by (rule from_utf8_Some)
  moreover from this have "length d = unat n" using r(2) by (metis length_as_bytes)
  moreover have "unat n \<le> 255" using unsigned_less [of n, where 'a = nat] by simp
  moreover have "utf8_valid bs" using a(1) by (simp add: from_utf8_def split: if_splits)
  ultimately show ?thesis using r a(2) by simp
qed

lemma responds_rd: "responds rd_u8" "responds rd_u16" "responds (rd_exact n)"
proof -
  show "responds rd_u8" by (auto simp: responds_def rd_u8_def split: list.splits)
  show exact: "responds (rd_exact n)" for n by (auto simp: responds_def rd_exact_def)
  show "responds rd_u16" unfolding rd_u16_def by (rule responds_bind [OF exact responds_return])
qed

lemmas responds_intros = responds_bind responds_rd responds_return responds_throw

lemma responds_read_domain_name: "responds read_domain_name"
  unfolding read_domain_name_def
  by (intro responds_intros, split option.split) (auto intro!: responds_intros simp del: return_apply)

lemma responds_read_address: "responds read_address"
  unfolding read_address_def read_ipv4_def read_ipv6_def
  by (intro responds_intros)
    (auto intro!: responds_intros responds_read_domain_name simp del: return_apply throw_apply)

text \<open>C16: whatever bytes a peer sends, reading an address returns an address or an error value,
  never panics, and an address that was read is exactly what the consumed bytes encode: writing it
  gives those bytes back.\<close>

theorem read_address_sound:
  "responds read_address \<and>
   (\<forall>r a r'. read_address r = (Ok a, r') \<longrightarrow>
      (\<exists>bs. to_bytes a = Ok bs \<and> r = bs @ r' \<and> length bs = serialized_len a))"
proof (intro conjI allI impI responds_read_address)
  fix r a r'
  assume "read_address r = (Ok a, r')"
  then have a: "wire_address a" "r = address_bytes a @ r'"
    by (auto simp: read_address_def bind_eq_Ok rd_u8_eq_Ok addr_types
      dest: read_ipv4_sound read_ipv6_sound read_domain_name_sound split: if_splits)
  then show "\<exists>bs. to_bytes a = Ok bs \<and> r = bs @ r' \<and> length bs = serialized_len a"
    by (simp add: to_bytes_writable wire_writable serialized_len_def length_address_bytes)
qed

theorem read_address_sound_witness:
  "\<exists>bs. to_bytes (SocketAddress (V4 (Ipv4Addr 10 0 0 1) 80)) = Ok bs \<and>
     [1, 10, 0, 0, 1, 0, 80, 42] = bs @ [42]"
proof -
  have "read_address [1, 10, 0, 0, 1, 0, 80, 42] =
      (Ok (SocketAddress (V4 (Ipv4Addr 10 0 0 1) 80)), [42])"
    by code_simp
  with read_address_sound show ?thesis by blast
qed

end
