(* ===== verification/Encrypted_Tcp.thy ===== *)
theory Encrypted_Tcp
  imports Aead_Ciphers Socks5_Address
begin

text \<open>
  The encrypted TCP streams of the Shadowsocks client: \<^verbatim>\<open>ssclient/src/tcp_io.rs\<close>, the two
  stream implementations under \<^verbatim>\<open>encrypted_stream/\<close>, and the exchange of the initialisation
  vector of \<^verbatim>\<open>ssclient/src/lib.rs\<close>.

  A TCP connection is what was written to it, the segments still to be read, and the faults (a
  timeout or another error) its coming operations run into; a read returns at most one segment.
\<close>

definition MAX_PACKET_SIZE :: nat where "MAX_PACKET_SIZE = 0x3FFF"

record tcp =
  sent :: "u8 list"
  inbox :: "u8 list list"
  faults :: "error_kind option list"

definition io_fault :: "(tcp, unit) rust" where
  "io_fault = (\<lambda>c. case faults c of
       [] \<Rightarrow> (Ok (), c)
     | None # fs \<Rightarrow> (Ok (), c\<lparr>faults := fs\<rparr>)
     | Some e # fs \<Rightarrow> (Err e, c\<lparr>faults := fs\<rparr>))"

definition tcp_write_all :: "u8 list \<Rightarrow> (tcp, unit) rust" where
  "tcp_write_all bs = andthen io_fault (\<lambda>c. (Ok (), c\<lparr>sent := sent c @ bs\<rparr>))"

text \<open>The first segment with anything in it, cut to the length of the buffer; nothing at the end of
  the stream.\<close>

fun read_segment :: "nat \<Rightarrow> u8 list list \<Rightarrow> u8 list \<times> u8 list list" where
  "read_segment n [] = ([], [])"
| "read_segment n ([] # ss) = read_segment n ss"
| "read_segment n (s # ss) = (take n s, if length s \<le> n then ss else drop n s # ss)"

definition tcp_read :: "nat \<Rightarrow> (tcp, u8 list) rust" where
  "tcp_read n = andthen io_fault (\<lambda>c.
     case read_segment n (inbox c) of (bs, ss) \<Rightarrow> (Ok bs, c\<lparr>inbox := ss\<rparr>))"

definition tcp_read_exact :: "nat \<Rightarrow> (tcp, u8 list) rust" where
  "tcp_read_exact n = andthen io_fault (\<lambda>c.
     let bs = concat (inbox c) in
     if n \<le> length bs then (Ok (take n bs), c\<lparr>inbox := [drop n bs]\<rparr>) else (Err UnexpectedEof, c))"

text \<open>A cipher and the connection it works on.\<close>

definition on_conn :: "(tcp, 'a) rust \<Rightarrow> ('c \<times> tcp, 'a) rust" where
  "on_conn m = (\<lambda>(k, c). case m c of (r, c') \<Rightarrow> (r, (k, c')))"

definition on_cipher :: "('c, 'a) rust \<Rightarrow> ('c \<times> tcp, 'a) rust" where
  "on_cipher m = (\<lambda>(k, c). case m k of (r, k') \<Rightarrow> (r, (k', c)))"

subsection \<open>The initialisation vector\<close>

definition send_iv :: "crypto_lib \<Rightarrow> (nat \<Rightarrow> u8 list) \<Rightarrow> cipher_type \<Rightarrow> (tcp, u8 list) rust" where
  "send_iv lib rnd t =
     bind (lifted (case category t of Stream \<Rightarrow> gen_init_vec lib rnd t | Aead \<Rightarrow> gen_salt lib rnd t)) (\<lambda>iv.
     andthen (tcp_write_all iv) (return iv))"

definition recv_iv :: "crypto_lib \<Rightarrow> cipher_type \<Rightarrow> (tcp, u8 list) rust" where
  "recv_iv lib t =
     bind (lifted (case category t of Stream \<Rightarrow> iv_size lib t | Aead \<Rightarrow> salt_size lib t)) tcp_read_exact"

subsection \<open>Stream ciphers\<close>

definition StreamEncryptedWriter_new ::
  "'k aead_lib \<Rightarrow> (nat \<Rightarrow> u8 list) \<Rightarrow> cipher_type \<Rightarrow> u8 list \<Rightarrow> (tcp, 'k stream_cipher) rust" where
  "StreamEncryptedWriter_new lib rnd method key =
     bind (send_iv (clib lib) rnd method) (\<lambda>iv.
     lifted (new_stream (stream_lib.truncate lib) method key iv Encrypt))"

definition stream_send_all :: "'k aead_lib \<Rightarrow> u8 list \<Rightarrow> ('k stream_cipher \<times> tcp, unit) rust" where
  "stream_send_all lib buf =
     bind (on_cipher (stream_update (stream_lib.truncate lib) buf)) (\<lambda>send_buf.
     on_conn (tcp_write_all send_buf))"

text \<open>The address is put into a buffer of 100 bytes.\<close>

definition addr_bytes :: "address \<Rightarrow> u8 list outcome" where
  "addr_bytes addr = (case write_address addr (with_capacity 100) of (r, b) \<Rightarrow> chain r (\<lambda>_. Ok (bm_bytes b)))"

definition stream_send_addr :: "'k aead_lib \<Rightarrow> address \<Rightarrow> ('k stream_cipher \<times> tcp, unit) rust" where
  "stream_send_addr lib addr = bind (lifted (addr_bytes addr)) (stream_send_all lib)"

definition StreamEncryptedReader_new ::
  "'k aead_lib \<Rightarrow> cipher_type \<Rightarrow> u8 list \<Rightarrow> (tcp, 'k stream_cipher) rust" where
  "StreamEncryptedReader_new lib method key =
     bind (recv_iv (clib lib) method) (\<lambda>iv.
     lifted (new_stream (stream_lib.truncate lib) method key iv Decrypt))"

definition stream_recv :: "'k aead_lib \<Rightarrow> nat \<Rightarrow> ('k stream_cipher \<times> tcp, u8 list) rust" where
  "stream_recv lib buf_len =
     bind (on_conn (tcp_read MAX_PACKET_SIZE)) (\<lambda>bs.
     bind (if bs \<noteq> [] then on_cipher (stream_update (stream_lib.truncate lib) bs)
           else on_cipher (stream_finalize (stream_lib.truncate lib))) (\<lambda>output.
     if length output \<le> buf_len then return output else panic))"

subsection \<open>Authenticated ciphers\<close>

definition frame_size :: "nat \<Rightarrow> u8 list \<Rightarrow> nat" where
  "frame_size tag data = 2 + tag + length data + tag"

text \<open>A write fills a prefix of \<open>dst\<close>; slicing past its end panics.\<close>

definition aead_encrypted_write :: "'k aead_lib \<Rightarrow> u8 list \<Rightarrow> nat \<Rightarrow> cipher_type \<Rightarrow> (aead_cipher, u8 list) rust" where
  "aead_encrypted_write lib buf dst_len t =
     bind (lifted (tag_size (clib lib) t)) (\<lambda>tag.
     if MAX_PACKET_SIZE < length buf then panic
     else if dst_len < 2 + tag then panic
     else
       bind (aead_encrypt lib (be16 (of_nat (length buf))) (2 + tag)) (\<lambda>head.
       if dst_len < frame_size tag buf then panic
       else bind (aead_encrypt lib buf (length buf + tag)) (\<lambda>body. return (head @ body))))"

definition slice_exact :: "nat \<Rightarrow> nat \<Rightarrow> (tcp, u8 list) rust" where
  "slice_exact n tmp_len = (if tmp_len < n then panic else tcp_read_exact n)"

definition aead_decrypted_read ::
  "'k aead_lib \<Rightarrow> nat \<Rightarrow> nat \<Rightarrow> cipher_type \<Rightarrow> (aead_cipher \<times> tcp, u8 list) rust" where
  "aead_decrypted_read lib tmp_len output_len t =
     bind (lifted (tag_size (clib lib) t)) (\<lambda>tag.
     bind (on_conn (slice_exact (2 + tag) tmp_len)) (\<lambda>head.
     bind (on_cipher (aead_decrypt lib head 2)) (\<lambda>len_buf.
     let len = unat (join16 (len_buf ! 0) (len_buf ! 1)) in
     if MAX_PACKET_SIZE < len then throw InvalidData
     else
       bind (on_conn (slice_exact (len + tag) tmp_len)) (\<lambda>body.
       if output_len < len then panic
       else on_cipher (aead_decrypt lib body len)))))"

definition AeadEncryptedWriter_new ::
  "'k aead_lib \<Rightarrow> (nat \<Rightarrow> u8 list) \<Rightarrow> cipher_type \<Rightarrow> u8 list \<Rightarrow> (tcp, aead_cipher) rust" where
  "AeadEncryptedWriter_new lib rnd method key =
     bind (send_iv (clib lib) rnd method) (\<lambda>iv. lifted (new_aead_encryptor lib method key iv))"

definition aead_send_all :: "'k aead_lib \<Rightarrow> cipher_type \<Rightarrow> u8 list \<Rightarrow> (aead_cipher \<times> tcp, unit) rust" where
  "aead_send_all lib method buf =
     bind (on_cipher (aead_encrypted_write lib buf MAX_PACKET_SIZE method)) (\<lambda>bs. on_conn (tcp_write_all bs))"

definition aead_send_addr :: "'k aead_lib \<Rightarrow> cipher_type \<Rightarrow> address \<Rightarrow> (aead_cipher \<times> tcp, unit) rust" where
  "aead_send_addr lib method addr = bind (lifted (addr_bytes addr)) (aead_send_all lib method)"

definition AeadEncryptedReader_new ::
  "'k aead_lib \<Rightarrow> cipher_type \<Rightarrow> u8 list \<Rightarrow> (tcp, aead_cipher) rust" where
  "AeadEncryptedReader_new lib method key =
     bind (recv_iv (clib lib) method) (\<lambda>iv. lifted (new_aead_decryptor lib method key iv))"

definition aead_recv :: "'k aead_lib \<Rightarrow> cipher_type \<Rightarrow> nat \<Rightarrow> (aead_cipher \<times> tcp, u8 list) rust" where
  "aead_recv lib method buf_len = aead_decrypted_read lib MAX_PACKET_SIZE buf_len method"

subsection \<open>Connections without faults\<close>

definition conn :: "u8 list list \<Rightarrow> tcp" where
  "conn ss = \<lparr>sent = [], inbox = ss, faults = []\<rparr>"

lemma io_fault_none [simp]: "faults c = [] \<Longrightarrow> io_fault c = (Ok (), c)"
  by (simp add: io_fault_def)

lemma tcp_write_all_ok: "faults c = [] \<Longrightarrow> tcp_write_all bs c = (Ok (), c\<lparr>sent := sent c @ bs\<rparr>)"
  by (simp add: tcp_write_all_def)

lemma tcp_read_exact_ok:
  "faults c = [] \<Longrightarrow> concat (inbox c) = bs @ rest \<Longrightarrow>
     tcp_read_exact (length bs) c = (Ok bs, c\<lparr>inbox := [rest]\<rparr>)"
  by (simp add: tcp_read_exact_def)

lemma on_conn_Ok: "m c = (Ok x, c') \<Longrightarrow> on_conn m (k, c) = (Ok x, (k, c'))"
  by (simp add: on_conn_def)

lemma on_cipher_Ok: "m k = (Ok x, k') \<Longrightarrow> on_cipher m (k, c) = (Ok x, (k', c))"
  by (simp add: on_cipher_def)

lemma bind_lifted [simp]: "bind (lifted (Ok x)) f = f x"
  by (rule ext) (simp add: bind_def)

lemma bind_step: "m s = (Ok x, s') \<Longrightarrow> f x s' = r \<Longrightarrow> bind m f s = r"
  by simp

subsection \<open>Frames\<close>

definition MAX_PAYLOAD :: nat where "MAX_PAYLOAD = MAX_PACKET_SIZE - (2 + 16 + 16)"

lemma be16_len: "n < 2 ^ 16 \<Longrightarrow> unat (join16 (be16 (of_nat n) ! 0) (be16 (of_nat n) ! 1)) = n"
  by (simp add: be16_def join16_be16 unat_of_nat take_bit_eq_mod)

lemma aead_frame_round_trip:
  assumes st: "aead_in_step lib e d" and tag: "tag_size (clib lib) t = Ok 16"
    and len: "length buf \<le> MAX_PAYLOAD"
  shows "\<exists>frame e' d'. aead_encrypted_write lib buf MAX_PACKET_SIZE t e = (Ok frame, e') \<and>
    aead_in_step lib e' d' \<and> (\<forall>c rest. faults c = [] \<longrightarrow> concat (inbox c) = frame @ rest \<longrightarrow>
      aead_decrypted_read lib MAX_PACKET_SIZE MAX_PACKET_SIZE t (d, c) = (Ok buf, (d', c\<lparr>inbox := [rest]\<rparr>)))"
proof -
  let ?l = "be16 (of_nat (length buf))"
  have n: "length buf < 2 ^ 16" "length buf + 34 \<le> MAX_PACKET_SIZE"
    using len by (simp_all add: MAX_PAYLOAD_def MAX_PACKET_SIZE_def)
  obtain head e1 d1 where h: "aead_encrypt lib ?l (length ?l + 16) e = (Ok head, e1)" "length head = 18"
      "aead_decrypt lib head (length ?l) d = (Ok ?l, d1)" "aead_in_step lib e1 d1"
    using aead_step [OF st, of ?l] by auto
  obtain body e2 d2 where b: "aead_encrypt lib buf (length buf + 16) e1 = (Ok body, e2)"
      "length body = length buf + 16" "aead_decrypt lib body (length buf) d1 = (Ok buf, d2)"
      "aead_in_step lib e2 d2"
    using aead_step [OF h(4), of buf] by auto
  have "aead_encrypted_write lib buf MAX_PACKET_SIZE t e = (Ok (head @ body), e2)"
    using h b n by (simp add: aead_encrypted_write_def tag frame_size_def bind_def)
  moreover have "aead_decrypted_read lib MAX_PACKET_SIZE MAX_PACKET_SIZE t (d, c) =
      (Ok buf, (d2, c\<lparr>inbox := [rest]\<rparr>))"
    if c: "faults c = []" "concat (inbox c) = (head @ body) @ rest" for c rest
  proof -
    have r1: "slice_exact (2 + 16) MAX_PACKET_SIZE c = (Ok head, c\<lparr>inbox := [body @ rest]\<rparr>)"
      using tcp_read_exact_ok [of c head "body @ rest"] c h(2)
      by (simp add: slice_exact_def MAX_PACKET_SIZE_def)
    have r2: "slice_exact (length buf + 16) MAX_PACKET_SIZE (c\<lparr>inbox := [body @ rest]\<rparr>) =
        (Ok body, c\<lparr>inbox := [rest]\<rparr>)"
      using tcp_read_exact_ok [of "c\<lparr>inbox := [body @ rest]\<rparr>" body rest] c(1) b(2) n(2)
      by (simp add: slice_exact_def)
    have d1: "aead_decrypt lib head 2 d = (Ok ?l, d1)" using h(3) by simp
    have "bind (on_conn (slice_exact (length buf + 16) MAX_PACKET_SIZE))
        (\<lambda>body. on_cipher (aead_decrypt lib body (length buf))) (d1, c\<lparr>inbox := [body @ rest]\<rparr>) =
        (Ok buf, (d2, c\<lparr>inbox := [rest]\<rparr>))"
      by (rule bind_step, rule on_conn_Ok, rule r2, rule on_cipher_Ok, rule b(3))
    then have "(let len = unat (join16 (?l ! 0) (?l ! 1)) in
        if MAX_PACKET_SIZE < len then throw InvalidData
        else bind (on_conn (slice_exact (len + 16) MAX_PACKET_SIZE)) (\<lambda>body.
          if MAX_PACKET_SIZE < len then panic else on_cipher (aead_decrypt lib body len)))
        (d1, c\<lparr>inbox := [body @ rest]\<rparr>) = (Ok buf, (d2, c\<lparr>inbox := [rest]\<rparr>))"
      unfolding be16_len [OF n(1)] using n by (simp add: Let_def)
    then show ?thesis
      unfolding aead_decrypted_read_def tag bind_lifted
      by - (rule bind_step, rule on_conn_Ok, rule r1, rule bind_step, rule on_cipher_Ok, rule d1)
  qed
  ultimately show ?thesis using b(4) by blast
qed

lemma aead_stream_round_trip:
  assumes "aead_in_step lib e d" "tag_size (clib lib) t = Ok 16" "list_all (\<lambda>b. length b \<le> MAX_PAYLOAD) bufs"
    and "faults w = []"
  shows "\<exists>wire e' d'. for_each (aead_send_all lib t) bufs (e, w) = (Ok (), (e', w\<lparr>sent := sent w @ wire\<rparr>)) \<and>
    (\<forall>c rest. faults c = [] \<longrightarrow> concat (inbox c) = wire @ rest \<longrightarrow>
      (\<exists>c'. repeat (length bufs) (aead_recv lib t MAX_PACKET_SIZE) (d, c) = (Ok bufs, (d', c'))))"
  using assms(1,3,4)
proof (induction bufs arbitrary: e d w)
  case Nil
  show ?case by (rule exI [of _ "[]"]) simp
next
  case (Cons buf bufs)
  then have "length buf \<le> MAX_PAYLOAD" by simp
  from aead_frame_round_trip [OF Cons.prems(1) assms(2) this]
  obtain frame e1 d1 where w1: "aead_encrypted_write lib buf MAX_PACKET_SIZE t e = (Ok frame, e1)"
    and st: "aead_in_step lib e1 d1"
    and r1: "\<And>c rest. faults c = [] \<Longrightarrow> concat (inbox c) = frame @ rest \<Longrightarrow>
      aead_recv lib t MAX_PACKET_SIZE (d, c) = (Ok buf, (d1, c\<lparr>inbox := [rest]\<rparr>))"
    unfolding aead_recv_def by blast
  let ?w = "w\<lparr>sent := sent w @ frame\<rparr>"
  have "list_all (\<lambda>b. length b \<le> MAX_PAYLOAD) bufs" "faults ?w = []" using Cons.prems by simp_all
  from Cons.IH [OF st this] obtain wire e2 d2
    where w2: "for_each (aead_send_all lib t) bufs (e1, ?w) = (Ok (), (e2, ?w\<lparr>sent := sent ?w @ wire\<rparr>))"
    and r2: "\<forall>c rest. faults c = [] \<longrightarrow> concat (inbox c) = wire @ rest \<longrightarrow>
      (\<exists>c'. repeat (length bufs) (aead_recv lib t MAX_PACKET_SIZE) (d1, c) = (Ok bufs, (d2, c')))"
    by blast
  have "aead_send_all lib t buf (e, w) = (Ok (), (e1, ?w))"
    unfolding aead_send_all_def
    by (rule bind_step, rule on_cipher_Ok, rule w1, rule on_conn_Ok, rule tcp_write_all_ok) (rule Cons.prems(3))
  then have "for_each (aead_send_all lib t) (buf # bufs) (e, w) =
      (Ok (), (e2, w\<lparr>sent := sent w @ frame @ wire\<rparr>))"
    using w2 by (simp add: bind_def)
  moreover have "\<exists>c'. repeat (length (buf # bufs)) (aead_recv lib t MAX_PACKET_SIZE) (d, c) =
      (Ok (buf # bufs), (d2, c'))"
    if c: "faults c = []" "concat (inbox c) = (frame @ wire) @ rest" for c rest
  proof -
    have "faults (c\<lparr>inbox := [wire @ rest]\<rparr>) = []" using c(1) by simp
    with r2 obtain c' where "repeat (length bufs) (aead_recv lib t MAX_PACKET_SIZE)
        (d1, c\<lparr>inbox := [wire @ rest]\<rparr>) = (Ok bufs, (d2, c'))" by fastforce
    then show ?thesis using r1 [of c "wire @ rest"] c by (simp add: bind_def)
  qed
  ultimately show ?case by blast
qed

lemma addr_bytes_ok:
  "writable a \<Longrightarrow> serialized_len a \<le> 100 \<Longrightarrow> addr_bytes a = Ok (address_bytes a)"
  using write_address_bytes [of a "with_capacity 100"]
  by (simp add: addr_bytes_def with_capacity_def serialized_len_def length_address_bytes)

lemma aead_tag_16: "aead_laws lib \<Longrightarrow> category t = Aead \<Longrightarrow> tag_size (clib lib) t = Ok 16"
  using aead_lawsD(8) [of lib] by (cases t) simp_all

text \<open>C24: a client that connects with an authenticated cipher, sends a target address and then data is
  understood by a peer with the same key: whatever way the network cuts the bytes, the peer's reads
  return the bytes of the address and then exactly the written pieces, one per read.\<close>

theorem aead_tcp_round_trip:
  assumes "aead_laws lib" "category t = Aead" "key_size (clib lib) t = Ok (length key)"
    and "\<And>n. length (rnd n) = n" "wire_address addr" "serialized_len addr \<le> 100"
    and "list_all (\<lambda>b. length b \<le> MAX_PAYLOAD) bufs"
  shows "\<exists>k w1 k' w2 a. AeadEncryptedWriter_new lib rnd t key (conn []) = (Ok k, w1) \<and>
    andthen (aead_send_addr lib t addr) (for_each (aead_send_all lib t) bufs) (k, w1) = (Ok (), (k', w2)) \<and>
    to_bytes addr = Ok a \<and>
    (\<forall>ss. concat ss = sent w2 \<longrightarrow> (\<exists>d c1 d' c2. AeadEncryptedReader_new lib t key (conn ss) = (Ok d, c1) \<and>
       repeat (length (a # bufs)) (aead_recv lib t MAX_PACKET_SIZE) (d, c1) = (Ok (a # bufs), (d', c2))))"
proof -
  let ?salt = "rnd (length key)" and ?a = "address_bytes addr"
  have iv: "gen_salt (clib lib) rnd t = Ok ?salt" "salt_size (clib lib) t = Ok (length key)"
    using assms(2,3) by (simp_all add: gen_salt_def salt_size_def)
  obtain k d where k: "new_aead_encryptor lib t key ?salt = Ok k" "new_aead_decryptor lib t key ?salt = Ok d"
      "aead_in_step lib k d"
    using new_aead_in_step [OF assms(1-3)] by blast
  let ?w = "(conn [])\<lparr>sent := ?salt\<rparr>"
  have "send_iv (clib lib) rnd t (conn []) = (Ok ?salt, ?w)"
    using iv assms(2) by (simp add: send_iv_def conn_def bind_def tcp_write_all_ok)
  then have new: "AeadEncryptedWriter_new lib rnd t key (conn []) = (Ok k, ?w)"
    using k by (simp add: AeadEncryptedWriter_new_def bind_def)
  have a: "addr_bytes addr = Ok ?a" "to_bytes addr = Ok ?a" "length ?a \<le> 100"
    using assms(5,6) wire_writable [OF assms(5)]
    by (simp_all add: addr_bytes_ok to_bytes_writable serialized_len_def length_address_bytes)
  then have "list_all (\<lambda>b. length b \<le> MAX_PAYLOAD) (?a # bufs)"
    using assms(7) by (simp add: MAX_PAYLOAD_def MAX_PACKET_SIZE_def)
  moreover have fw: "faults ?w = []" "sent ?w = ?salt" by (simp_all add: conn_def)
  ultimately obtain wire k' d' where
    w: "for_each (aead_send_all lib t) (?a # bufs) (k, ?w) = (Ok (), (k', ?w\<lparr>sent := ?salt @ wire\<rparr>))"
    and r: "\<And>c rest. faults c = [] \<Longrightarrow> concat (inbox c) = wire @ rest \<Longrightarrow>
      \<exists>c'. repeat (length (?a # bufs)) (aead_recv lib t MAX_PACKET_SIZE) (d, c) = (Ok (?a # bufs), (d', c'))"
    using aead_stream_round_trip [OF k(3) aead_tag_16 [OF assms(1,2)], of "?a # bufs" ?w, unfolded fw(2)]
    by blast
  have run: "andthen (aead_send_addr lib t addr) (for_each (aead_send_all lib t) bufs) (k, ?w) =
      (Ok (), (k', ?w\<lparr>sent := ?salt @ wire\<rparr>))"
    using w a(1) by (simp add: aead_send_addr_def)
  have peer: "\<exists>c1 c2. AeadEncryptedReader_new lib t key (conn ss) = (Ok d, c1) \<and>
      repeat (length (?a # bufs)) (aead_recv lib t MAX_PACKET_SIZE) (d, c1) = (Ok (?a # bufs), (d', c2))"
    if "concat ss = ?salt @ wire" for ss
  proof -
    have "recv_iv (clib lib) t (conn ss) = (Ok ?salt, (conn ss)\<lparr>inbox := [wire]\<rparr>)"
      using tcp_read_exact_ok [of "conn ss" ?salt wire] that iv assms(2,4)
      by (simp add: recv_iv_def conn_def)
    then have "AeadEncryptedReader_new lib t key (conn ss) = (Ok d, (conn ss)\<lparr>inbox := [wire]\<rparr>)"
      using k(2) by (simp add: AeadEncryptedReader_new_def bind_def)
    with r [of "(conn ss)\<lparr>inbox := [wire]\<rparr>" "[]"] show ?thesis by (auto simp: conn_def)
  qed
  show ?thesis
    by (rule exI [of _ k], rule exI [of _ ?w], rule exI [of _ k'], rule exI [of _ "?w\<lparr>sent := ?salt @ wire\<rparr>"],
        rule exI [of _ ?a], intro conjI allI impI new run a(2)) (use peer in simp, blast)
qed

theorem aead_tcp_round_trip_witness:
  "\<exists>k w1 k' w2 a. AeadEncryptedWriter_new sample_aead_lib (\<lambda>n. replicate n 3) Aes128Gcm (replicate 16 5) (conn []) =
      (Ok k, w1) \<and>
    andthen (aead_send_addr sample_aead_lib Aes128Gcm (DomainNameAddress ''a.b'' 80))
      (for_each (aead_send_all sample_aead_lib Aes128Gcm) [[1, 2]]) (k, w1) = (Ok (), (k', w2)) \<and>
    to_bytes (DomainNameAddress ''a.b'' 80) = Ok a \<and>
    (\<exists>d c1 d' c2. AeadEncryptedReader_new sample_aead_lib Aes128Gcm (replicate 16 5) (conn [sent w2]) = (Ok d, c1) \<and>
       repeat (length [a, [1, 2]]) (aead_recv sample_aead_lib Aes128Gcm MAX_PACKET_SIZE) (d, c1) =
         (Ok [a, [1, 2]], (d', c2)))"
proof -
  have t: "category Aes128Gcm = Aead"
    "key_size (clib sample_aead_lib) Aes128Gcm = Ok (length (replicate 16 5 :: u8 list))"
    by (simp_all add: sample_aead_defs)
  have len: "length (replicate n 3 :: u8 list) = n" for n by simp
  have a: "wire_address (DomainNameAddress ''a.b'' 80)" "serialized_len (DomainNameAddress ''a.b'' 80) \<le> 100"
      "list_all (\<lambda>b. length b \<le> MAX_PAYLOAD) [[1, 2 :: u8]]"
    by code_simp+
  obtain k w1 k' w2 a where
    w: "AeadEncryptedWriter_new sample_aead_lib (\<lambda>n. replicate n 3) Aes128Gcm (replicate 16 5) (conn []) = (Ok k, w1)"
      "andthen (aead_send_addr sample_aead_lib Aes128Gcm (DomainNameAddress ''a.b'' 80))
        (for_each (aead_send_all sample_aead_lib Aes128Gcm) [[1, 2]]) (k, w1) = (Ok (), (k', w2))"
      "to_bytes (DomainNameAddress ''a.b'' 80) = Ok a"
    and r: "\<forall>ss. concat ss = sent w2 \<longrightarrow> (\<exists>d c1 d' c2.
      AeadEncryptedReader_new sample_aead_lib Aes128Gcm (replicate 16 5) (conn ss) = (Ok d, c1) \<and>
      repeat (length (a # [[1, 2]])) (aead_recv sample_aead_lib Aes128Gcm MAX_PACKET_SIZE) (d, c1) =
         (Ok (a # [[1, 2]]), (d', c2)))"
    using aead_tcp_round_trip [where rnd = "\<lambda>n. replicate n 3", OF sample_aead_laws t len a]
    by (elim exE conjE)
  from r [rule_format, of "[sent w2]"] have "concat [sent w2] = sent w2 \<Longrightarrow> \<exists>d c1 d' c2.
      AeadEncryptedReader_new sample_aead_lib Aes128Gcm (replicate 16 5) (conn [sent w2]) = (Ok d, c1) \<and>
      repeat (length [a, [1, 2]]) (aead_recv sample_aead_lib Aes128Gcm MAX_PACKET_SIZE) (d, c1) =
         (Ok [a, [1, 2]], (d', c2))" .
  then show ?thesis
    by - (rule exI [of _ k], rule exI [of _ w1], rule exI [of _ k'], rule exI [of _ w2], rule exI [of _ a],
      intro conjI w, simp only: concat.simps append_Nil2)
qed

lemma aead_send_all_panics:
  assumes "aead_in_step lib k d" "tag_size (clib lib) t = Ok 16"
    and "MAX_PAYLOAD < length buf" "length buf \<le> MAX_PACKET_SIZE"
  shows "fst (aead_send_all lib t buf (k, c)) = Panic"
proof -
  obtain head k' where "aead_encrypt lib (be16 (of_nat (length buf))) (2 + 16) k = (Ok head, k')"
    using aead_step [OF assms(1), of "be16 (of_nat (length buf))"] by auto
  moreover have "MAX_PACKET_SIZE < frame_size 16 buf" "\<not> MAX_PACKET_SIZE < 2 + 16"
    using assms(3) by (simp_all add: frame_size_def MAX_PAYLOAD_def MAX_PACKET_SIZE_def)
  ultimately have "aead_encrypted_write lib buf MAX_PACKET_SIZE t k = (Panic, k')"
    using assms(2,4) by (simp add: aead_encrypted_write_def bind_def)
  then show ?thesis by (simp add: aead_send_all_def on_cipher_def bind_def)
qed

text \<open>C25: the send buffer is as long as the longest packet, not as the longest frame: a piece longer
  than what fits into a frame, but within the limit the writer announces and a single read from the
  tunnel may return, makes a fresh writer panic.\<close>

theorem aead_send_panics:
  assumes "aead_laws lib" "category t = Aead" "key_size (clib lib) t = Ok (length key)"
    and "MAX_PAYLOAD < length buf" "length buf \<le> MAX_PACKET_SIZE"
  shows "\<exists>k. new_aead_encryptor lib t key salt = Ok k \<and> fst (aead_send_all lib t buf (k, c)) = Panic"
  using new_aead_in_step [OF assms(1-3), of salt] aead_send_all_panics [OF _ aead_tag_16 [OF assms(1,2)] assms(4,5)]
  by blast

theorem aead_send_panics_witness:
  "\<exists>k. new_aead_encryptor sample_aead_lib Aes128Gcm (replicate 16 5) [9] = Ok k \<and>
     fst (aead_send_all sample_aead_lib Aes128Gcm (replicate 0x3FFF 0) (k, conn [])) = Panic"
proof -
  have "category Aes128Gcm = Aead"
    "key_size (clib sample_aead_lib) Aes128Gcm = Ok (length (replicate 16 5 :: u8 list))"
    by (simp_all add: sample_aead_defs)
  from aead_send_panics [OF sample_aead_laws this, of "replicate 0x3FFF 0" "[9]" "conn []"] show ?thesis
    by (simp add: MAX_PAYLOAD_def MAX_PACKET_SIZE_def)
qed

subsection \<open>Streams\<close>

text \<open>A whole read of the peer: reads until the end of the stream, each at most as long as the buffer.\<close>

fun stream_recv_all :: "nat \<Rightarrow> 'k aead_lib \<Rightarrow> ('k stream_cipher \<times> tcp, u8 list) rust" where
  "stream_recv_all 0 lib = return []"
| "stream_recv_all (Suc n) lib =
     bind (stream_recv lib MAX_PACKET_SIZE) (\<lambda>bs.
     if bs = [] then return []
     else bind (stream_recv_all n lib) (\<lambda>rest. return (bs @ rest)))"

text \<open>The pieces the reads return, which depend on the segments only.\<close>

fun reads_of :: "nat \<Rightarrow> u8 list list \<Rightarrow> u8 list list" where
  "reads_of 0 ss = []"
| "reads_of (Suc n) ss =
     (case read_segment MAX_PACKET_SIZE ss of (bs, ss') \<Rightarrow> if bs = [] then [] else bs # reads_of n ss')"

lemma read_segment_concat:
  "read_segment n ss = (bs, ss') \<Longrightarrow> 0 < n \<Longrightarrow>
     concat ss = bs @ concat ss' \<and> length bs \<le> n \<and> (bs = [] \<longrightarrow> ss' = [])"
  by (induction n ss rule: read_segment.induct) (auto split: if_splits)

lemma max_packet_pos: "0 < MAX_PACKET_SIZE"
  by (simp add: MAX_PACKET_SIZE_def)

lemma concat_reads_of: "length (concat ss) < n \<Longrightarrow> concat (reads_of n ss) = concat ss"
proof (induction n arbitrary: ss)
  case (Suc n)
  obtain bs ss' where r: "read_segment MAX_PACKET_SIZE ss = (bs, ss')" by fastforce
  from read_segment_concat [OF r max_packet_pos] Suc show ?case by (cases bs) (auto simp: r)
qed simp

fun own_cipher :: "'k stream_cipher \<Rightarrow> bool" where
  "own_cipher (OpenSSLCipher _) = False"
| "own_cipher (Rc4Md5Cipher _) = False"
| "own_cipher _ = True"

lemma own_cipher_update: "own_cipher d \<Longrightarrow> stream_update lib bs d = (r, d') \<Longrightarrow> own_cipher d'"
  by (cases d) (auto simp: within_def split: prod.splits)

lemma own_cipher_finalize: "own_cipher d \<Longrightarrow> stream_finalize lib d = (Ok [], d)"
  by (cases d) (simp_all add: within_def)

lemma own_stream_new: "own_stream t \<Longrightarrow> new_stream lib t key iv m = Ok d \<Longrightarrow> own_cipher d"
  by (auto simp: own_stream_def is_sodium_stream_def new_stream_def chain_eq_Ok)

lemma stream_recv_all_reads:
  assumes "faults c = []" "own_cipher d" "length (concat (inbox c)) < fuel"
    and "update_list (stream_update (stream_lib.truncate lib)) (reads_of fuel (inbox c)) d = (Ok outs, d')"
    and "map length outs = map length (reads_of fuel (inbox c))"
  shows "\<exists>d'' c'. stream_recv_all fuel lib (d, c) = (Ok (concat outs), (d'', c'))"
  using assms
proof (induction fuel arbitrary: c d outs)
  case (Suc fuel)
  let ?upd = "stream_update (stream_lib.truncate lib)"
  obtain bs ss' where r: "read_segment MAX_PACKET_SIZE (inbox c) = (bs, ss')" by fastforce
  note rc = read_segment_concat [OF r max_packet_pos]
  have read: "on_conn (tcp_read MAX_PACKET_SIZE) (d, c) = (Ok bs, (d, c\<lparr>inbox := ss'\<rparr>))"
    using Suc.prems(1) r by (simp add: on_conn_def tcp_read_def)
  show ?case
  proof (cases "bs = []")
    case True
    have "stream_recv lib MAX_PACKET_SIZE (d, c) = (Ok [], (d, c\<lparr>inbox := ss'\<rparr>))"
      unfolding stream_recv_def
      by (rule bind_step, rule read) (simp add: True bind_def on_cipher_def own_cipher_finalize [OF Suc.prems(2)])
    then show ?thesis using Suc.prems(4) True r by (simp add: bind_def)
  next
    case False
    with Suc.prems(4) r obtain out d1 outs' where
      upd: "?upd bs d = (Ok out, d1)" "update_list ?upd (reads_of fuel ss') d1 = (Ok outs', d')"
      and outs: "outs = out # outs'"
      by (auto simp: bind_eq_Ok)
    have len: "length out = length bs" "map length outs' = map length (reads_of fuel ss')"
      using Suc.prems(5) outs r False by simp_all
    have "stream_recv lib MAX_PACKET_SIZE (d, c) = (Ok out, (d1, c\<lparr>inbox := ss'\<rparr>))"
      unfolding stream_recv_def
      by (rule bind_step, rule read) (use False upd(1) len(1) rc in \<open>simp add: bind_def on_cipher_def\<close>)
    moreover have "\<exists>d'' c'. stream_recv_all fuel lib (d1, c\<lparr>inbox := ss'\<rparr>) = (Ok (concat outs'), (d'', c'))"
    proof (rule Suc.IH)
      show "length (concat (inbox (c\<lparr>inbox := ss'\<rparr>))) < fuel"
        using Suc.prems(3) rc False by (cases bs) auto
    qed (use Suc.prems(1,2) upd len(2) own_cipher_update in auto)
    ultimately show ?thesis using False len(1) outs by (auto simp: bind_def)
  qed
qed simp

lemma stream_send_list:
  assumes "faults w = []" "update_list (stream_update (stream_lib.truncate lib)) bufs k = (Ok outs, k')"
  shows "for_each (stream_send_all lib) bufs (k, w) = (Ok (), (k', w\<lparr>sent := sent w @ concat outs\<rparr>))"
  using assms
proof (induction bufs arbitrary: k w outs)
  case (Cons buf bufs)
  let ?upd = "stream_update (stream_lib.truncate lib)"
  from Cons.prems(2) obtain out k1 outs' where upd: "?upd buf k = (Ok out, k1)"
      "update_list ?upd bufs k1 = (Ok outs', k')" and outs: "outs = out # outs'"
    by (auto simp: bind_eq_Ok)
  have "stream_send_all lib buf (k, w) = (Ok (), (k1, w\<lparr>sent := sent w @ out\<rparr>))"
    unfolding stream_send_all_def
    by (rule bind_step, rule on_cipher_Ok, rule upd(1), rule on_conn_Ok, rule tcp_write_all_ok)
      (rule Cons.prems(1))
  then show ?case using Cons.IH [OF _ upd(2), of "w\<lparr>sent := sent w @ out\<rparr>"] Cons.prems(1) outs
    by (simp add: bind_def)
qed simp

lemma own_stream_iv:
  "own_stream t \<Longrightarrow> category t = Stream \<and> (\<exists>n. iv_size lib t = Ok n)"
  by (auto simp: own_stream_def is_sodium_stream_def)



end
