(* ===== verification/Udp_Io.thy ===== *)
theory Udp_Io
  imports Encrypted_Tcp
begin

text \<open>
  The encryption of UDP packets, \<^verbatim>\<open>ssclient/src/udp_io.rs\<close>.  The output is a growable buffer
  \<open>bytes_mut\<close>: \<^verbatim>\<open>put_slice\<close> panics past its capacity, \<^verbatim>\<open>resize\<close> enlarges it (to at least the new
  length, the documented minimum).
\<close>

definition clear :: "bytes_mut \<Rightarrow> bytes_mut" where
  "clear buf = buf\<lparr>bm_bytes := []\<rparr>"

definition resize :: "nat \<Rightarrow> u8 \<Rightarrow> (bytes_mut, unit) rust" where
  "resize n v = (\<lambda>buf. (Ok (), buf\<lparr>
     bm_bytes := take n (bm_bytes buf) @ replicate (n - length (bm_bytes buf)) v,
     bm_cap := max (bm_cap buf) n\<rparr>))"

text \<open>Filling the slice that starts at \<open>p\<close> with the output of an authenticated cipher.\<close>

definition fill_at :: "nat \<Rightarrow> u8 list \<Rightarrow> (bytes_mut, unit) rust" where
  "fill_at p bs = (\<lambda>buf. if p + length bs \<le> length (bm_bytes buf)
     then (Ok (), buf\<lparr>bm_bytes := take p (bm_bytes buf) @ bs @ drop (p + length bs) (bm_bytes buf)\<rparr>)
     else (Panic, buf))"

definition encrypt_payload_aead ::
  "'k aead_lib \<Rightarrow> (nat \<Rightarrow> u8 list) \<Rightarrow> cipher_type \<Rightarrow> u8 list \<Rightarrow> u8 list \<Rightarrow> (bytes_mut, nat) rust" where
  "encrypt_payload_aead lib rnd t key payload =
     bind (lifted (gen_salt (clib lib) rnd t)) (\<lambda>salt.
     bind (lifted (tag_size (clib lib) t)) (\<lambda>tag.
     bind (lifted (new_aead_encryptor lib t key salt)) (\<lambda>cipher.
     andthen (put_slice salt)
    (andthen (resize (length salt + length payload + tag) 0)
    (bind (lifted (fst (aead_encrypt lib payload (length payload + tag) cipher))) (\<lambda>out.
     andthen (fill_at (length salt) out)
             (return (length salt + length payload + tag))))))))"

definition decrypt_payload_aead ::
  "'k aead_lib \<Rightarrow> cipher_type \<Rightarrow> u8 list \<Rightarrow> u8 list \<Rightarrow> (bytes_mut, nat) rust" where
  "decrypt_payload_aead lib t key payload =
     bind (lifted (tag_size (clib lib) t)) (\<lambda>tag.
     bind (lifted (salt_size (clib lib) t)) (\<lambda>salt_len.
     if length payload < tag + salt_len then throw UnexpectedEof
     else
       let salt = take salt_len payload; data = drop salt_len payload;
           data_length = length payload - tag - salt_len in
       bind (lifted (new_aead_decryptor lib t key salt)) (\<lambda>cipher.
       andthen (resize data_length 0)
      (bind (lifted (fst (aead_decrypt lib data data_length cipher))) (\<lambda>out.
       andthen (fill_at 0 out) (return data_length))))))"

text \<open>The two calls of a stream cipher on a whole packet, \<^verbatim>\<open>update\<close> and \<^verbatim>\<open>finalize\<close>.\<close>

definition cipher_into :: "'k stream_lib \<Rightarrow> u8 list \<Rightarrow> 'k stream_cipher \<Rightarrow> (bytes_mut, unit) rust" where
  "cipher_into lib data cipher =
     (case stream_update lib data cipher of (r, cipher1) \<Rightarrow>
        bind (lifted r) (\<lambda>bs.
        andthen (put_slice bs)
       (bind (lifted (fst (stream_finalize lib cipher1))) put_slice)))"

definition encrypt_payload_stream ::
  "'k aead_lib \<Rightarrow> (nat \<Rightarrow> u8 list) \<Rightarrow> cipher_type \<Rightarrow> u8 list \<Rightarrow> u8 list \<Rightarrow> (bytes_mut, nat) rust" where
  "encrypt_payload_stream lib rnd t key payload =
     bind (lifted (gen_init_vec (clib lib) rnd t)) (\<lambda>iv.
     bind (lifted (new_stream (stream_lib.truncate lib) t key iv Encrypt)) (\<lambda>cipher.
     andthen (put_slice iv)
    (andthen (cipher_into (stream_lib.truncate lib) payload cipher)
             (return (length payload + length iv)))))"

text \<open>The packet is sliced at the length of the initialisation vector without a test.\<close>

definition decrypt_payload_stream ::
  "'k aead_lib \<Rightarrow> cipher_type \<Rightarrow> u8 list \<Rightarrow> u8 list \<Rightarrow> (bytes_mut, nat) rust" where
  "decrypt_payload_stream lib t key payload =
     bind (lifted (iv_size (clib lib) t)) (\<lambda>iv_len.
     if length payload < iv_len then panic
     else
       let iv = take iv_len payload; data = drop iv_len payload in
       bind (lifted (new_stream (stream_lib.truncate lib) t key iv Decrypt)) (\<lambda>cipher.
       andthen (cipher_into (stream_lib.truncate lib) data cipher)
               (return (length data))))"

definition encrypt_payload ::
  "'k aead_lib \<Rightarrow> (nat \<Rightarrow> u8 list) \<Rightarrow> cipher_type \<Rightarrow> u8 list \<Rightarrow> u8 list \<Rightarrow> (bytes_mut, nat) rust" where
  "encrypt_payload lib rnd t key payload = (case category t of
      Stream \<Rightarrow> encrypt_payload_stream lib rnd t key payload
    | Aead \<Rightarrow> encrypt_payload_aead lib rnd t key payload)"

definition decrypt_payload ::
  "'k aead_lib \<Rightarrow> cipher_type \<Rightarrow> u8 list \<Rightarrow> u8 list \<Rightarrow> (bytes_mut, nat) rust" where
  "decrypt_payload lib t key payload = (case category t of
      Stream \<Rightarrow> decrypt_payload_stream lib t key payload
    | Aead \<Rightarrow> decrypt_payload_aead lib t key payload)"

subsection \<open>Writing into the buffer\<close>

lemma put_slice_fits: "length (bm_bytes b) + length bs \<le> bm_cap b \<Longrightarrow>
    put_slice bs b = (Ok (), b\<lparr>bm_bytes := bm_bytes b @ bs\<rparr>)"
  by (simp add: put_slice_def)

lemma aead_packet_round_trip:
  assumes "aead_laws lib" "category t = Aead" "key_size (clib lib) t = Ok (length key)"
    and "\<And>n. length (rnd n) = n" "bm_bytes out = []" "length key \<le> bm_cap out" "bm_bytes out2 = []"
  shows "\<exists>packet out' out2'. encrypt_payload_aead lib rnd t key payload out = (Ok (length packet), out') \<and>
    bm_bytes out' = packet \<and> length packet = length key + length payload + 16 \<and>
    decrypt_payload_aead lib t key packet out2 = (Ok (length payload), out2') \<and> bm_bytes out2' = payload"
proof -
  let ?salt = "rnd (length key)"
  have sz: "gen_salt (clib lib) rnd t = Ok ?salt" "salt_size (clib lib) t = Ok (length key)"
      "tag_size (clib lib) t = Ok 16"
    using assms(2,3) aead_tag_16 [OF assms(1,2)] by (simp_all add: gen_salt_def salt_size_def)
  obtain e d where e: "new_aead_encryptor lib t key ?salt = Ok e" "new_aead_decryptor lib t key ?salt = Ok d"
      "aead_in_step lib e d"
    using new_aead_in_step [OF assms(1-3)] by blast
  obtain c e' d' where c: "aead_encrypt lib payload (length payload + 16) e = (Ok c, e')"
      "length c = length payload + 16" "aead_decrypt lib c (length payload) d = (Ok payload, d')"
    using aead_step [OF e(3)] by blast
  have enc: "encrypt_payload_aead lib rnd t key payload out = (Ok (length (?salt @ c)),
      out\<lparr>bm_bytes := ?salt @ c, bm_cap := max (bm_cap out) (length ?salt + length c)\<rparr>)"
    using assms(4-6) c(2)
    by (simp add: encrypt_payload_aead_def sz e c(1) resize_def fill_at_def put_slice_def bind_def add.assoc)
  have dec: "decrypt_payload_aead lib t key (?salt @ c) out2 = (Ok (length payload),
      out2\<lparr>bm_bytes := payload, bm_cap := max (bm_cap out2) (length payload)\<rparr>)"
    using assms(4,7) by (simp add: decrypt_payload_aead_def sz e c(2,3) resize_def fill_at_def bind_def Let_def)
  show ?thesis
    by (rule exI [of _ "?salt @ c"]) (use enc dec assms(4) c(2) in auto)
qed

lemma stream_packet_round_trip:
  assumes "keystream_law (stream_lib.truncate lib) ks" "8 \<le> length (md5 lib key)" "own_stream t"
    and "stream_room t (length payload)" "\<And>n. length (rnd n) = n" "iv_size (clib lib) t = Ok n"
    and "bm_bytes out = []" "n + length payload \<le> bm_cap out" "bm_bytes out2 = []" "length payload \<le> bm_cap out2"
  shows "\<exists>packet out' out2'. encrypt_payload_stream lib rnd t key payload out = (Ok (length packet), out') \<and>
    bm_bytes out' = packet \<and> length packet = n + length payload \<and>
    decrypt_payload_stream lib t key packet out2 = (Ok (length payload), out2') \<and> bm_bytes out2' = payload"
proof -
  let ?L = "stream_lib.truncate lib" and ?iv = "rnd n"
  have "8 \<le> length (md5 ?L key)" using assms(2) by (simp add: stream_lib.truncate_def)
  then obtain e d where e: "new_stream ?L t key ?iv Encrypt = Ok e" "new_stream ?L t key ?iv Decrypt = Ok d"
      "stream_opens ?L e d [payload]"
    using new_stream_pair [OF assms(1) _ assms(3), of key "[payload]" ?iv] assms(4) by auto
  then obtain c e' where c: "stream_update ?L payload e = (Ok c, e')" "length c = length payload"
    and opens: "\<And>zss. concat zss = c \<Longrightarrow> \<exists>outs d'. update_list (stream_update ?L) zss d = (Ok outs, d') \<and>
      concat outs = payload"
    unfolding stream_opens_def by (fastforce simp: bind_eq_Ok return_def)
  from opens [of "[c]"] obtain d' where d': "stream_update ?L c d = (Ok payload, d')"
    by (auto simp: bind_eq_Ok return_def)
  have own: "own_cipher e'" "own_cipher d'"
    using own_cipher_update [OF _ c(1)] own_cipher_update [OF _ d'] own_stream_new [OF assms(3)] e(1,2) by blast+
  have into: "cipher_into ?L xs k b = (Ok (), b\<lparr>bm_bytes := bm_bytes b @ ys\<rparr>)"
    if "stream_update ?L xs k = (Ok ys, k')" "own_cipher k'" "length (bm_bytes b) + length ys \<le> bm_cap b"
    for xs k ys k' b
    using that by (simp add: cipher_into_def own_cipher_finalize put_slice_fits bind_def)
  have enc: "encrypt_payload_stream lib rnd t key payload out = (Ok (length (?iv @ c)), out\<lparr>bm_bytes := ?iv @ c\<rparr>)"
    using into [OF c(1) own(1), of "out\<lparr>bm_bytes := ?iv\<rparr>"] put_slice_fits [of out ?iv] assms(5,7,8) c(2)
    by (simp add: encrypt_payload_stream_def gen_init_vec_def assms(6) e(1) bind_def)
  have dec: "decrypt_payload_stream lib t key (?iv @ c) out2 = (Ok (length payload), out2\<lparr>bm_bytes := payload\<rparr>)"
    using into [OF d' own(2), of out2] assms(5,9,10) c(2)
    by (simp add: decrypt_payload_stream_def assms(6) e(2) bind_def)
  show ?thesis
    by (rule exI [of _ "?iv @ c"]) (use enc dec assms(5) c(2) in auto)
qed

text \<open>The ciphers a packet can be exchanged with, and the length of the random prefix of a packet.\<close>

definition udp_ready :: "'k aead_lib \<Rightarrow> (sodium_fn \<Rightarrow> u8 list \<Rightarrow> u8 list \<Rightarrow> nat \<Rightarrow> u8) \<Rightarrow> cipher_type \<Rightarrow> u8 list \<Rightarrow> nat \<Rightarrow> bool" where
  "udp_ready lib ks t key n \<longleftrightarrow>
     (if category t = Aead then aead_laws lib \<and> key_size (clib lib) t = Ok (length key)
      else own_stream t \<and> keystream_law (stream_lib.truncate lib) ks \<and> 8 \<le> length (md5 lib key) \<and> stream_room t n)"

definition prefix_size :: "crypto_lib \<Rightarrow> cipher_type \<Rightarrow> nat outcome" where
  "prefix_size lib t = (case category t of Stream \<Rightarrow> iv_size lib t | Aead \<Rightarrow> salt_size lib t)"

lemma packet_round_trip:
  assumes "udp_ready lib ks t key (length payload)" "prefix_size (clib lib) t = Ok n"
    and "\<And>n. length (rnd n) = n" "bm_bytes out = []" "n + length payload \<le> bm_cap out"
    and "bm_bytes out2 = []" "length payload \<le> bm_cap out2"
  shows "\<exists>packet out' out2'. encrypt_payload lib rnd t key payload out = (Ok (length packet), out') \<and>
    bm_bytes out' = packet \<and>
    length packet = n + length payload + (if category t = Aead then 16 else 0) \<and>
    decrypt_payload lib t key packet out2 = (Ok (length payload), out2') \<and> bm_bytes out2' = payload"
proof (cases "category t")
  case Aead
  with assms(1,2) have "aead_laws lib" "key_size (clib lib) t = Ok (length key)" "n = length key"
    by (simp_all add: udp_ready_def prefix_size_def salt_size_def)
  with aead_packet_round_trip [OF this(1) Aead this(2) assms(3,4) _ assms(6), of payload] assms(5) Aead
  show ?thesis by (auto simp: encrypt_payload_def decrypt_payload_def)
next
  case Stream
  with assms(1,2) have "own_stream t" "keystream_law (stream_lib.truncate lib) ks" "8 \<le> length (md5 lib key)"
      "stream_room t (length payload)" "iv_size (clib lib) t = Ok n"
    by (simp_all add: udp_ready_def prefix_size_def)
  with stream_packet_round_trip [OF this(2,3,1,4) assms(3) this(5) assms(4-7)] Stream
  show ?thesis by (simp add: encrypt_payload_def decrypt_payload_def)
qed

text \<open>A UDP payload encrypted with an authenticated cipher, or with one of the streams the program
  implements, into a buffer with room for it is decrypted by a peer with the same key to the same
  payload; the packet is longer than the payload by exactly the random prefix and the tag.\<close>

lemma udp_round_trip:
  assumes "udp_ready lib ks t key (length payload)" "prefix_size (clib lib) t = Ok n"
    and "\<And>n. length (rnd n) = n" "n + length payload \<le> cap" "length payload \<le> cap2"
  shows "\<exists>packet out' out2'. encrypt_payload lib rnd t key payload (with_capacity cap) = (Ok (length packet), out') \<and>
    bm_bytes out' = packet \<and> length packet = n + length payload + (if category t = Aead then 16 else 0) \<and>
    decrypt_payload lib t key packet (with_capacity cap2) = (Ok (length payload), out2') \<and> bm_bytes out2' = payload"
  by (rule packet_round_trip [OF assms(1-3)]) (use assms(4,5) in \<open>simp_all add: with_capacity_def\<close>)

lemma udp_round_trip_instance:
  "\<exists>packet out' out2'. encrypt_payload sample_aead_lib (\<lambda>n. replicate n 3) ChaCha20Ietf [5] [1, 2, 4] (with_capacity 40) =
      (Ok (length packet), out') \<and> length packet = 15 \<and>
    decrypt_payload sample_aead_lib ChaCha20Ietf [5] packet (with_capacity 40) = (Ok 3, out2') \<and>
    bm_bytes out2' = [1, 2, 4]"
proof -
  have ready: "udp_ready sample_aead_lib (\<lambda>f iv key p. of_nat p) ChaCha20Ietf [5] (length [1, 2, 4 :: u8])"
    by (simp add: udp_ready_def sample_aead_defs stream_lib.truncate_def keystream_law_def own_stream_def
        is_sodium_stream_def stream_room_def stream_limit_def SODIUM_BLOCK_SIZE_def)
  have n: "prefix_size (clib sample_aead_lib) ChaCha20Ietf = Ok 12" by (simp add: prefix_size_def)
  have len: "length (replicate n 3 :: u8 list) = n" for n by simp
  from udp_round_trip [where rnd = "\<lambda>n. replicate n 3", OF ready n len, of 40 40] show ?thesis
    by (auto simp: numeral_3_eq_3)
qed

text \<open>Packets shorter than the prefix: an error for authenticated ciphers, a panic for the streams.\<close>

lemma decrypt_payload_short:
  "category t = Aead \<Longrightarrow> tag_size (clib lib) t = Ok tag \<Longrightarrow> salt_size (clib lib) t = Ok n \<Longrightarrow>
     length packet < tag + n \<Longrightarrow> decrypt_payload lib t key packet out = (Err UnexpectedEof, out)"
  "category t = Stream \<Longrightarrow> iv_size (clib lib) t = Ok n \<Longrightarrow> length packet < n \<Longrightarrow>
     decrypt_payload lib t key packet out = (Panic, out)"
  by (simp_all add: decrypt_payload_def decrypt_payload_aead_def decrypt_payload_stream_def)

end
