(* ===== verification/Proxy_Rules.thy ===== *)
theory Proxy_Rules
  imports Rust_Std
begin

text \<open>
  The proxy rules of \<^verbatim>\<open>config/src/rule.rs\<close> and the parsers of \<^verbatim>\<open>config/src/lib.rs\<close> that
  read them and the durations from the configuration file.

  Address blocks belong to the \<^verbatim>\<open>smoltcp\<close> crate: the construction of a block, which panics
  on a prefix longer than 32 bits, and the membership test are the operations \<open>cidr_ops\<close>.  The
  digits \<^verbatim>\<open>char::is_numeric\<close> accepts come from the Unicode tables and are an argument too; a
  character is the string of its UTF-8 bytes.
\<close>

record 'c cidr_ops =
  cidr_new :: "ipv4 \<Rightarrow> u8 \<Rightarrow> 'c outcome"
  contains_addr :: "'c \<Rightarrow> ipv4 \<Rightarrow> bool"

datatype action = Reject | Direct | Proxy | Probe

datatype 'c rule =
    Domain string action
  | DomainSuffix string action
  | DomainKeyword string action
  | IpCidr 'c action
  | Match action

record 'c proxy_rules =
  rules :: "'c rule list"

definition ProxyRules_new :: "'c rule list \<Rightarrow> 'c proxy_rules" where
  "ProxyRules_new rs = \<lparr>rules = rs\<rparr>"

subsection \<open>Actions\<close>

fun domain_action :: "string \<Rightarrow> 'c rule \<Rightarrow> action option" where
  "domain_action domain (Domain d a) = (if d = domain then Some a else None)"
| "domain_action domain (DomainSuffix d a) = (if ends_with domain d then Some a else None)"
| "domain_action domain (DomainKeyword d a) = (if contains_str domain d then Some a else None)"
| "domain_action domain (Match a) = Some a"
| "domain_action domain (IpCidr _ _) = None"

fun ip_action :: "'c cidr_ops \<Rightarrow> ipv4 \<Rightarrow> 'c rule \<Rightarrow> action option" where
  "ip_action ops ip (IpCidr cidr a) = (if contains_addr ops cidr ip then Some a else None)"
| "ip_action ops ip _ = None"

fun filter_map :: "('a \<Rightarrow> 'b option) \<Rightarrow> 'a list \<Rightarrow> 'b list" where
  "filter_map f [] = []"
| "filter_map f (x # xs) = (case f x of Some y \<Rightarrow> y # filter_map f xs | None \<Rightarrow> filter_map f xs)"

definition first :: "'a list \<Rightarrow> 'a option" where
  "first xs = (case take 1 xs of [] \<Rightarrow> None | x # _ \<Rightarrow> Some x)"

definition action_for_domain :: "'c proxy_rules \<Rightarrow> string \<Rightarrow> action option" where
  "action_for_domain p domain = first (filter_map (domain_action domain) (rules p))"

definition action_for_ip :: "'c cidr_ops \<Rightarrow> 'c proxy_rules \<Rightarrow> ipv4 \<Rightarrow> action option" where
  "action_for_ip ops p ip = first (filter_map (ip_action ops ip) (rules p))"

definition default_action :: "'c proxy_rules \<Rightarrow> action" where
  "default_action p = Direct"

subsection \<open>Parsing\<close>

definition Action_from_str :: "string \<Rightarrow> action outcome" where
  "Action_from_str s =
     (if s = ''REJECT'' then Ok Reject
      else if s = ''DIRECT'' then Ok Direct
      else if s = ''PROXY'' then Ok Proxy
      else if s = ''PROBE'' then Ok Probe
      else Panic)"

definition parse_cidr :: "'c cidr_ops \<Rightarrow> string \<Rightarrow> 'c outcome" where
  "parse_cidr ops s = (case splitn 2 CHR ''/'' s of
      [addr, len] \<Rightarrow>
        chain (unwrap (parse_ipv4 addr)) (\<lambda>addr.
        chain (unwrap (parse_uint 256 len)) (\<lambda>prefix.
        cidr_new ops addr (of_nat prefix)))
    | _ \<Rightarrow> Panic)"

definition Rule_from_str :: "'c cidr_ops \<Rightarrow> string \<Rightarrow> 'c rule outcome" where
  "Rule_from_str ops s =
     chain (case splitn 3 CHR '','' s of
         [r, a] \<Rightarrow> Ok (r, [], a)
       | [r, c, a] \<Rightarrow> Ok (r, c, a)
       | _ \<Rightarrow> Panic) (\<lambda>(r, criteria, a).
     if r = ''DOMAIN'' then chain (Action_from_str a) (\<lambda>a. Ok (Domain criteria a))
     else if r = ''DOMAIN-SUFFIX'' then chain (Action_from_str a) (\<lambda>a. Ok (DomainSuffix criteria a))
     else if r = ''DOMAIN-KEYWORD'' then chain (Action_from_str a) (\<lambda>a. Ok (DomainKeyword criteria a))
     else if r = ''IP-CIDR'' then
       chain (parse_cidr ops criteria) (\<lambda>c. chain (Action_from_str a) (\<lambda>a. Ok (IpCidr c a)))
     else if r = ''MATCH'' then chain (Action_from_str a) (\<lambda>a. Ok (Match a))
     else Panic)"

fun parse_rules :: "'c cidr_ops \<Rightarrow> string list \<Rightarrow> 'c rule list outcome" where
  "parse_rules ops [] = Ok []"
| "parse_rules ops (s # ss) =
     chain (Rule_from_str ops s) (\<lambda>r. chain (parse_rules ops ss) (\<lambda>rs. Ok (r # rs)))"

definition rules_deserialize :: "'c cidr_ops \<Rightarrow> string list \<Rightarrow> 'c proxy_rules outcome" where
  "rules_deserialize ops ss = chain (parse_rules ops ss) (\<lambda>rs. Ok (ProxyRules_new rs))"

text \<open>A duration is its number of milliseconds.\<close>

type_synonym duration = nat

function utf8_chars :: "string \<Rightarrow> string list" where
  "utf8_chars [] = []"
| "utf8_chars (c # cs) =
     (let n = snd (utf8_step (as_bytes (c # cs))) in take n (c # cs) # utf8_chars (drop n (c # cs)))"
  by pat_completeness auto
termination
  by (relation "measure length") (auto simp: Let_def utf8_step_pos [OF prod.collapse [symmetric]])

definition parse_duration :: "(string \<Rightarrow> bool) \<Rightarrow> string \<Rightarrow> duration outcome" where
  "parse_duration is_numeric s =
     (let num = concat (filter is_numeric (utf8_chars s));
          chars = concat (filter (\<lambda>c. \<not> is_numeric c) (utf8_chars s)) in
      chain (unwrap (parse_uint (2 ^ 64) num)) (\<lambda>n.
      if chars = ''s'' then Ok (n * 1000)
      else if chars = ''ms'' then Ok n
      else Err Other))"

definition ascii_numeric :: "(string \<Rightarrow> bool) \<Rightarrow> bool" where
  "ascii_numeric num \<longleftrightarrow> (\<forall>c. of_char c < (128 :: nat) \<longrightarrow> num [c] = is_digit c)"

subsection \<open>First match\<close>

text \<open>What the rules promise: whether a rule speaks about a domain, and the action it prescribes.\<close>

fun covers_domain :: "'c rule \<Rightarrow> string \<Rightarrow> bool" where
  "covers_domain (Domain d _) domain = (domain = d)"
| "covers_domain (DomainSuffix d _) domain = suffix d domain"
| "covers_domain (DomainKeyword d _) domain = (\<exists>u v. domain = u @ d @ v)"
| "covers_domain (Match _) domain = True"
| "covers_domain (IpCidr _ _) domain = False"

fun covers_ip :: "'c cidr_ops \<Rightarrow> 'c rule \<Rightarrow> ipv4 \<Rightarrow> bool" where
  "covers_ip ops (IpCidr c _) ip = contains_addr ops c ip"
| "covers_ip ops _ ip = False"

fun rule_action :: "'c rule \<Rightarrow> action" where
  "rule_action (Domain _ a) = a"
| "rule_action (DomainSuffix _ a) = a"
| "rule_action (DomainKeyword _ a) = a"
| "rule_action (IpCidr _ a) = a"
| "rule_action (Match a) = a"

definition first_match :: "('r \<Rightarrow> bool) \<Rightarrow> 'r list \<Rightarrow> 'r \<Rightarrow> bool" where
  "first_match covers rs r \<longleftrightarrow>
     (\<exists>before after. rs = before @ r # after \<and> covers r \<and> \<not> list_ex covers before)"

lemma domain_action_covers:
  "domain_action domain r = (if covers_domain r domain then Some (rule_action r) else None)"
  by (cases r) (auto simp: ends_with_suffix contains_str_sublist)

lemma ip_action_covers:
  "ip_action ops ip r = (if covers_ip ops r ip then Some (rule_action r) else None)"
  by (cases r) auto

lemma covers_ip_iff: "covers_ip ops r ip \<longleftrightarrow> (\<exists>c a. r = IpCidr c a \<and> contains_addr ops c ip)"
  by (cases r) auto

lemma first_match_Cons:
  "first_match covers (x # xs) r \<longleftrightarrow> (if covers x then r = x else first_match covers xs r)"
proof (cases "covers x")
  case True
  then show ?thesis unfolding first_match_def by (auto simp: Cons_eq_append_conv)
next
  case False
  then have "first_match covers (x # xs) r \<longleftrightarrow>
      (\<exists>before after. x # xs = (x # before) @ r # after \<and> covers r \<and> \<not> list_ex covers (x # before))"
    unfolding first_match_def by (metis Cons_eq_append_conv append_Nil list.inject)
  with False show ?thesis by (simp add: first_match_def)
qed

lemma first_match_Nil [simp]: "\<not> first_match covers [] r"
  by (simp add: first_match_def)

lemma first_simps [simp]: "first [] = None" "first (x # xs) = Some x"
  by (simp_all add: first_def)

text \<open>The search shared by the two lookups.\<close>

lemma first_filter_map:
  assumes "\<And>r. f r = (if covers r then Some (act r) else None)"
  shows "first (filter_map f rs) = Some a \<longleftrightarrow> (\<exists>r. first_match covers rs r \<and> act r = a)"
    and "first (filter_map f rs) = None \<longleftrightarrow> (\<forall>r \<in> set rs. \<not> covers r)"
  by (induction rs) (auto simp: assms first_match_Cons)

text \<open>The action for a domain is that of the first rule in the list that covers it (an equal
  name, a suffix, a substring or the catch-all), and there is none exactly when no rule covers it.\<close>

lemma action_for_domain_first:
  "(action_for_domain p domain = Some a \<longleftrightarrow>
      (\<exists>r. first_match (\<lambda>r. covers_domain r domain) (rules p) r \<and> rule_action r = a)) \<and>
   (action_for_domain p domain = None \<longleftrightarrow> (\<nexists>r. r \<in> set (rules p) \<and> covers_domain r domain))"
  unfolding action_for_domain_def
  using first_filter_map [of "domain_action domain" "\<lambda>r. covers_domain r domain" rule_action "rules p",
      OF domain_action_covers]
  by blast

text \<open>The action for an address is that of the first address-block rule that contains it; no
  other rule, not even the catch-all, speaks about an address.\<close>

lemma action_for_ip_first:
  "(action_for_ip ops p ip = Some a \<longleftrightarrow>
      (\<exists>c. first_match (\<lambda>r. covers_ip ops r ip) (rules p) (IpCidr c a) \<and> contains_addr ops c ip)) \<and>
   (action_for_ip ops p ip = None \<longleftrightarrow> (\<nexists>c b. IpCidr c b \<in> set (rules p) \<and> contains_addr ops c ip))"
proof -
  have "(\<exists>r. first_match (\<lambda>r. covers_ip ops r ip) (rules p) r \<and> rule_action r = a) \<longleftrightarrow>
      (\<exists>c. first_match (\<lambda>r. covers_ip ops r ip) (rules p) (IpCidr c a) \<and> contains_addr ops c ip)"
    by (auto simp: covers_ip_iff first_match_def; fastforce)
  moreover have "(\<forall>r \<in> set (rules p). \<not> covers_ip ops r ip) \<longleftrightarrow>
      (\<nexists>c b. IpCidr c b \<in> set (rules p) \<and> contains_addr ops c ip)"
    by (auto simp: covers_ip_iff)
  ultimately show ?thesis unfolding action_for_ip_def
    using first_filter_map [of "ip_action ops ip" "\<lambda>r. covers_ip ops r ip" rule_action "rules p",
      OF ip_action_covers]
    by simp
qed

subsection \<open>The language of rules\<close>

fun show_action :: "action \<Rightarrow> string" where
  "show_action Reject = ''REJECT''"
| "show_action Direct = ''DIRECT''"
| "show_action Proxy = ''PROXY''"
| "show_action Probe = ''PROBE''"

text \<open>The lines of a configuration that denote a rule: a keyword, a criterion without a comma, and an
  action.  The criterion and its comma may be missing; the catch-all ignores it.\<close>

definition criterion :: "string \<Rightarrow> string \<Rightarrow> bool" where
  "criterion c text \<longleftrightarrow> (text = c @ '','' \<and> CHR '','' \<notin> set c) \<or> (text = [] \<and> c = [])"

inductive rule_line :: "'c cidr_ops \<Rightarrow> string \<Rightarrow> 'c rule \<Rightarrow> bool" for ops where
  domain: "criterion c t \<Longrightarrow> rule_line ops (''DOMAIN,'' @ t @ show_action a) (Domain c a)"
| suffix: "criterion c t \<Longrightarrow> rule_line ops (''DOMAIN-SUFFIX,'' @ t @ show_action a) (DomainSuffix c a)"
| keyword: "criterion c t \<Longrightarrow> rule_line ops (''DOMAIN-KEYWORD,'' @ t @ show_action a) (DomainKeyword c a)"
| cidr: "criterion c t \<Longrightarrow> parse_cidr ops c = Ok n \<Longrightarrow>
    rule_line ops (''IP-CIDR,'' @ t @ show_action a) (IpCidr n a)"
| match: "criterion c t \<Longrightarrow> rule_line ops (''MATCH,'' @ t @ show_action a) (Match a)"

lemma Action_from_str_show [simp]: "Action_from_str (show_action a) = Ok a"
  by (cases a) (simp_all add: Action_from_str_def)

lemma Action_from_str_Ok: "Action_from_str s = Ok a \<longleftrightarrow> s = show_action a"
  by (cases a) (auto simp: Action_from_str_def split: if_splits)

lemma comma_notin_action [simp]: "CHR '','' \<notin> set (show_action a)"
  by (cases a) simp_all

lemma splitn_step:
  assumes "c \<notin> set w"
  shows "splitn (Suc (Suc n)) c (w @ c # s) = w # splitn (Suc n) c s"
proof -
  from assms have "takeWhile (\<lambda>x. x \<noteq> c) (w @ c # s) = w" "dropWhile (\<lambda>x. x \<noteq> c) (w @ c # s) = c # s"
    by (induction w) auto
  then show ?thesis by simp
qed

text \<open>The three parts of a line.\<close>

definition rule_parts :: "string \<Rightarrow> (string \<times> string \<times> string) outcome" where
  "rule_parts s = (case splitn 3 CHR '','' s of
      [r, a] \<Rightarrow> Ok (r, [], a)
    | [r, c, a] \<Rightarrow> Ok (r, c, a)
    | _ \<Rightarrow> Panic)"

lemma splitn_none: "c \<notin> set s \<Longrightarrow> splitn (Suc n) c s = [s]"
  by (cases n) simp_all

lemma rule_parts_none: "CHR '','' \<notin> set s \<Longrightarrow> rule_parts s = Panic"
  by (simp add: rule_parts_def numeral_3_eq_3 splitn_none del: splitn.simps)

lemma rule_parts_two:
  "CHR '','' \<notin> set r \<Longrightarrow> CHR '','' \<notin> set a \<Longrightarrow> rule_parts (r @ CHR '','' # a) = Ok (r, [], a)"
  by (simp add: rule_parts_def numeral_3_eq_3 splitn_none splitn_step del: splitn.simps)

lemma rule_parts_three:
  "CHR '','' \<notin> set r \<Longrightarrow> CHR '','' \<notin> set c \<Longrightarrow>
     rule_parts (r @ CHR '','' # c @ CHR '','' # a) = Ok (r, c, a)"
  by (simp add: rule_parts_def numeral_3_eq_3 splitn_step del: splitn.simps(3))

lemmas rule_parts_simps = rule_parts_none rule_parts_two rule_parts_three

lemma line_cases:
  obtains (none) "CHR '','' \<notin> set s"
  | (two) r a where "s = r @ CHR '','' # a" "CHR '','' \<notin> set r" "CHR '','' \<notin> set a"
  | (three) r c a where "s = r @ CHR '','' # c @ CHR '','' # a" "CHR '','' \<notin> set r" "CHR '','' \<notin> set c"
  by (metis split_list_first)

lemma rule_parts_Ok:
  "rule_parts s = Ok (r, c, show_action a) \<longleftrightarrow>
     (\<exists>t. s = r @ CHR '','' # t @ show_action a \<and> CHR '','' \<notin> set r \<and> criterion c t)"
proof
  assume parts: "rule_parts s = Ok (r, c, show_action a)"
  show "\<exists>t. s = r @ CHR '','' # t @ show_action a \<and> CHR '','' \<notin> set r \<and> criterion c t"
  proof (cases s rule: line_cases)
    case (three r' c' a')
    with parts show ?thesis
      by (intro exI [of _ "c @ '',''"]) (simp add: rule_parts_simps criterion_def)
  qed (use parts in \<open>simp_all add: rule_parts_simps criterion_def\<close>)
next
  assume "\<exists>t. s = r @ CHR '','' # t @ show_action a \<and> CHR '','' \<notin> set r \<and> criterion c t"
  then show "rule_parts s = Ok (r, c, show_action a)"
    by (auto simp: criterion_def rule_parts_simps)
qed

lemma Rule_from_str_parts:
  "Rule_from_str ops s = chain (rule_parts s) (\<lambda>(r, criteria, a).
     if r = ''DOMAIN'' then chain (Action_from_str a) (\<lambda>a. Ok (Domain criteria a))
     else if r = ''DOMAIN-SUFFIX'' then chain (Action_from_str a) (\<lambda>a. Ok (DomainSuffix criteria a))
     else if r = ''DOMAIN-KEYWORD'' then chain (Action_from_str a) (\<lambda>a. Ok (DomainKeyword criteria a))
     else if r = ''IP-CIDR'' then
       chain (parse_cidr ops criteria) (\<lambda>c. chain (Action_from_str a) (\<lambda>a. Ok (IpCidr c a)))
     else if r = ''MATCH'' then chain (Action_from_str a) (\<lambda>a. Ok (Match a))
     else Panic)"
  by (simp only: Rule_from_str_def rule_parts_def)

lemma rule_line_parsed:
  assumes "rule_line ops s r"
  shows "Rule_from_str ops s = Ok r"
  using assms
proof cases
  case (domain c t a)
  then have "rule_parts s = Ok (''DOMAIN'', c, show_action a)" by (subst rule_parts_Ok) simp
  with domain show ?thesis by (simp add: Rule_from_str_parts)
next
  case (suffix c t a)
  then have "rule_parts s = Ok (''DOMAIN-SUFFIX'', c, show_action a)" by (subst rule_parts_Ok) simp
  with suffix show ?thesis by (simp add: Rule_from_str_parts)
next
  case (keyword c t a)
  then have "rule_parts s = Ok (''DOMAIN-KEYWORD'', c, show_action a)" by (subst rule_parts_Ok) simp
  with keyword show ?thesis by (simp add: Rule_from_str_parts)
next
  case (cidr c t n a)
  then have "rule_parts s = Ok (''IP-CIDR'', c, show_action a)" by (subst rule_parts_Ok) simp
  with cidr show ?thesis by (simp add: Rule_from_str_parts)
next
  case (match c t a)
  then have "rule_parts s = Ok (''MATCH'', c, show_action a)" by (subst rule_parts_Ok) simp
  with match show ?thesis by (simp add: Rule_from_str_parts)
qed

lemma parsed_rule_line:
  assumes "Rule_from_str ops s = Ok r"
  shows "rule_line ops s r"
proof -
  from assms obtain k c a where parts: "rule_parts s = Ok (k, c, show_action a)"
    and r: "k = ''DOMAIN'' \<and> r = Domain c a \<or> k = ''DOMAIN-SUFFIX'' \<and> r = DomainSuffix c a \<or>
      k = ''DOMAIN-KEYWORD'' \<and> r = DomainKeyword c a \<or>
      k = ''IP-CIDR'' \<and> (\<exists>n. parse_cidr ops c = Ok n \<and> r = IpCidr n a) \<or> k = ''MATCH'' \<and> r = Match a"
    by (auto simp: Rule_from_str_parts chain_eq_Ok Action_from_str_Ok split: if_splits)
  from parts obtain t where "s = k @ CHR '','' # t @ show_action a" "criterion c t"
    by (auto simp: rule_parts_Ok)
  with r show ?thesis
    using rule_line.intros [of c t ops] by auto
qed

lemma parse_rules_lines:
  "parse_rules ops ss = Ok rs \<longleftrightarrow> list_all2 (rule_line ops) ss rs"
proof (induction ss arbitrary: rs)
  case (Cons s ss)
  then show ?case
    by (cases rs) (auto simp: chain_eq_Ok intro: rule_line_parsed dest: parsed_rule_line)
qed auto

text \<open>C19: the rules of a configuration are accepted exactly when every line is in the rule language,
  and then they are the rules the lines denote, in order.\<close>

theorem rules_deserialize_language:
  "rules_deserialize ops ss = Ok p \<longleftrightarrow> list_all2 (rule_line ops) ss (rules p)"
  by (cases p) (auto simp: rules_deserialize_def chain_eq_Ok ProxyRules_new_def parse_rules_lines)

subsection \<open>Durations\<close>

lemma utf8_chars_ascii: "is_ascii s \<Longrightarrow> utf8_chars s = map (\<lambda>c. [c]) s"
  by (induction s) (simp_all add: is_ascii_def as_bytes_def utf8_step_ascii)

lemma parse_duration_ascii:
  assumes "ascii_numeric num" "is_ascii s"
  shows "parse_duration num s = chain (unwrap (parse_uint (2 ^ 64) (filter is_digit s))) (\<lambda>n.
    let unit = filter (\<lambda>c. \<not> is_digit c) s in
    if unit = ''s'' then Ok (n * 1000) else if unit = ''ms'' then Ok n else Err Other)"
proof -
  have "concat (filter (\<lambda>c. num c = b) (map (\<lambda>c. [c]) s)) = filter (\<lambda>c. is_digit c = b) s" for b
    using assms by (induction s) (auto simp: is_ascii_def ascii_numeric_def)
  from this [of True] this [of False] show ?thesis
    by (simp add: parse_duration_def utf8_chars_ascii [OF assms(2)] Let_def)
qed

lemma filter_show_nat [simp]:
  "filter is_digit (show_nat n) = show_nat n" "filter (\<lambda>c. \<not> is_digit c) (show_nat n) = []"
  using show_nat_digits [of n] by (simp_all add: list_all_iff filter_empty_conv)

text \<open>A number of seconds or milliseconds that fits into 64 bits is read from its decimal text
  and unit; a text without a digit panics, and a digit text with another unit is an error.\<close>

lemma parse_duration_text:
  assumes "ascii_numeric num" "n < 2 ^ 64" "is_ascii unit" "\<not> list_ex is_digit unit"
  shows "parse_duration num (show_nat n @ ''s'') = Ok (n * 1000) \<and>
    parse_duration num (show_nat n @ ''ms'') = Ok n \<and>
    parse_duration num unit = Panic \<and>
    (unit \<noteq> ''s'' \<longrightarrow> unit \<noteq> ''ms'' \<longrightarrow> parse_duration num (show_nat n @ unit) = Err Other)"
proof -
  have dig: "filter is_digit unit = []" "filter (\<lambda>c. \<not> is_digit c) unit = unit"
    using assms(4) by (auto simp: filter_empty_conv list_ex_iff filter_id_conv)
  have ascii: "is_ascii (show_nat n @ u)" if "is_ascii u" for u
    using that show_nat_ascii [of n] by (auto simp: is_ascii_def)
  have units: "is_ascii ''s''" "is_ascii ''ms''" by code_simp+
  have letters: "\<not> is_digit CHR ''s''" "\<not> is_digit CHR ''m''" by code_simp+
  note eq = parse_duration_ascii [OF assms(1)]
  have "parse_duration num (show_nat n @ ''s'') = Ok (n * 1000)"
    using assms(2) by (simp add: eq ascii units letters parse_show_nat Let_def)
  moreover have "parse_duration num (show_nat n @ ''ms'') = Ok n"
    using assms(2) by (simp add: eq ascii units letters parse_show_nat Let_def)
  moreover have "parse_duration num unit = Panic"
    by (simp add: eq assms(3) dig parse_uint_def)
  moreover have "parse_duration num (show_nat n @ unit) = Err Other"
    if "unit \<noteq> ''s''" "unit \<noteq> ''ms''"
    using assms(2) that by (simp add: eq ascii assms(3) dig parse_show_nat Let_def)
  ultimately show ?thesis by blast
qed

lemma parse_duration_text_instance:
  "parse_duration (list_all is_digit) (show_nat 30 @ ''s'') = Ok 30000"
proof -
  have "ascii_numeric (list_all is_digit)" by (simp add: ascii_numeric_def)
  moreover have "is_ascii ''min''" "\<not> list_ex is_digit ''min''" by code_simp+
  ultimately show ?thesis
    using parse_duration_text [of "list_all is_digit" 30 "''min''"] by simp
qed

end
