(* ===== verification/Server_Config.thy ===== *)
theory Server_Config
  imports Proxy_Rules Cipher_Type
begin

text \<open>
  The configuration of a Shadowsocks server, \<^verbatim>\<open>config/src/server_config.rs\<close>, and the record of the
  whole configuration of \<^verbatim>\<open>config/src/lib.rs\<close>.  The text of an IPv4 socket address is modelled; the
  printing and parsing of the bracketed IPv6 form of \<^verbatim>\<open>std::net\<close> are two functions the definitions
  take, and \<open>v6_text\<close> says what is relied on: what was printed is parsed back, and only texts that
  begin with a bracket are parsed.
\<close>

record v6_ops =
  show_v6 :: "socket_addr \<Rightarrow> string"
  parse_v6 :: "string \<Rightarrow> socket_addr option"
  show_ipv6 :: "ipv6 \<Rightarrow> string"
  parse_ipv6 :: "string \<Rightarrow> ipv6 option"

definition v6_text :: "v6_ops \<Rightarrow> bool" where
  "v6_text ops \<longleftrightarrow>
     (\<forall>ip p. parse_v6 ops (show_v6 ops (V6 ip p 0 0)) = Some (V6 ip p 0 0)) \<and>
     (\<forall>s a. parse_v6 ops s = Some a \<longrightarrow> (\<exists>r. s = CHR ''['' # r))"

text \<open>The port of a socket address is at most five digits, without a sign.\<close>

definition parse_port :: "string \<Rightarrow> u16 option" where
  "parse_port s =
     (if s \<noteq> [] \<and> length s \<le> 5 \<and> list_all is_digit s \<and> digits_val s < 65536
      then Some (of_nat (digits_val s)) else None)"

definition parse_v4 :: "string \<Rightarrow> socket_addr option" where
  "parse_v4 s = (case splitn 2 CHR '':'' s of
      [a, p] \<Rightarrow> (case (parse_ipv4 a, parse_port p) of (Some ip, Some port) \<Rightarrow> Some (V4 ip port) | _ \<Rightarrow> None)
    | _ \<Rightarrow> None)"

definition parse_socket_addr :: "v6_ops \<Rightarrow> string \<Rightarrow> socket_addr option" where
  "parse_socket_addr ops s = (case parse_v4 s of Some a \<Rightarrow> Some a | None \<Rightarrow> parse_v6 ops s)"

fun show_socket_addr :: "v6_ops \<Rightarrow> socket_addr \<Rightarrow> string" where
  "show_socket_addr ops (V4 ip port) = show_ipv4 ip @ '':'' @ show_nat (unat port)"
| "show_socket_addr ops a = show_v6 ops a"

subsection \<open>Server addresses\<close>

datatype server_addr =
    SocketAddr socket_addr
  | DomainName string u16

fun listen_addr :: "server_addr \<Rightarrow> socket_addr outcome" where
  "listen_addr (SocketAddr s) = Ok s"
| "listen_addr (DomainName _ _) = Panic"

fun show_ip :: "v6_ops \<Rightarrow> ip_addr \<Rightarrow> string" where
  "show_ip ops (IpV4 a) = show_ipv4 a"
| "show_ip ops (IpV6 a) = show_ipv6 ops a"

text \<open>\<^verbatim>\<open>str::parse::<IpAddr>\<close>.\<close>

definition parse_ip :: "v6_ops \<Rightarrow> string \<Rightarrow> ip_addr option" where
  "parse_ip ops s = (case parse_ipv4 s of Some a \<Rightarrow> Some (IpV4 a) | None \<Rightarrow> map_option IpV6 (parse_ipv6 ops s))"

fun host :: "v6_ops \<Rightarrow> server_addr \<Rightarrow> string" where
  "host ops (SocketAddr s) = show_ip ops (socket_ip s)"
| "host ops (DomainName dm _) = dm"

fun port :: "server_addr \<Rightarrow> u16" where
  "port (SocketAddr s) = socket_port s"
| "port (DomainName _ p) = p"

definition ServerAddr_from_str :: "v6_ops \<Rightarrow> string \<Rightarrow> server_addr option" where
  "ServerAddr_from_str ops s = (case parse_socket_addr ops s of
      Some addr \<Rightarrow> Some (SocketAddr addr)
    | None \<Rightarrow> (case split_on CHR '':'' s of
         dn # p # _ \<Rightarrow> (case parse_uint 65536 p of Some n \<Rightarrow> Some (DomainName dn (of_nat n)) | None \<Rightarrow> None)
       | _ \<Rightarrow> None))"

fun show_server_addr :: "v6_ops \<Rightarrow> server_addr \<Rightarrow> string" where
  "show_server_addr ops (SocketAddr a) = show_socket_addr ops a"
| "show_server_addr ops (DomainName d p) = d @ '':'' @ show_nat (unat p)"

subsection \<open>Server configurations\<close>

record server_config =
  sc_name :: string
  sc_addr :: server_addr
  sc_password :: string
  sc_method :: cipher_type
  sc_connect_timeout :: duration
  sc_read_timeout :: duration
  sc_write_timeout :: duration
  sc_idle_connections :: nat

text \<open>The constructor derives the key for its trace message, so it panics where the derivation does.\<close>

definition ServerConfig_new ::
  "crypto_lib \<Rightarrow> string \<Rightarrow> server_addr \<Rightarrow> string \<Rightarrow> cipher_type \<Rightarrow> duration \<Rightarrow> duration \<Rightarrow> duration \<Rightarrow> nat \<Rightarrow>
    server_config outcome" where
  "ServerConfig_new lib name addr pwd method connect_timeout read_timeout write_timeout idle_connections =
     chain (bytes_to_key lib method (as_bytes pwd)) (\<lambda>enc_key.
     Ok \<lparr>sc_name = name, sc_addr = addr, sc_password = pwd, sc_method = method,
         sc_connect_timeout = connect_timeout, sc_read_timeout = read_timeout,
         sc_write_timeout = write_timeout, sc_idle_connections = idle_connections\<rparr>)"

definition ServerConfig_basic ::
  "crypto_lib \<Rightarrow> v6_ops \<Rightarrow> socket_addr \<Rightarrow> string \<Rightarrow> cipher_type \<Rightarrow> server_config outcome" where
  "ServerConfig_basic lib ops addr password method =
     ServerConfig_new lib (show_socket_addr ops addr) (SocketAddr addr) password method
       (30 * 1000) (30 * 1000) (30 * 1000) 10"

definition set_method :: "cipher_type \<Rightarrow> string \<Rightarrow> server_config \<Rightarrow> server_config" where
  "set_method t pwd c = c\<lparr>sc_password := pwd, sc_method := t\<rparr>"

definition set_addr :: "server_addr \<Rightarrow> server_config \<Rightarrow> server_config" where
  "set_addr a c = c\<lparr>sc_addr := a\<rparr>"

definition config_key :: "crypto_lib \<Rightarrow> server_config \<Rightarrow> u8 list outcome" where
  "config_key lib c = bytes_to_key lib (sc_method c) (as_bytes (sc_password c))"

text \<open>The fields that are read from strings.\<close>

definition cipher_type_deserialize :: "string \<Rightarrow> cipher_type outcome" where
  "cipher_type_deserialize s = CipherType_from_str s"

definition server_addr_deserialize :: "v6_ops \<Rightarrow> string \<Rightarrow> server_addr outcome" where
  "server_addr_deserialize ops s = (case ServerAddr_from_str ops s of Some a \<Rightarrow> Ok a | None \<Rightarrow> Err Other)"

record 'c config =
  server_configs :: "server_config list"
  dns_start_ip :: ipv4
  dns_server :: socket_addr
  tun_name :: string
  tun_ip :: ipv4
  tun_cidr :: 'c
  config_rules :: "'c proxy_rules"
  dns_listen :: string
  gateway_mode :: bool
  probe_timeout :: duration
  direct_connect_timeout :: duration
  direct_read_timeout :: duration
  direct_write_timeout :: duration
  max_connect_errors :: nat

subsection \<open>Printing and parsing\<close>

lemma length_show_nat_port: "n < 100000 \<Longrightarrow> length (show_nat n) \<le> 5"
  by (simp add: show_nat.simps [of n] show_nat.simps [of "n div 10"] show_nat.simps [of "n div 10 div 10"]
      show_nat.simps [of "n div 10 div 10 div 10"] show_nat.simps [of "n div 10 div 10 div 10 div 10"])

lemma unat_u16: "unat (p :: u16) < 65536"
  using unsigned_less [of p, where 'a = nat] by simp

lemma parse_port_show: "parse_port (show_nat (unat p)) = Some p"
  using show_nat_digits [of "unat p"] length_show_nat_port [of "unat p"] unat_u16 [of p]
  by (simp add: parse_port_def)

lemma show_nat_no_colon: "CHR '':'' \<notin> set (show_nat n)"
  using show_nat_digits [of n] by (auto simp: list_all_iff is_digit_def)

lemma ipv4_text_chars: "c \<in> set (show_ipv4 a) \<Longrightarrow> is_digit c \<or> c = CHR ''.''"
  using show_nat_digits by (cases a) (auto simp: show_ipv4_def list_all_iff)

lemma show_ipv4_no_colon: "CHR '':'' \<notin> set (show_ipv4 a)"
  using ipv4_text_chars [of "CHR '':''" a] by (auto simp: is_digit_def)

lemma splitn_colon:
  "CHR '':'' \<notin> set w \<Longrightarrow> splitn 2 CHR '':'' (w @ CHR '':'' # s) = [w, s]"
  using splitn_step [of "CHR '':''" w 0 s] by (simp add: numeral_2_eq_2)

lemma parse_v4_show: "parse_v4 (show_ipv4 ip @ '':'' @ show_nat (unat p)) = Some (V4 ip p)"
  by (simp add: parse_v4_def splitn_colon show_ipv4_no_colon parse_port_show)

lemma splitn_2_no_sep: "c \<notin> set w \<Longrightarrow> splitn 2 c w = [w]"
  by (simp add: numeral_2_eq_2)

lemma parse_v4_bracket: "parse_v4 (CHR ''['' # s) = None"
proof -
  have "parse_octet (CHR ''['' # w) = None" for w by (simp add: parse_octet_def is_digit_def)
  then have "parse_ipv4 (CHR ''['' # w) = None" for w
    by (simp add: parse_ipv4_def split: list.splits)
  then show ?thesis
    by (cases "CHR '':'' \<in> set s") (simp_all add: parse_v4_def numeral_2_eq_2 splitn_2_no_sep)
qed

text \<open>The addresses whose text denotes them: no scope or flow of an IPv6 address, and a domain name
  without a colon that is neither a dotted quad nor bracketed.\<close>

fun printable :: "server_addr \<Rightarrow> bool" where
  "printable (SocketAddr (V4 _ _)) = True"
| "printable (SocketAddr (V6 _ _ f s)) = (f = 0 \<and> s = 0)"
| "printable (DomainName d _) = (CHR '':'' \<notin> set d \<and> parse_ipv4 d = None \<and> (\<forall>r. d \<noteq> CHR ''['' # r))"

lemma server_addr_round_trip:
  assumes "v6_text ops" "printable a"
  shows "ServerAddr_from_str ops (show_server_addr ops a) = Some a"
proof (cases a)
  case (SocketAddr sa)
  then show ?thesis
  proof (cases sa)
    case (V4 ip p)
    with SocketAddr show ?thesis using parse_v4_show [of ip p] by (simp add: ServerAddr_from_str_def parse_socket_addr_def)
  next
    case (V6 ip p f sc)
    have p: "parse_v6 ops (show_v6 ops (V6 ip p 0 0)) = Some (V6 ip p 0 0)" using assms(1) by (simp add: v6_text_def)
    then obtain r where "show_v6 ops (V6 ip p 0 0) = CHR ''['' # r" using assms(1) unfolding v6_text_def by blast
    with V6 SocketAddr p assms(2) show ?thesis
      by (simp add: ServerAddr_from_str_def parse_socket_addr_def parse_v4_bracket)
  qed
next
  case (DomainName d p)
  let ?s = "d @ '':'' @ show_nat (unat p)"
  from assms(2) DomainName have d: "CHR '':'' \<notin> set d" "parse_ipv4 d = None" "\<forall>r. d \<noteq> CHR ''['' # r" by simp_all
  then have "parse_v4 ?s = None" by (simp add: parse_v4_def splitn_colon)
  moreover have "\<nexists>r. ?s = CHR ''['' # r" using d(3) by (cases d) simp_all
  then have "parse_v6 ops ?s = None" using assms(1) unfolding v6_text_def by (metis not_None_eq)
  moreover have "split_on CHR '':'' ?s = [d, show_nat (unat p)]"
    using d(1) show_nat_no_colon by (simp add: split_on_append_sep split_on_no_sep)
  ultimately show ?thesis
    using DomainName parse_show_nat [OF unat_u16 [of p]] by (simp add: ServerAddr_from_str_def parse_socket_addr_def)
qed

lemma config_key_new:
  "ServerConfig_new lib name addr pwd m ct rt wt n = Ok c \<Longrightarrow> \<exists>k. config_key lib c = Ok k \<and> sc_method c = m"
  by (auto simp: ServerConfig_new_def config_key_def chain_eq_Ok)

end
