(* ===== verification/Client_Stats.thy ===== *)
theory Client_Stats
  imports Socks5_Address
begin

text \<open>
  The statistics of the proxied connections, \<^verbatim>\<open>ssclient/src/client_stats.rs\<close>.  The lock around the
  table serialises the operations; a lock that is not obtained within three seconds makes the
  operation panic, which the definitions take as the argument \<open>locked\<close>.  A time is a number of
  nanoseconds since the epoch; \<open>never\<close> is the local time \<^verbatim>\<open>NEVER\<close>, the first of January 9999.
\<close>

type_synonym datetime = int

definition timestamp :: "datetime \<Rightarrow> int" where
  "timestamp t = t div 10 ^ 9"

record connection_stats =
  cs_address :: address
  open_time :: datetime
  close_time :: datetime
  sent_bytes :: u64
  recv_bytes :: u64

definition ConnectionStats_new :: "datetime \<Rightarrow> datetime \<Rightarrow> address \<Rightarrow> connection_stats" where
  "ConnectionStats_new never now addr =
     \<lparr>cs_address = addr, open_time = now, close_time = never, sent_bytes = 0, recv_bytes = 0\<rparr>"

definition is_open :: "datetime \<Rightarrow> connection_stats \<Rightarrow> bool" where
  "is_open never c \<longleftrightarrow> timestamp (close_time c) = timestamp never"

definition is_closed :: "datetime \<Rightarrow> connection_stats \<Rightarrow> bool" where
  "is_closed never c \<longleftrightarrow> \<not> is_open never c"

record client_stats =
  counter :: u64
  inner :: "u64 \<rightharpoonup> connection_stats"

definition ClientStats_new :: client_stats where
  "ClientStats_new = \<lparr>counter = 0, inner = Map.empty\<rparr>"

definition lock_inner :: "bool \<Rightarrow> (client_stats, unit) rust" where
  "lock_inner locked = (if locked then return () else panic)"

text \<open>The counter is advanced before the lock is taken.\<close>

definition add_connection :: "bool \<Rightarrow> datetime \<Rightarrow> datetime \<Rightarrow> address \<Rightarrow> (client_stats, u64) rust" where
  "add_connection locked never now addr = (\<lambda>s.
     let idx = counter s in
     bind (lock_inner locked) (\<lambda>_ s. (Ok idx, s\<lparr>inner := (inner s)(idx \<mapsto> ConnectionStats_new never now addr)\<rparr>))
       (s\<lparr>counter := counter s + 1\<rparr>))"

definition stats_is_empty :: "bool \<Rightarrow> (client_stats, bool) rust" where
  "stats_is_empty locked = bind (lock_inner locked) (\<lambda>_ s. (Ok (inner s = Map.empty), s))"

definition recycle_stats :: "bool \<Rightarrow> datetime \<Rightarrow> (client_stats, unit) rust" where
  "recycle_stats locked never = bind (lock_inner locked) (\<lambda>_ s. (Ok (), s\<lparr>inner := (\<lambda>k.
     case inner s k of Some v \<Rightarrow> if \<not> is_closed never v then Some v else None | None \<Rightarrow> None)\<rparr>))"

definition update_connection_stats ::
  "bool \<Rightarrow> u64 \<Rightarrow> (connection_stats \<Rightarrow> connection_stats) \<Rightarrow> (client_stats, unit) rust" where
  "update_connection_stats locked idx f = bind (lock_inner locked) (\<lambda>_ s.
     case inner s idx of
       Some stats \<Rightarrow> (Ok (), s\<lparr>inner := (inner s)(idx \<mapsto> f stats)\<rparr>)
     | None \<Rightarrow> (Ok (), s))"

text \<open>The updates the client makes.\<close>

definition add_sent :: "nat \<Rightarrow> connection_stats \<Rightarrow> connection_stats" where
  "add_sent n c = c\<lparr>sent_bytes := sent_bytes c + of_nat n\<rparr>"

definition add_recv :: "nat \<Rightarrow> connection_stats \<Rightarrow> connection_stats" where
  "add_recv n c = c\<lparr>recv_bytes := recv_bytes c + of_nat n\<rparr>"

definition close_at :: "datetime \<Rightarrow> connection_stats \<Rightarrow> connection_stats" where
  "close_at now c = c\<lparr>close_time := now\<rparr>"

subsection \<open>Identifiers are not reused\<close>

text \<open>The keys of the table are among the numbers given out so far.\<close>

definition stats_ok :: "nat \<Rightarrow> client_stats \<Rightarrow> bool" where
  "stats_ok n s \<longleftrightarrow> counter s = of_nat n \<and> (\<forall>k \<in> dom (inner s). unat k < n)"

lemma stats_ok_new: "stats_ok 0 ClientStats_new"
  by (simp add: stats_ok_def ClientStats_new_def)

lemma add_connection_fresh:
  assumes "stats_ok n s" "n < 2 ^ 64"
  shows "add_connection True never now addr s = (Ok (of_nat n),
      \<lparr>counter = of_nat (Suc n), inner = (inner s)(of_nat n \<mapsto> ConnectionStats_new never now addr)\<rparr>)"
    and "of_nat n \<notin> dom (inner s)"
    and "stats_ok (Suc n) \<lparr>counter = of_nat (Suc n), inner = (inner s)(of_nat n \<mapsto> c)\<rparr>"
proof -
  have n: "unat (of_nat n :: u64) = n" using assms(2) by (simp add: unat_of_nat)
  show "add_connection True never now addr s = (Ok (of_nat n),
      \<lparr>counter = of_nat (Suc n), inner = (inner s)(of_nat n \<mapsto> ConnectionStats_new never now addr)\<rparr>)"
    using assms(1) by (cases s) (simp add: add_connection_def lock_inner_def stats_ok_def Let_def bind_def)
  show "of_nat n \<notin> dom (inner s)" using assms(1) n unfolding stats_ok_def by (metis less_irrefl)
  show "stats_ok (Suc n) \<lparr>counter = of_nat (Suc n), inner = (inner s)(of_nat n \<mapsto> c)\<rparr>"
    using assms(1) n by (auto simp: stats_ok_def less_Suc_eq)
qed

lemma update_connection_stats_ok:
  "stats_ok n s \<Longrightarrow> \<exists>s'. update_connection_stats True idx f s = (Ok (), s') \<and> stats_ok n s' \<and>
     inner s' = (inner s)(idx := map_option f (inner s idx))"
  by (auto simp: update_connection_stats_def lock_inner_def stats_ok_def bind_def fun_upd_idem split: option.splits)

lemma recycle_stats_ok:
  "stats_ok n s \<Longrightarrow> \<exists>s'. recycle_stats True never s = (Ok (), s') \<and> stats_ok n s' \<and>
     (\<forall>k c. inner s' k = Some c \<longleftrightarrow> inner s k = Some c \<and> is_open never c)"
  by (auto simp: recycle_stats_def lock_inner_def stats_ok_def bind_def is_closed_def dom_def split: option.splits if_splits)

end
