(* ===== verification/Connection_Pool.thy ===== *)
theory Connection_Pool
  imports Seeker_Prelude "HOL-Library.Multiset"
begin

text \<open>
  The pool of idle connections to the Shadowsocks server, \<^verbatim>\<open>ssclient/src/connection_pool.rs\<close>.
  One task, \<^verbatim>\<open>run_connection_pool\<close>, keeps the queue of idle connections filled; any number of tasks
  take connections with \<^verbatim>\<open>get_connection\<close>.  The tasks interleave at their \<^verbatim>\<open>await\<close> points: the queue is
  behind a lock that is held for one queue operation at a time, and a channel of capacity one wakes
  the filler.  Connections are opaque values the connector returns; it may also fail or time out.
  A getter whose future is dropped before it returns is not modelled.
\<close>

subsection \<open>State\<close>

text \<open>Where the filling task is: about to read the length of the queue, in its inner loop with the
  length it knows, holding a new connection, or waiting for a signal.\<close>

datatype 'c filler =
    Checking
  | Filling nat
  | Connected 'c
  | Waiting

text \<open>Where a call of \<^verbatim>\<open>get_connection\<close> is: before the queue is popped, after it was found empty,
  holding its result while it signals the filler, and returned.\<close>

datatype 'c getter =
    Started
  | Empty
  | Holding "error_kind + 'c"
  | Returned "error_kind + 'c"

record 'c pool =
  max_idle :: nat
  connections :: "'c list"
  signals :: nat
  filler :: "'c filler"
  getters :: "nat \<rightharpoonup> 'c getter"

definition CHANNEL_CAP :: nat where "CHANNEL_CAP = 1"

definition Pool_new :: "nat \<Rightarrow> 'c pool" where
  "Pool_new n = \<lparr>max_idle = n, connections = [], signals = 0, filler = Checking, getters = Map.empty\<rparr>"

definition pool_size :: "'c pool \<Rightarrow> nat" where
  "pool_size p = length (connections p)"

text \<open>\<^verbatim>\<open>new_connection\<close>: the result of the connector under its timeout, unchanged.\<close>

definition new_connection :: "error_kind + 'c \<Rightarrow> error_kind + 'c" where
  "new_connection r = (case r of Inr conn \<Rightarrow> Inr conn | Inl e \<Rightarrow> Inl e)"

subsection \<open>The filling task\<close>

text \<open>What the task does next: it is blocked, it goes on by itself, or it awaits the connector.\<close>

datatype 'c fill_result =
    Blocked
  | Next "'c pool"
  | Connect "error_kind + 'c \<Rightarrow> 'c pool"

definition filler_step :: "'c pool \<Rightarrow> 'c fill_result" where
  "filler_step p = (case filler p of
      Checking \<Rightarrow> Next (p\<lparr>filler := Filling (length (connections p))\<rparr>)
    | Filling len \<Rightarrow>
        if len < max_idle p
        then Connect (\<lambda>r. case new_connection r of
               Inr conn \<Rightarrow> p\<lparr>filler := Connected conn\<rparr>
             | Inl e \<Rightarrow> p\<lparr>filler := Filling len\<rparr>)
        else Next (p\<lparr>filler := Waiting\<rparr>)
    | Connected conn \<Rightarrow>
        let conns = connections p @ [conn] in
        Next (p\<lparr>connections := conns, filler := Filling (length conns)\<rparr>)
    | Waiting \<Rightarrow>
        if signals p = 0 then Blocked
        else Next (p\<lparr>signals := signals p - 1, filler := Checking\<rparr>))"

subsection \<open>Taking a connection\<close>

definition get_pop :: "nat \<Rightarrow> 'c pool \<Rightarrow> 'c pool" where
  "get_pop i p = (case connections p of
      conn # rest \<Rightarrow> p\<lparr>connections := rest, getters := (getters p)(i \<mapsto> Holding (Inr conn))\<rparr>
    | [] \<Rightarrow> p\<lparr>getters := (getters p)(i \<mapsto> Empty)\<rparr>)"

definition get_direct :: "nat \<Rightarrow> error_kind + 'c \<Rightarrow> 'c pool \<Rightarrow> 'c pool" where
  "get_direct i r p = p\<lparr>getters := (getters p)(i \<mapsto> Holding (new_connection r))\<rparr>"

text \<open>Sending blocks while the channel is full; after five seconds the call goes on without it.\<close>

definition get_signal :: "nat \<Rightarrow> error_kind + 'c \<Rightarrow> 'c pool \<Rightarrow> 'c pool" where
  "get_signal i ret p =
     (let p = (if signals p < CHANNEL_CAP then p\<lparr>signals := signals p + 1\<rparr> else p) in
      p\<lparr>getters := (getters p)(i \<mapsto> Returned ret)\<rparr>)"

text \<open>The interleaving of the tasks, labelled with what each step does.\<close>

datatype 'c pool_action =
    Fill
  | FillConnect "error_kind + 'c"
  | Call nat
  | Pop nat
  | Dial nat "error_kind + 'c"
  | Signal nat

inductive pool_step :: "'c pool \<Rightarrow> 'c pool_action \<Rightarrow> 'c pool \<Rightarrow> bool" where
  fill: "filler_step p = Next p' \<Longrightarrow> pool_step p Fill p'"
| fill_connect: "filler_step p = Connect k \<Longrightarrow> pool_step p (FillConnect r) (k r)"
| call: "getters p i = None \<Longrightarrow> pool_step p (Call i) (p\<lparr>getters := (getters p)(i \<mapsto> Started)\<rparr>)"
| pop: "getters p i = Some Started \<Longrightarrow> pool_step p (Pop i) (get_pop i p)"
| direct: "getters p i = Some Empty \<Longrightarrow> pool_step p (Dial i r) (get_direct i r p)"
| signal: "getters p i = Some (Holding ret) \<Longrightarrow> pool_step p (Signal i) (get_signal i ret p)"

inductive pool_run :: "nat \<Rightarrow> 'c pool_action list \<Rightarrow> 'c pool \<Rightarrow> bool" for n where
  start: "pool_run n [] (Pool_new n)"
| step: "pool_run n as p \<Longrightarrow> pool_step p a p' \<Longrightarrow> pool_run n (as @ [a]) p'"

inductive_cases pool_stepE: "pool_step p a p'"

lemmas pool_ops = filler_step_def get_pop_def get_direct_def get_signal_def new_connection_def

subsection \<open>Invariant: the bound and the pending wake-up\<close>

fun busy :: "'c getter \<Rightarrow> bool" where
  "busy Started = False"
| "busy Empty = True"
| "busy (Holding _) = True"
| "busy (Returned _) = False"

text \<open>A wake-up is on its way: it is in the channel, or a getter has yet to send it.\<close>

definition awake :: "'c pool \<Rightarrow> bool" where
  "awake p \<longleftrightarrow> signals p \<noteq> 0 \<or> (\<exists>i g. getters p i = Some g \<and> busy g)"

fun filler_ok :: "'c pool \<Rightarrow> 'c filler \<Rightarrow> bool" where
  "filler_ok p Checking = True"
| "filler_ok p (Filling len) = (len \<le> max_idle p \<and> pool_size p \<le> len \<and> (pool_size p = len \<or> awake p))"
| "filler_ok p (Connected _) = (pool_size p < max_idle p)"
| "filler_ok p Waiting = (pool_size p = max_idle p \<or> awake p)"

definition pool_inv :: "'c pool \<Rightarrow> bool" where
  "pool_inv p \<longleftrightarrow> pool_size p \<le> max_idle p \<and> signals p \<le> CHANNEL_CAP \<and> filler_ok p (filler p)"

lemma filler_ok_weaken:
  assumes "filler_ok p f" "max_idle p' = max_idle p" "pool_size p' \<le> pool_size p" "awake p'"
  shows "filler_ok p' f"
  using assms by (cases f) auto

lemma pool_inv_new: "pool_inv (Pool_new n)"
  by (simp add: pool_inv_def Pool_new_def pool_size_def)

lemma filler_step_inv:
  assumes "pool_inv p"
  shows "filler_step p = Next p' \<Longrightarrow> pool_inv p'" "filler_step p = Connect k \<Longrightarrow> pool_inv (k r)"
  using assms
  by (auto simp: filler_step_def new_connection_def pool_inv_def pool_size_def awake_def Let_def
      split: filler.splits if_splits sum.splits)

lemma getter_step_inv:
  assumes "pool_inv p"
  shows "getters p i = None \<Longrightarrow> pool_inv (p\<lparr>getters := (getters p)(i \<mapsto> Started)\<rparr>)"
    "pool_inv (get_pop i p)" "pool_inv (get_direct i r p)" "pool_inv (get_signal i ret p)"
proof -
  let ?c = "p\<lparr>getters := (getters p)(i \<mapsto> Started)\<rparr>"
  show "pool_inv ?c" if "getters p i = None"
  proof -
    have "awake ?c \<longleftrightarrow> awake p" using that unfolding awake_def by (auto split: if_splits) (metis option.distinct(1))
    with assms show ?thesis by (cases "filler p") (auto simp: pool_inv_def pool_size_def)
  qed
  have "awake (get_pop i p)" "awake (get_direct i r p)"
    by (auto simp: awake_def get_pop_def get_direct_def split: list.splits)
  with assms filler_ok_weaken [of p "filler p"] show "pool_inv (get_pop i p)" "pool_inv (get_direct i r p)"
    by (auto simp: pool_inv_def get_pop_def get_direct_def pool_size_def split: list.splits)
  have "awake (get_signal i ret p)" by (simp add: awake_def get_signal_def Let_def CHANNEL_CAP_def)
  with assms filler_ok_weaken [of p "filler p"] show "pool_inv (get_signal i ret p)"
    by (auto simp: pool_inv_def get_signal_def pool_size_def Let_def)
qed

lemma pool_step_inv: "pool_step p a p' \<Longrightarrow> pool_inv p \<Longrightarrow> pool_inv p'"
  by (induction rule: pool_step.induct) (auto intro: filler_step_inv getter_step_inv)

lemma pool_step_max_idle: "pool_step p a p' \<Longrightarrow> max_idle p' = max_idle p"
  by (erule pool_stepE)
     (auto simp: pool_ops Let_def split: filler.splits if_splits sum.splits list.splits)

lemma pool_run_inv: "pool_run n as p \<Longrightarrow> pool_inv p \<and> max_idle p = n"
proof (induction rule: pool_run.induct)
  case start
  show ?case by (simp add: pool_inv_new) (simp add: Pool_new_def)
next
  case (step as p a p')
  then show ?case by (simp add: pool_step_inv pool_step_max_idle)
qed

subsection \<open>Refinement of a bounded queue\<close>

text \<open>What the pool promises: a first-in first-out queue of at most \<open>n\<close> connections.  The filler
  stores connections, a call is given the oldest one, or one made for it.\<close>

datatype 'c event = Stored 'c | Given nat 'c | Made nat 'c

inductive queue_run :: "nat \<Rightarrow> 'c event list \<Rightarrow> 'c list \<Rightarrow> bool" for n where
  empty: "queue_run n [] []"
| stored: "queue_run n es q \<Longrightarrow> length q < n \<Longrightarrow> queue_run n (es @ [Stored c]) (q @ [c])"
| given: "queue_run n es (c # q) \<Longrightarrow> queue_run n (es @ [Given i c]) q"
| made: "queue_run n es q \<Longrightarrow> queue_run n (es @ [Made i c]) q"

text \<open>The events of a step, read off the state it is taken in.\<close>

definition events_of :: "'c pool \<Rightarrow> 'c pool_action \<Rightarrow> 'c event list" where
  "events_of p a = (case a of
      Fill \<Rightarrow> (case filler p of Connected c \<Rightarrow> [Stored c] | _ \<Rightarrow> [])
    | Pop i \<Rightarrow> (case connections p of c # _ \<Rightarrow> [Given i c] | [] \<Rightarrow> [])
    | Dial i (Inr c) \<Rightarrow> [Made i c]
    | _ \<Rightarrow> [])"

inductive pool_trace :: "nat \<Rightarrow> 'c event list \<Rightarrow> 'c pool \<Rightarrow> bool" for n where
  start: "pool_trace n [] (Pool_new n)"
| step: "pool_trace n es p \<Longrightarrow> pool_step p a p' \<Longrightarrow> pool_trace n (es @ events_of p a) p'"

lemma pool_trace_run: "pool_trace n es p \<Longrightarrow> \<exists>as. pool_run n as p"
  by (induction rule: pool_trace.induct) (blast intro: pool_run.intros)+

lemma pool_step_simulates:
  assumes "pool_step p a p'" "pool_inv p" "queue_run (max_idle p) es (connections p)"
  shows "queue_run (max_idle p) (es @ events_of p a) (connections p')"
  using assms
proof (cases rule: pool_step.cases)
  case fill
  show ?thesis
  proof (cases "filler p")
    case (Connected c)
    with assms(2) have "length (connections p) < max_idle p" by (simp add: pool_inv_def pool_size_def)
    with fill Connected assms(3) show ?thesis
      by (auto simp: events_of_def filler_step_def Let_def intro: queue_run.intros)
  qed (use fill assms(3) in \<open>auto simp: events_of_def filler_step_def split: if_splits\<close>)
next
  case (fill_connect k r)
  with assms(3) show ?thesis
    by (auto simp: events_of_def filler_step_def new_connection_def Let_def split: filler.splits if_splits sum.splits)
next
  case (pop i)
  with assms(3) show ?thesis
    by (cases "connections p") (auto simp: events_of_def get_pop_def intro: queue_run.intros)
next
  case (direct i r)
  with assms(3) show ?thesis
    by (cases r) (auto simp: events_of_def get_direct_def intro: queue_run.intros)
qed (auto simp: events_of_def get_signal_def Let_def)

lemma queue_run_order:
  "queue_run n es q \<Longrightarrow> [c. Stored c \<leftarrow> es] = [c. Given _ c \<leftarrow> es] @ q \<and> length q \<le> n"
  by (induction rule: queue_run.induct) auto


lemma sample_trace:
  "pool_trace 1 [Stored (7 :: nat), Given 0 7]
     \<lparr>max_idle = 1, connections = [], signals = 0, filler = Filling 1, getters = [0 \<mapsto> Holding (Inr 7)]\<rparr>"
proof -
  let ?p = "\<lambda>cs f g. \<lparr>max_idle = 1, connections = cs, signals = 0, filler = f, getters = g\<rparr> :: nat pool"
  have steps: "pool_step (Pool_new 1) Fill (?p [] (Filling 0) Map.empty)"
    "pool_step (?p [] (Filling 0) Map.empty) (FillConnect (Inr 7)) (?p [] (Connected 7) Map.empty)"
    "pool_step (?p [] (Connected 7) Map.empty) Fill (?p [7] (Filling 1) Map.empty)"
    "pool_step (?p [7] (Filling 1) Map.empty) (Call 0) (?p [7] (Filling 1) [0 \<mapsto> Started])"
    "pool_step (?p [7] (Filling 1) [0 \<mapsto> Started]) (Pop 0) (?p [] (Filling 1) [0 \<mapsto> Holding (Inr 7)])"
    by (auto simp: pool_step.simps pool_ops Pool_new_def Let_def)
  show ?thesis
    using pool_trace.start [of 1, THEN pool_trace.step, OF steps(1), THEN pool_trace.step, OF steps(2),
        THEN pool_trace.step, OF steps(3), THEN pool_trace.step, OF steps(4), THEN pool_trace.step, OF steps(5)]
    by (simp add: events_of_def Pool_new_def)
qed


subsection \<open>The pool is refilled\<close>

text \<open>The filling task running alone until it blocks, over the results its attempts to connect will
  have; \<open>None\<close> means that it is still running when the fuel or the results are used up.\<close>

fun run_connection_pool :: "nat \<Rightarrow> (error_kind + 'c) list \<Rightarrow> 'c pool \<Rightarrow> 'c pool option" where
  "run_connection_pool 0 rs p = None"
| "run_connection_pool (Suc n) rs p = (case filler_step p of
      Blocked \<Rightarrow> Some p
    | Next p' \<Rightarrow> run_connection_pool n rs p'
    | Connect k \<Rightarrow> (case rs of [] \<Rightarrow> None | r # rs' \<Rightarrow> run_connection_pool n rs' (k r)))"

lemma run_connection_pool_mono:
  "run_connection_pool n rs p = Some p' \<Longrightarrow> n \<le> m \<Longrightarrow> run_connection_pool m rs p = Some p'"
proof (induction n arbitrary: m rs p)
  case (Suc n)
  then obtain k where "m = Suc k" "n \<le> k" by (cases m) auto
  with Suc show ?case by (auto split: fill_result.splits list.splits)
qed simp

definition successes :: "(error_kind + 'c) list \<Rightarrow> nat" where
  "successes rs = length (filter (\<lambda>r. case r of Inr _ \<Rightarrow> True | Inl _ \<Rightarrow> False) rs)"

definition refills :: "(error_kind + 'c) list \<Rightarrow> 'c pool \<Rightarrow> bool" where
  "refills rs p \<longleftrightarrow> (\<exists>n p'. run_connection_pool n rs p = Some p' \<and> pool_size p' = max_idle p)"

lemma refills_Blocked: "filler_step p = Blocked \<Longrightarrow> pool_size p = max_idle p \<Longrightarrow> refills rs p"
  unfolding refills_def by (intro exI [of _ "Suc 0"] exI [of _ p]) simp

lemma refills_Next: "filler_step p = Next p' \<Longrightarrow> max_idle p' = max_idle p \<Longrightarrow> refills rs p' \<Longrightarrow> refills rs p"
  unfolding refills_def by (elim exE, rule_tac x = "Suc n" in exI) simp

lemma refills_Connect:
  "filler_step p = Connect k \<Longrightarrow> max_idle (k r) = max_idle p \<Longrightarrow> refills rs (k r) \<Longrightarrow> refills (r # rs) p"
  unfolding refills_def by (elim exE, rule_tac x = "Suc n" in exI) simp

lemma refills_attempt:
  assumes "filler p = Filling len" "len < max_idle p"
    and "refills rs (case r of Inr c \<Rightarrow> p\<lparr>filler := Connected c\<rparr> | Inl e \<Rightarrow> p\<lparr>filler := Filling len\<rparr>)"
  shows "refills (r # rs) p"
proof -
  obtain k where k: "filler_step p = Connect k"
      "k r = (case r of Inr c \<Rightarrow> p\<lparr>filler := Connected c\<rparr> | Inl e \<Rightarrow> p\<lparr>filler := Filling len\<rparr>)"
    using assms(1,2) by (auto simp: filler_step_def new_connection_def split: sum.splits)
  show ?thesis using assms(3) by (intro refills_Connect [OF k(1)]) (auto simp: k(2) split: sum.splits)
qed

lemma refills_Connected:
  assumes "filler p = Connected c"
    and "refills rs (p\<lparr>connections := connections p @ [c], filler := Filling (Suc (pool_size p))\<rparr>)"
  shows "refills rs p"
  by (rule refills_Next [OF _ _ assms(2)]) (simp_all add: assms(1) filler_step_def pool_size_def)

lemma refills_Waiting: "filler p = Waiting \<Longrightarrow> pool_size p = max_idle p \<Longrightarrow> refills rs p"
proof (induction "signals p" arbitrary: p)
  case 0
  then show ?case by (intro refills_Blocked) (simp_all add: filler_step_def)
next
  case (Suc s)
  let ?p = "\<lambda>f. p\<lparr>signals := s, filler := f\<rparr>"
  have "refills rs (?p Waiting)" using Suc.prems by (intro Suc.hyps(1)) (simp_all add: pool_size_def)
  then have "refills rs (?p (Filling (pool_size p)))"
    by (rule refills_Next [rotated 2]) (use Suc.prems in \<open>simp_all add: filler_step_def\<close>)
  then have "refills rs (?p Checking)"
    by (rule refills_Next [rotated 2]) (simp_all add: filler_step_def pool_size_def)
  then show ?case
    by (rule refills_Next [rotated 2]) (use Suc.hyps(2) [symmetric] Suc.prems in \<open>simp_all add: filler_step_def\<close>)
qed

lemma refills_Filling:
  "filler p = Filling (pool_size p) \<Longrightarrow> pool_size p \<le> max_idle p \<Longrightarrow> max_idle p \<le> pool_size p + successes rs \<Longrightarrow>
     refills rs p"
proof (induction rs arbitrary: p)
  case Nil
  then have "refills [] (p\<lparr>filler := Waiting\<rparr>)" by (intro refills_Waiting) (simp_all add: pool_size_def successes_def)
  then show ?case by (rule refills_Next [rotated 2]) (use Nil in \<open>simp_all add: filler_step_def successes_def\<close>)
next
  case (Cons r rs)
  show ?case
  proof (cases "pool_size p < max_idle p")
    case False
    then have "refills (r # rs) (p\<lparr>filler := Waiting\<rparr>)" using Cons.prems by (intro refills_Waiting) (simp_all add: pool_size_def)
    then show ?thesis by (rule refills_Next [rotated 2]) (use Cons.prems False in \<open>simp_all add: filler_step_def\<close>)
  next
    case True
    show ?thesis
    proof (cases r)
      case (Inl e)
      then have "refills rs (p\<lparr>filler := Filling (pool_size p)\<rparr>)"
        using Cons.prems by (intro Cons.IH) (simp_all add: pool_size_def successes_def)
      with Inl show ?thesis by - (rule refills_attempt [OF Cons.prems(1) True], simp)
    next
      case (Inr c)
      have "refills rs (p\<lparr>connections := connections p @ [c], filler := Filling (Suc (pool_size p))\<rparr>)"
        using Cons.prems True Inr by (intro Cons.IH) (simp_all add: pool_size_def successes_def)
      then have "refills rs (p\<lparr>filler := Connected c\<rparr>)"
        by - (rule refills_Connected [of _ c], simp_all add: pool_size_def)
      with Inr show ?thesis by - (rule refills_attempt [OF Cons.prems(1) True], simp)
    qed
  qed
qed

text \<open>With a stale length the loop either stores a connection, which corrects it, or waits and finds
  the signal.\<close>

lemma refills_signal:
  assumes "filler p = Waiting" "signals p \<noteq> 0" "pool_size p \<le> max_idle p" "max_idle p \<le> pool_size p + successes rs"
  shows "refills rs p"
proof -
  let ?p = "\<lambda>f. p\<lparr>signals := signals p - 1, filler := f\<rparr>"
  have "refills rs (?p (Filling (pool_size p)))"
    using assms(3,4) by (intro refills_Filling) (simp_all add: pool_size_def)
  then have "refills rs (?p Checking)"
    by (rule refills_Next [rotated 2]) (simp_all add: filler_step_def pool_size_def)
  then show ?thesis
    by (rule refills_Next [rotated 2]) (use assms(1,2) in \<open>simp_all add: filler_step_def\<close>)
qed

lemma refills_stale:
  assumes "filler p = Filling len" "signals p \<noteq> 0" "pool_size p < len" "len \<le> max_idle p"
    and "max_idle p \<le> pool_size p + successes rs"
  shows "refills rs p"
proof (cases "len < max_idle p")
  case False
  then have "refills rs (p\<lparr>filler := Waiting\<rparr>)" using assms by (intro refills_signal) (simp_all add: pool_size_def)
  then show ?thesis by (rule refills_Next [rotated 2]) (use assms False in \<open>simp_all add: filler_step_def\<close>)
next
  case True
  then show ?thesis
    using assms
  proof (induction rs arbitrary: p)
    case (Cons r rs)
    show ?case
    proof (cases r)
      case (Inl e)
      then have "refills rs (p\<lparr>filler := Filling len\<rparr>)"
        using Cons.prems by (intro Cons.IH) (simp_all add: pool_size_def successes_def)
      with Inl show ?thesis by - (rule refills_attempt [OF Cons.prems(2,1)], simp)
    next
      case (Inr c)
      have "refills rs (p\<lparr>connections := connections p @ [c], filler := Filling (Suc (pool_size p))\<rparr>)"
        using Cons.prems Inr by (intro refills_Filling) (simp_all add: pool_size_def successes_def)
      then have "refills rs (p\<lparr>filler := Connected c\<rparr>)"
        by - (rule refills_Connected [of _ c], simp_all add: pool_size_def)
      with Inr show ?thesis by - (rule refills_attempt [OF Cons.prems(2,1)], simp)
    qed
  qed (simp add: successes_def)
qed

text \<open>C29: no wake-up is lost: in every state the tasks can reach in which no call is under way, the
  filling task, given as many successful attempts to connect as connections are missing and any
  number of failed ones, comes to rest with a full pool.\<close>

theorem pool_refills:
  assumes "pool_run n as p" "\<forall>i g. getters p i = Some g \<longrightarrow> \<not> busy g"
    and "n \<le> pool_size p + successes rs"
  shows "\<exists>fuel p'. pool_size p' = n \<and> (\<forall>m \<ge> fuel. run_connection_pool m rs p = Some p')"
proof -
  from pool_run_inv [OF assms(1)] have inv: "pool_inv p" and n: "max_idle p = n" by auto
  have awake: "awake p \<longleftrightarrow> signals p \<noteq> 0" using assms(2) by (auto simp: awake_def)
  have "refills rs p"
  proof (cases "filler p")
    case Checking
    have "refills rs (p\<lparr>filler := Filling (pool_size p)\<rparr>)"
      using inv n assms(3) by (intro refills_Filling) (simp_all add: pool_size_def pool_inv_def)
    then show ?thesis by (rule refills_Next [rotated 2]) (simp_all add: Checking filler_step_def pool_size_def)
  next
    case (Filling len)
    with inv awake n assms(3) show ?thesis
      by (cases "pool_size p = len") (auto simp: pool_inv_def intro: refills_Filling refills_stale)
  next
    case (Connected c)
    have "refills rs (p\<lparr>connections := connections p @ [c], filler := Filling (Suc (pool_size p))\<rparr>)"
      using inv n assms(3) Connected by (intro refills_Filling) (simp_all add: pool_size_def pool_inv_def)
    with Connected show ?thesis by (rule refills_Connected)
  next
    case Waiting
    with inv awake n assms(3) show ?thesis
      by (cases "signals p = 0") (auto simp: pool_inv_def intro: refills_Waiting refills_signal)
  qed
  then show ?thesis unfolding refills_def n using run_connection_pool_mono by blast
qed

theorem pool_refills_witness:
  "\<exists>fuel p'. pool_size p' = 2 \<and>
     (\<forall>m \<ge> fuel. run_connection_pool m [Inl TimedOut, Inr (5 :: nat), Inr 6] (Pool_new 2) = Some p')"
proof -
  have "\<forall>i g. getters (Pool_new 2 :: nat pool) i = Some g \<longrightarrow> \<not> busy g" by (simp add: Pool_new_def)
  moreover have "2 \<le> pool_size (Pool_new 2 :: nat pool) + successes [Inl TimedOut, Inr (5 :: nat), Inr 6]"
    by (simp add: Pool_new_def pool_size_def successes_def)
  ultimately show ?thesis by (rule pool_refills [OF pool_run.start])
qed

end
