(* ===== verification/Ss_Client.thy ===== *)
theory Ss_Client
  imports Udp_Io Server_Config Client_Stats Connection_Pool Dns_Protocol
begin

text \<open>
  The Shadowsocks client, \<^verbatim>\<open>ssclient/src/lib.rs\<close>, with the stream objects of
  \<^verbatim>\<open>ssclient/src/encrypted_stream/\<close> it keeps in its pool: finding the server, making connections,
  relaying a TCP connection and UDP packets, and the counts of errors and bytes.

  The DNS client is its trait method \<^verbatim>\<open>send_query\<close>, a function the definitions take, and connecting
  to a server is another; both act on a state \<open>'w\<close> of the outside world.  The tunnel's TCP socket is
  a connection like the one to the server.
\<close>

type_synonym 'w dns_trait = "string \<Rightarrow> query_type \<Rightarrow> string \<times> u16 \<Rightarrow> bool \<Rightarrow> ('w, dns_packet) rust"

subsection \<open>Finding the server\<close>

definition resolve_domain :: "v6_ops \<Rightarrow> 'w dns_trait \<Rightarrow> string \<times> u16 \<Rightarrow> string \<Rightarrow> ('w, ip_addr option) rust" where
  "resolve_domain ops query server domain =
     bind (query domain QT_A server True) (\<lambda>packet.
     case get_first_a packet of
       Some ip \<Rightarrow> (case parse_ip ops ip of Some a \<Rightarrow> return (Some a) | None \<Rightarrow> throw Other)
     | None \<Rightarrow> return None)"

definition get_remote_ssserver_addr ::
  "v6_ops \<Rightarrow> 'w dns_trait \<Rightarrow> server_addr \<Rightarrow> string \<times> u16 \<Rightarrow> ('w, socket_addr) rust" where
  "get_remote_ssserver_addr ops query server_addr dns_srv = (case server_addr of
      SocketAddr addr \<Rightarrow> return addr
    | DomainName domain pt \<Rightarrow>
        bind (resolve_domain ops query dns_srv domain) (\<lambda>ip. case ip of
          Some i \<Rightarrow> return (new_socket_addr i pt)
        | None \<Rightarrow> throw NotFound))"

subsection \<open>Stream objects\<close>

text \<open>The two implementations of \<^verbatim>\<open>EncryptedTcpStream\<close> behind a box, with the same fields.\<close>

record enc_stream =
  es_kind :: cipher_category
  es_conn :: tcp
  es_method :: cipher_type
  es_key :: "u8 list"

definition StreamEncryptedTcpStream_new ::
  "(socket_addr \<Rightarrow> ('w, tcp) rust) \<Rightarrow> socket_addr \<Rightarrow> cipher_type \<Rightarrow> u8 list \<Rightarrow> ('w, enc_stream) rust" where
  "StreamEncryptedTcpStream_new connect ssserver method key =
     bind (connect ssserver) (\<lambda>conn. return \<lparr>es_kind = Stream, es_conn = conn, es_method = method, es_key = key\<rparr>)"

definition AeadEncryptedTcpStream_new ::
  "(socket_addr \<Rightarrow> ('w, tcp) rust) \<Rightarrow> socket_addr \<Rightarrow> cipher_type \<Rightarrow> u8 list \<Rightarrow> ('w, enc_stream) rust" where
  "AeadEncryptedTcpStream_new connect ssserver method key =
     bind (connect ssserver) (\<lambda>conn. return \<lparr>es_kind = Aead, es_conn = conn, es_method = method, es_key = key\<rparr>)"

datatype 'k enc_cipher = StreamEnc "'k stream_cipher" | AeadEnc aead_cipher

definition stream_get_writer :: "'k aead_lib \<Rightarrow> (nat \<Rightarrow> u8 list) \<Rightarrow> enc_stream \<Rightarrow> (tcp, 'k enc_cipher) rust" where
  "stream_get_writer lib rnd es =
     bind (StreamEncryptedWriter_new lib rnd (es_method es) (es_key es)) (\<lambda>w. return (StreamEnc w))"

definition stream_get_reader :: "'k aead_lib \<Rightarrow> enc_stream \<Rightarrow> (tcp, 'k enc_cipher) rust" where
  "stream_get_reader lib es =
     bind (StreamEncryptedReader_new lib (es_method es) (es_key es)) (\<lambda>r. return (StreamEnc r))"

definition aead_get_writer :: "'k aead_lib \<Rightarrow> (nat \<Rightarrow> u8 list) \<Rightarrow> enc_stream \<Rightarrow> (tcp, 'k enc_cipher) rust" where
  "aead_get_writer lib rnd es =
     bind (AeadEncryptedWriter_new lib rnd (es_method es) (es_key es)) (\<lambda>w. return (AeadEnc w))"

definition aead_get_reader :: "'k aead_lib \<Rightarrow> enc_stream \<Rightarrow> (tcp, 'k enc_cipher) rust" where
  "aead_get_reader lib es =
     bind (AeadEncryptedReader_new lib (es_method es) (es_key es)) (\<lambda>r. return (AeadEnc r))"

text \<open>The methods of the trait go to the implementation in the box.\<close>

definition get_writer :: "'k aead_lib \<Rightarrow> (nat \<Rightarrow> u8 list) \<Rightarrow> enc_stream \<Rightarrow> (tcp, 'k enc_cipher) rust" where
  "get_writer lib rnd es = (case es_kind es of
      Stream \<Rightarrow> stream_get_writer lib rnd es
    | Aead \<Rightarrow> aead_get_writer lib rnd es)"

definition get_reader :: "'k aead_lib \<Rightarrow> enc_stream \<Rightarrow> (tcp, 'k enc_cipher) rust" where
  "get_reader lib es = (case es_kind es of
      Stream \<Rightarrow> stream_get_reader lib es
    | Aead \<Rightarrow> aead_get_reader lib es)"

text \<open>Calling a method of the boxed writer or reader.\<close>

definition inside :: "('a \<Rightarrow> 'c) \<Rightarrow> ('a \<times> tcp, 'b) rust \<Rightarrow> 'a \<Rightarrow> tcp \<Rightarrow> 'b outcome \<times> ('c \<times> tcp)" where
  "inside box m k c = (case m (k, c) of (r, (k', c')) \<Rightarrow> (r, (box k', c')))"

fun writer_send_addr :: "'k aead_lib \<Rightarrow> cipher_type \<Rightarrow> address \<Rightarrow> ('k enc_cipher \<times> tcp, unit) rust" where
  "writer_send_addr lib t addr (StreamEnc k, c) = inside StreamEnc (stream_send_addr lib addr) k c"
| "writer_send_addr lib t addr (AeadEnc k, c) = inside AeadEnc (aead_send_addr lib t addr) k c"

fun writer_send_all :: "'k aead_lib \<Rightarrow> cipher_type \<Rightarrow> u8 list \<Rightarrow> ('k enc_cipher \<times> tcp, unit) rust" where
  "writer_send_all lib t data (StreamEnc k, c) = inside StreamEnc (stream_send_all lib data) k c"
| "writer_send_all lib t data (AeadEnc k, c) = inside AeadEnc (aead_send_all lib t data) k c"

fun reader_recv :: "'k aead_lib \<Rightarrow> cipher_type \<Rightarrow> nat \<Rightarrow> ('k enc_cipher \<times> tcp, u8 list) rust" where
  "reader_recv lib t n (StreamEnc k, c) = inside StreamEnc (stream_recv lib n) k c"
| "reader_recv lib t n (AeadEnc k, c) = inside AeadEnc (aead_recv lib t n) k c"

subsection \<open>The client\<close>

record ss_client =
  srv_cfg :: server_config
  dns_srv :: "string \<times> u16"
  connect_errors :: u64
  stats :: client_stats

text \<open>A client starts with no errors counted, no connections in its table and an empty pool.\<close>

definition SSClient_new :: "server_config \<Rightarrow> string \<times> u16 \<Rightarrow> ss_client \<times> enc_stream pool" where
  "SSClient_new cfg dns_server_addr =
     (\<lparr>srv_cfg = cfg, dns_srv = dns_server_addr, connect_errors = 0, stats = ClientStats_new\<rparr>,
      Pool_new (sc_idle_connections cfg))"

definition change_conf :: "server_config \<Rightarrow> ss_client \<Rightarrow> ss_client" where
  "change_conf conf c = c\<lparr>srv_cfg := conf, connect_errors := 0\<rparr>"

definition client_name :: "ss_client \<Rightarrow> string" where
  "client_name c = sc_name (srv_cfg c)"

text \<open>The connector of the pool; the key is derived before the server is looked up.\<close>

definition connect_server ::
  "crypto_lib \<Rightarrow> v6_ops \<Rightarrow> 'w dns_trait \<Rightarrow> (socket_addr \<Rightarrow> ('w, tcp) rust) \<Rightarrow> server_config \<Rightarrow> string \<times> u16 \<Rightarrow>
    ('w, enc_stream) rust" where
  "connect_server lib ops query connect cfg dns =
     bind (lifted (config_key lib cfg)) (\<lambda>key.
     bind (get_remote_ssserver_addr ops query (sc_addr cfg) dns) (\<lambda>ssserver.
     case category (sc_method cfg) of
       Stream \<Rightarrow> StreamEncryptedTcpStream_new connect ssserver (sc_method cfg) key
     | Aead \<Rightarrow> AeadEncryptedTcpStream_new connect ssserver (sc_method cfg) key))"

definition count_error :: "'a outcome \<Rightarrow> ss_client \<Rightarrow> ss_client" where
  "count_error r c = (case r of Err _ \<Rightarrow> c\<lparr>connect_errors := connect_errors c + 1\<rparr> | _ \<Rightarrow> c)"

definition connector ::
  "crypto_lib \<Rightarrow> v6_ops \<Rightarrow> 'w dns_trait \<Rightarrow> (socket_addr \<Rightarrow> ('w, tcp) rust) \<Rightarrow> (ss_client \<times> 'w, enc_stream) rust" where
  "connector lib ops query connect = (\<lambda>(c, w).
     case connect_server lib ops query connect (srv_cfg c) (dns_srv c) w of
       (ret, w') \<Rightarrow> (ret, (count_error ret c, w')))"

subsection \<open>Relaying a TCP connection\<close>

text \<open>The two tasks of \<^verbatim>\<open>handle_encrypted_tcp_stream\<close> share the connection and the tunnel's socket; each
  first makes its half of the encrypted stream.  A turn is one round of a task's loop, and says
  whether the task has finished.\<close>

record 'k relay =
  r_conn :: tcp
  r_tun :: tcp
  r_writer :: "'k enc_cipher option"
  r_reader :: "'k enc_cipher option"
  r_stats :: client_stats

definition with_conn :: "(tcp, 'a) rust \<Rightarrow> ('k relay, 'a) rust" where
  "with_conn m = (\<lambda>s. case m (r_conn s) of (r, c) \<Rightarrow> (r, s\<lparr>r_conn := c\<rparr>))"

definition with_tun :: "(tcp, 'a) rust \<Rightarrow> ('k relay, 'a) rust" where
  "with_tun m = (\<lambda>s. case m (r_tun s) of (r, c) \<Rightarrow> (r, s\<lparr>r_tun := c\<rparr>))"

definition with_stats :: "(client_stats, 'a) rust \<Rightarrow> ('k relay, 'a) rust" where
  "with_stats m = (\<lambda>s. case m (r_stats s) of (r, c) \<Rightarrow> (r, s\<lparr>r_stats := c\<rparr>))"

definition with_writer :: "'k enc_cipher \<Rightarrow> ('k enc_cipher \<times> tcp, 'a) rust \<Rightarrow> ('k relay, 'a) rust" where
  "with_writer k m = (\<lambda>s. case m (k, r_conn s) of (r, (k', c)) \<Rightarrow> (r, s\<lparr>r_writer := Some k', r_conn := c\<rparr>))"

definition with_reader :: "'k enc_cipher \<Rightarrow> ('k enc_cipher \<times> tcp, 'a) rust \<Rightarrow> ('k relay, 'a) rust" where
  "with_reader k m = (\<lambda>s. case m (k, r_conn s) of (r, (k', c)) \<Rightarrow> (r, s\<lparr>r_reader := Some k', r_conn := c\<rparr>))"

definition send_turn ::
  "'k aead_lib \<Rightarrow> (nat \<Rightarrow> u8 list) \<Rightarrow> bool \<Rightarrow> u64 \<Rightarrow> address \<Rightarrow> enc_stream \<Rightarrow> ('k relay, bool) rust" where
  "send_turn lib rnd locked idx addr es = (\<lambda>s. case r_writer s of
      None \<Rightarrow>
        bind (with_conn (get_writer lib rnd es)) (\<lambda>w.
        andthen (with_writer w (writer_send_addr lib (es_method es) addr)) (return False)) s
    | Some w \<Rightarrow>
        bind (with_tun (tcp_read MAX_PACKET_SIZE)) (\<lambda>buf.
        if buf = [] then return True
        else
          andthen (with_writer w (writer_send_all lib (es_method es) buf))
         (andthen (with_stats (update_connection_stats locked idx (add_sent (length buf)))) (return False))) s)"

definition recv_turn :: "'k aead_lib \<Rightarrow> bool \<Rightarrow> u64 \<Rightarrow> enc_stream \<Rightarrow> ('k relay, bool) rust" where
  "recv_turn lib locked idx es = (\<lambda>s. case r_reader s of
      None \<Rightarrow>
        bind (with_conn (get_reader lib es)) (\<lambda>r s. (Ok False, s\<lparr>r_reader := Some r\<rparr>)) s
    | Some r \<Rightarrow>
        bind (with_reader r (reader_recv lib (es_method es) MAX_PACKET_SIZE)) (\<lambda>buf.
        if buf = [] then return True
        else
          andthen (with_tun (tcp_write_all buf))
         (andthen (with_stats (update_connection_stats locked idx (add_recv (length buf)))) (return False))) s)"

text \<open>The race: the turns in the order of the schedule until a task finishes or fails; \<open>None\<close> when
  the schedule ends before.\<close>

fun race :: "('s, bool) rust \<Rightarrow> ('s, bool) rust \<Rightarrow> bool list \<Rightarrow> 's \<Rightarrow> unit outcome option \<times> 's" where
  "race send recv [] s = (None, s)"
| "race send recv (b # bs) s = (case (if b then send s else recv s) of
      (Ok True, s') \<Rightarrow> (Some (Ok ()), s')
    | (Ok False, s') \<Rightarrow> race send recv bs s'
    | (Err e, s') \<Rightarrow> (Some (Err e), s')
    | (Panic, s') \<Rightarrow> (Some Panic, s')
    | (Diverge, s') \<Rightarrow> (Some Diverge, s'))"

definition handle_encrypted_tcp_stream ::
  "'k aead_lib \<Rightarrow> (nat \<Rightarrow> u8 list) \<Rightarrow> bool list \<Rightarrow> u64 \<Rightarrow> tcp \<Rightarrow> address \<Rightarrow> enc_stream \<Rightarrow> client_stats \<Rightarrow>
    unit outcome option \<times> 'k relay" where
  "handle_encrypted_tcp_stream lib rnd schedule idx tun addr es st =
     race (send_turn lib rnd True idx addr es) (recv_turn lib True idx es) schedule
       \<lparr>r_conn = es_conn es, r_tun = tun, r_writer = None, r_reader = None, r_stats = st\<rparr>"

definition tcp_result :: "unit outcome \<Rightarrow> ss_client \<Rightarrow> ss_client" where
  "tcp_result ret c = (case ret of
      Err e \<Rightarrow> if e = TimedOut then c else c\<lparr>connect_errors := connect_errors c + 1\<rparr>
    | _ \<Rightarrow> c)"

text \<open>\<open>got\<close> is the result of the pool; \<open>opened\<close> and \<open>closed\<close> are the clock at the two ends.  The
  outcome is \<open>None\<close> while the relay runs.\<close>

definition handle_tcp_connection ::
  "'k aead_lib \<Rightarrow> (nat \<Rightarrow> u8 list) \<Rightarrow> bool list \<Rightarrow> datetime \<Rightarrow> datetime \<Rightarrow> datetime \<Rightarrow> error_kind + enc_stream \<Rightarrow>
    tcp \<Rightarrow> address \<Rightarrow> ss_client \<Rightarrow> unit outcome option \<times> tcp \<times> ss_client" where
  "handle_tcp_connection lib rnd schedule never opened closed got tun addr c = (case got of
      Inl e \<Rightarrow> (Some (Err e), tun, c)
    | Inr es \<Rightarrow>
        (case add_connection True never opened addr (stats c) of
           (Ok idx, st) \<Rightarrow>
             (case handle_encrypted_tcp_stream lib rnd schedule idx tun addr es st of
                (None, s) \<Rightarrow> (None, r_tun s, c\<lparr>stats := r_stats s\<rparr>)
              | (Some Panic, s) \<Rightarrow> (Some Panic, r_tun s, c\<lparr>stats := r_stats s\<rparr>)
              | (Some Diverge, s) \<Rightarrow> (Some Diverge, r_tun s, c\<lparr>stats := r_stats s\<rparr>)
              | (Some ret, s) \<Rightarrow>
                  (Some ret, r_tun s, tcp_result ret (c\<lparr>stats :=
                     snd (update_connection_stats True idx (close_at closed) (r_stats s))\<rparr>)))
         | (_, st) \<Rightarrow> (Some Panic, tun, c\<lparr>stats := st\<rparr>)))"

subsection \<open>What the counters mean\<close>

text \<open>The entry of a connection counts the bytes written to the tunnel and those read from it and sent;
  \<open>lost\<close> is what was read but could not be sent.\<close>

definition accounted ::
  "u64 \<Rightarrow> tcp \<Rightarrow> client_stats \<Rightarrow> connection_stats \<Rightarrow> u8 list \<Rightarrow> 'k relay \<Rightarrow> bool" where
  "accounted idx tun0 st0 e lost s \<longleftrightarrow>
     counter (r_stats s) = counter st0 \<and> (\<forall>k. k \<noteq> idx \<longrightarrow> inner (r_stats s) k = inner st0 k) \<and>
     (\<exists>data. inner (r_stats s) idx = Some (e\<lparr>sent_bytes := of_nat (length data),
          recv_bytes := of_nat (length (sent (r_tun s)))\<rparr>) \<and>
        concat (inbox tun0) = data @ lost @ concat (inbox (r_tun s)))"

lemma accounted_same:
  "r_tun s' = r_tun s \<Longrightarrow> r_stats s' = r_stats s \<Longrightarrow> accounted idx tun0 st0 e lost s' = accounted idx tun0 st0 e lost s"
  by (simp add: accounted_def)

lemma with_keeps:
  "with_conn m s = (r, s') \<Longrightarrow> r_tun s' = r_tun s \<and> r_stats s' = r_stats s"
  "with_writer k m' s = (r', s') \<Longrightarrow> r_tun s' = r_tun s \<and> r_stats s' = r_stats s"
  "with_reader k m' s = (r', s') \<Longrightarrow> r_tun s' = r_tun s \<and> r_stats s' = r_stats s"
  by (auto simp: with_conn_def with_writer_def with_reader_def split: prod.splits)

lemma tcp_read_cases:
  assumes "tcp_read n c = (r, c')" "0 < n"
  shows "sent c' = sent c" "r = Ok bs \<Longrightarrow> concat (inbox c) = bs @ concat (inbox c')"
    "(\<forall>bs. r \<noteq> Ok bs) \<Longrightarrow> inbox c' = inbox c"
  using assms by (auto simp: tcp_read_def io_fault_def bind_def dest: read_segment_concat
      split: prod.splits outcome.splits list.splits option.splits)

lemma tcp_write_all_cases:
  assumes "tcp_write_all bs c = (r, c')"
  shows "inbox c' = inbox c" "r = Ok () \<Longrightarrow> sent c' = sent c @ bs" "r \<noteq> Ok () \<Longrightarrow> sent c' = sent c"
  using assms by (auto simp: tcp_write_all_def io_fault_def bind_def
      split: prod.splits outcome.splits list.splits option.splits)

lemma update_known:
  "inner st idx = Some e \<Longrightarrow>
     update_connection_stats True idx f st = (Ok (), st\<lparr>inner := (inner st)(idx \<mapsto> f e)\<rparr>)"
  by (simp add: update_connection_stats_def lock_inner_def bind_def)

lemma count_sent:
  assumes "accounted idx tun0 st0 e bs s"
  shows "\<exists>s'. with_stats (update_connection_stats True idx (add_sent (length bs))) s = (Ok (), s') \<and>
    accounted idx tun0 st0 e [] s'"
proof -
  from assms obtain data where d: "inner (r_stats s) idx = Some (e\<lparr>sent_bytes := of_nat (length data),
      recv_bytes := of_nat (length (sent (r_tun s)))\<rparr>)" "concat (inbox tun0) = data @ bs @ concat (inbox (r_tun s))"
    by (auto simp: accounted_def)
  then show ?thesis
    using assms by (auto simp: with_stats_def update_known accounted_def add_sent_def intro!: exI [of _ "data @ bs"])
qed

lemma count_recv:
  assumes "accounted idx tun0 st0 e lost (s\<lparr>r_tun := t\<rparr>)" "sent (r_tun s) = sent t @ bs" "inbox (r_tun s) = inbox t"
  shows "\<exists>s'. with_stats (update_connection_stats True idx (add_recv (length bs))) s = (Ok (), s') \<and>
    accounted idx tun0 st0 e lost s'"
proof -
  from assms(1) obtain data where "inner (r_stats s) idx = Some (e\<lparr>sent_bytes := of_nat (length data),
      recv_bytes := of_nat (length (sent t))\<rparr>)" "concat (inbox tun0) = data @ lost @ concat (inbox t)"
    by (auto simp: accounted_def)
  then show ?thesis
    using assms by (auto simp: with_stats_def update_known accounted_def add_recv_def intro!: exI [of _ data])
qed

lemma bind_cases:
  assumes "bind m f s = (r, s')"
  obtains x s1 where "m s = (Ok x, s1)" "f x s1 = (r, s')"
  | r1 where "m s = (r1, s')" "\<forall>x. r1 \<noteq> Ok x" "\<forall>x. r \<noteq> Ok x"
  using assms by (auto simp: bind_def split: prod.splits outcome.splits)

lemma send_turn_accounted:
  assumes "accounted idx tun0 st0 e [] s" "send_turn lib rnd True idx addr es s = (r, s')"
  shows "\<exists>lost. accounted idx tun0 st0 e lost s' \<and> (\<forall>b. r = Ok b \<longrightarrow> lost = [])"
proof (cases "r_writer s")
  case None
  with assms(2) have "bind (with_conn (get_writer lib rnd es)) (\<lambda>w.
      andthen (with_writer w (writer_send_addr lib (es_method es) addr)) (return False)) s = (r, s')"
    by (simp add: send_turn_def)
  then have "r_tun s' = r_tun s \<and> r_stats s' = r_stats s"
    by (elim bind_cases) (auto dest!: with_keeps)
  with assms(1) show ?thesis by (metis accounted_same)
next
  case (Some w)
  let ?send = "\<lambda>bs. andthen (with_writer w (writer_send_all lib (es_method es) bs))
    (andthen (with_stats (update_connection_stats True idx (add_sent (length bs)))) (return False))"
  from Some assms(2) have "bind (with_tun (tcp_read MAX_PACKET_SIZE))
      (\<lambda>bs. if bs = [] then return True else ?send bs) s = (r, s')"
    by (simp add: send_turn_def)
  then show ?thesis
  proof (cases rule: bind_cases)
    case (1 bs s1)
    then obtain t where t: "tcp_read MAX_PACKET_SIZE (r_tun s) = (Ok bs, t)" "s1 = s\<lparr>r_tun := t\<rparr>"
      by (auto simp: with_tun_def split: prod.splits)
    have acc: "accounted idx tun0 st0 e bs s1"
      using assms(1) tcp_read_cases(1,2) [OF t(1) max_packet_pos] by (auto simp: accounted_def t(2))
    show ?thesis
    proof (cases "bs = []")
      case True
      with 1 acc show ?thesis by auto
    next
      case False
      with 1(2) have "?send bs s1 = (r, s')" by simp
      then show ?thesis
      proof (cases rule: bind_cases)
        case (1 u s2)
        with acc have "accounted idx tun0 st0 e bs s2" by (metis accounted_same with_keeps(2))
        from count_sent [OF this] 1(2) show ?thesis by (auto simp: bind_def)
      next
        case (2 r1)
        with acc show ?thesis by (metis accounted_same with_keeps(2))
      qed
    qed
  next
    case (2 r1)
    then obtain t where "tcp_read MAX_PACKET_SIZE (r_tun s) = (r1, t)" "s' = s\<lparr>r_tun := t\<rparr>"
      by (auto simp: with_tun_def split: prod.splits)
    with assms(1) tcp_read_cases(1,3) [of _ "r_tun s" r1 t, OF _ max_packet_pos] 2(2) show ?thesis by (fastforce simp: accounted_def)
  qed
qed

lemma recv_turn_accounted:
  assumes "accounted idx tun0 st0 e [] s" "recv_turn lib True idx es s = (r, s')"
  shows "accounted idx tun0 st0 e [] s'"
proof (cases "r_reader s")
  case None
  with assms(2) have "bind (with_conn (get_reader lib es)) (\<lambda>r s. (Ok False, s\<lparr>r_reader := Some r\<rparr>)) s = (r, s')"
    by (simp add: recv_turn_def)
  then have "r_tun s' = r_tun s \<and> r_stats s' = r_stats s"
    by (elim bind_cases) (auto dest!: with_keeps)
  with assms(1) show ?thesis by (metis accounted_same)
next
  case (Some k)
  let ?put = "\<lambda>bs. andthen (with_tun (tcp_write_all bs))
    (andthen (with_stats (update_connection_stats True idx (add_recv (length bs)))) (return False))"
  from Some assms(2) have "bind (with_reader k (reader_recv lib (es_method es) MAX_PACKET_SIZE))
      (\<lambda>bs. if bs = [] then return True else ?put bs) s = (r, s')"
    by (simp add: recv_turn_def)
  then show ?thesis
  proof (cases rule: bind_cases)
    case (1 bs s1)
    have acc: "accounted idx tun0 st0 e [] s1" using assms(1) 1(1) by (metis accounted_same with_keeps(3))
    show ?thesis
    proof (cases "bs = []")
      case True
      with 1 acc show ?thesis by auto
    next
      case False
      with 1(2) have "?put bs s1 = (r, s')" by simp
      then show ?thesis
      proof (cases rule: bind_cases)
        case (1 u s2)
        then obtain t where t: "tcp_write_all bs (r_tun s1) = (Ok (), t)" "s2 = s1\<lparr>r_tun := t\<rparr>"
          by (auto simp: with_tun_def split: prod.splits)
        have "accounted idx tun0 st0 e [] (s2\<lparr>r_tun := r_tun s1\<rparr>)" using acc by (simp add: t(2))
        from count_recv [OF this, of bs] tcp_write_all_cases(1,2) [OF t(1)] 1(2)
        show ?thesis by (auto simp: bind_def t(2))
      next
        case (2 r1)
        then obtain t where "tcp_write_all bs (r_tun s1) = (r1, t)" "s' = s1\<lparr>r_tun := t\<rparr>"
          by (auto simp: with_tun_def split: prod.splits)
        with acc tcp_write_all_cases(1,3) [of bs "r_tun s1" r1 t] 2(2) show ?thesis by (auto simp: accounted_def)
      qed
    qed
  next
    case (2 r1)
    with assms(1) show ?thesis by (metis accounted_same with_keeps(3))
  qed
qed

lemma race_accounted:
  assumes "accounted idx tun0 st0 e [] s"
    and "race (send_turn lib rnd True idx addr es) (recv_turn lib True idx es) bs s = (r, s')"
  shows "\<exists>lost. accounted idx tun0 st0 e lost s' \<and> (r = None \<or> r = Some (Ok ()) \<longrightarrow> lost = [])"
  using assms
proof (induction bs arbitrary: s)
  case (Cons b bs)
  obtain r1 s1 where turn: "(if b then send_turn lib rnd True idx addr es s else recv_turn lib True idx es s) = (r1, s1)"
    by fastforce
  obtain lost where lost: "accounted idx tun0 st0 e lost s1" "\<forall>b. r1 = Ok b \<longrightarrow> lost = []"
    using turn send_turn_accounted [OF Cons.prems(1)] recv_turn_accounted [OF Cons.prems(1)] by (cases b) fastforce+
  show ?case
  proof (cases "r1 = Ok False")
    case True
    then have "lost = []" using lost(2) by blast
    with lost(1) turn True Cons.prems(2) show ?thesis by (intro Cons.IH [of s1]) simp_all
  next
    case False
    with turn Cons.prems(2) lost show ?thesis
      by (auto split: outcome.splits bool.splits)
  qed
qed auto


text \<open>A connection over the plain cipher whose tunnel holds two bytes and then ends.\<close>

definition sample_cfg :: server_config where
  "sample_cfg = \<lparr>sc_name = ''a'', sc_addr = DomainName ''a.b'' 80, sc_password = [], sc_method = Plain,
     sc_connect_timeout = 1, sc_read_timeout = 1, sc_write_timeout = 1, sc_idle_connections = 1\<rparr>"

definition sample_client :: ss_client where
  "sample_client = \<lparr>srv_cfg = sample_cfg, dns_srv = ([], 53), connect_errors = 0, stats = ClientStats_new\<rparr>"

definition sample_stream :: enc_stream where
  "sample_stream = \<lparr>es_kind = Stream, es_conn = conn [], es_method = Plain, es_key = []\<rparr>"


end
