(* ===== verification/Udp_Relay.thy ===== *)
theory Udp_Relay
  imports Ss_Client
begin

text \<open>
  The relay of UDP packets, \<^verbatim>\<open>handle_udp_connection\<close> of \<^verbatim>\<open>ssclient/src/lib.rs\<close>.  Packets of the tunnel
  go to the Shadowsocks server through one socket per local source; for every such socket a task
  sends what comes back to that source.  A turn handles one packet; the errors of the sockets are
  arguments.
\<close>

subsection \<open>State\<close>

record udp_relay =
  udp_map :: "(socket_addr \<times> nat) list"
  bound :: nat                                       \<comment> \<open>sockets bound so far; a socket is its number\<close>
  encrypt_buf :: bytes_mut
  decrypt_buf :: "nat \<Rightarrow> bytes_mut"                  \<comment> \<open>one for each task\<close>
  to_server :: "(nat \<times> u8 list \<times> socket_addr) list"
  to_tun :: "(u8 list \<times> socket_addr) list"

definition udp_relay_new :: udp_relay where
  "udp_relay_new = \<lparr>udp_map = [], bound = 0, encrypt_buf = with_capacity MAX_PACKET_SIZE,
     decrypt_buf = (\<lambda>_. with_capacity MAX_PACKET_SIZE), to_server = [], to_tun = []\<rparr>"

definition on_encrypt_buf :: "(bytes_mut, 'a) rust \<Rightarrow> (udp_relay, 'a) rust" where
  "on_encrypt_buf m = (\<lambda>s. case m (encrypt_buf s) of (r, b) \<Rightarrow> (r, s\<lparr>encrypt_buf := b\<rparr>))"

definition on_decrypt_buf :: "nat \<Rightarrow> (bytes_mut, 'a) rust \<Rightarrow> (udp_relay, 'a) rust" where
  "on_decrypt_buf sock m = (\<lambda>s. case m (decrypt_buf s sock) of (r, b) \<Rightarrow>
     (r, s\<lparr>decrypt_buf := (decrypt_buf s)(sock := b)\<rparr>))"

definition io_result :: "error_kind option \<Rightarrow> ('s, unit) rust" where
  "io_result err = (case err of Some e \<Rightarrow> throw e | None \<Rightarrow> return ())"

subsection \<open>From the tunnel to the server\<close>

definition socket_for :: "socket_addr \<Rightarrow> error_kind option \<Rightarrow> (udp_relay, nat) rust" where
  "socket_for local_src bind_err = (\<lambda>s. case map_of (udp_map s) local_src of
      Some socket \<Rightarrow> (Ok socket, s)
    | None \<Rightarrow>
        andthen (io_result bind_err)
          (\<lambda>s. (Ok (bound s), s\<lparr>udp_map := (local_src, bound s) # udp_map s, bound := bound s + 1\<rparr>)) s)"

text \<open>The packet is received behind the address in a buffer of the maximal size; what does not fit is
  cut off.\<close>

definition udp_forward ::
  "'k aead_lib \<Rightarrow> (nat \<Rightarrow> u8 list) \<Rightarrow> cipher_type \<Rightarrow> u8 list \<Rightarrow> address \<Rightarrow> socket_addr \<Rightarrow>
    error_kind + u8 list \<times> socket_addr \<Rightarrow> error_kind option \<Rightarrow> error_kind option \<Rightarrow> (udp_relay, unit) rust" where
  "udp_forward lib rnd cipher_type key addr ssserver recvd bind_err send_err =
     andthen (on_encrypt_buf (\<lambda>b. (Ok (), clear b)))
    (bind (lifted (to_bytes addr)) (\<lambda>head.
     if length head \<noteq> serialized_len addr \<or> MAX_PACKET_SIZE < serialized_len addr then panic
     else (case recvd of
         Inl e \<Rightarrow> throw e
       | Inr (data, local_src) \<Rightarrow>
           bind (on_encrypt_buf (encrypt_payload lib rnd cipher_type key
             (head @ take (MAX_PACKET_SIZE - serialized_len addr) data))) (\<lambda>encrypt_size.
           bind (socket_for local_src bind_err) (\<lambda>udp_socket s.
           if length (bm_bytes (encrypt_buf s)) < encrypt_size then (Panic, s)
           else andthen (io_result send_err) (\<lambda>s. (Ok (), s\<lparr>to_server := to_server s @
             [(udp_socket, take encrypt_size (bm_bytes (encrypt_buf s)), ssserver)]\<rparr>)) s)))))"

subsection \<open>From the server to the tunnel\<close>

definition udp_backward ::
  "'k aead_lib \<Rightarrow> cipher_type \<Rightarrow> u8 list \<Rightarrow> nat \<Rightarrow> socket_addr \<Rightarrow> error_kind + u8 list \<Rightarrow> error_kind option \<Rightarrow>
    (udp_relay, unit) rust" where
  "udp_backward lib cipher_type key sock local_src recvd send_err =
     andthen (on_decrypt_buf sock (\<lambda>b. (Ok (), clear b)))
    (case recvd of
       Inl e \<Rightarrow> throw e
     | Inr bytes \<Rightarrow>
         bind (on_decrypt_buf sock (decrypt_payload lib cipher_type key (take MAX_PACKET_SIZE bytes))) (\<lambda>decrypt_size s.
         let plain = bm_bytes (decrypt_buf s sock) in
         bind (lifted (fst (read_address plain))) (\<lambda>addr.
         if decrypt_size < serialized_len addr \<or> length plain < decrypt_size then panic
         else andthen (io_result send_err) (\<lambda>s. (Ok (), s\<lparr>to_tun := to_tun s @
           [(take (decrypt_size - serialized_len addr) (drop (serialized_len addr) plain), local_src)]\<rparr>))) s))"

text \<open>The address of the server is looked up once, before the first packet.\<close>

definition udp_start ::
  "crypto_lib \<Rightarrow> v6_ops \<Rightarrow> 'w dns_trait \<Rightarrow> ss_client \<Rightarrow> ('w, u8 list \<times> cipher_type \<times> socket_addr \<times> udp_relay) rust" where
  "udp_start lib ops query c =
     bind (lifted (config_key lib (srv_cfg c))) (\<lambda>key.
     bind (get_remote_ssserver_addr ops query (sc_addr (srv_cfg c)) (dns_srv c)) (\<lambda>ssserver.
     return (key, sc_method (srv_cfg c), ssserver, udp_relay_new)))"

subsection \<open>Sockets and sources\<close>

text \<open>Every socket belongs to one source and every source has one socket.\<close>

definition sockets_ok :: "udp_relay \<Rightarrow> bool" where
  "sockets_ok s \<longleftrightarrow> distinct (map fst (udp_map s)) \<and> distinct (map snd (udp_map s)) \<and>
     (\<forall>i \<in> snd ` set (udp_map s). i < bound s)"

lemma sockets_ok_new: "sockets_ok udp_relay_new"
  by (simp add: sockets_ok_def udp_relay_new_def)

lemma socket_for_ok:
  assumes "sockets_ok s" "socket_for src err s = (r, s')"
  shows "sockets_ok s'" "r = Ok i \<Longrightarrow> map_of (udp_map s') src = Some i"
    "map_of (udp_map s) k = Some j \<Longrightarrow> map_of (udp_map s') k = Some j"
  using assms by (auto simp: socket_for_def io_result_def sockets_ok_def bind_def map_of_eq_None_iff
      split: option.splits dest: map_of_SomeD) (fastforce, fastforce, force)

text \<open>The buffers a relay starts with, and keeps: nothing makes them smaller.\<close>

definition buffers_ok :: "udp_relay \<Rightarrow> bool" where
  "buffers_ok s \<longleftrightarrow> MAX_PACKET_SIZE \<le> bm_cap (encrypt_buf s) \<and> (\<forall>i. MAX_PACKET_SIZE \<le> bm_cap (decrypt_buf s i))"

lemma buffers_ok_new: "buffers_ok udp_relay_new"
  by (simp add: buffers_ok_def udp_relay_new_def with_capacity_def)

lemma forward_sends:
  assumes ready: "udp_ready lib ks t key (serialized_len addr + length data)" "prefix_size (clib lib) t = Ok n"
    and rnd: "\<And>n. length (rnd n) = n" and addr: "wire_address addr"
    and fits: "n + serialized_len addr + length data \<le> MAX_PACKET_SIZE" and s: "sockets_ok s" "buffers_ok s"
  shows "\<exists>sock packet s' out. udp_forward lib rnd t key addr ssserver (Inr (data, src)) None None s = (Ok (), s') \<and>
    to_server s' = to_server s @ [(sock, packet, ssserver)] \<and> map_of (udp_map s') src = Some sock \<and>
    sockets_ok s' \<and> to_tun s' = to_tun s \<and> decrypt_buf s' = decrypt_buf s \<and>
    decrypt_payload lib t key packet (with_capacity MAX_PACKET_SIZE) = (Ok (serialized_len addr + length data), out) \<and>
    bm_bytes out = address_bytes addr @ data"
proof -
  let ?a = "address_bytes addr" and ?b = "clear (encrypt_buf s)"
  have a: "to_bytes addr = Ok ?a" "length ?a = serialized_len addr"
    using wire_writable [OF addr] by (simp_all add: to_bytes_writable serialized_len_def length_address_bytes)
  have "length (?a @ data) = serialized_len addr + length data" by (simp add: a(2))
  then obtain packet out' out2' where
    p: "encrypt_payload lib rnd t key (?a @ data) ?b = (Ok (length packet), out')" "bm_bytes out' = packet"
      "decrypt_payload lib t key packet (with_capacity MAX_PACKET_SIZE) = (Ok (serialized_len addr + length data), out2')"
      "bm_bytes out2' = ?a @ data"
    using packet_round_trip [of lib ks t key "?a @ data" n rnd ?b "with_capacity MAX_PACKET_SIZE"] ready rnd fits s(2)
    by (auto simp: buffers_ok_def clear_def with_capacity_def)
  let ?s1 = "s\<lparr>encrypt_buf := out'\<rparr>"
  obtain sock s2 where sock: "socket_for src None ?s1 = (Ok sock, s2)"
    by (cases "map_of (udp_map s) src") (auto simp: socket_for_def io_result_def bind_def)
  have "sockets_ok ?s1" using s(1) by (simp add: sockets_ok_def)
  note ok = socket_for_ok [OF this sock]
  have s2: "encrypt_buf s2 = out'" "to_server s2 = to_server s" "to_tun s2 = to_tun s" "decrypt_buf s2 = decrypt_buf s"
    using sock by (auto simp: socket_for_def io_result_def bind_def split: option.splits)
  let ?s' = "s2\<lparr>to_server := to_server s @ [(sock, packet, ssserver)]\<rparr>"
  have "udp_forward lib rnd t key addr ssserver (Inr (data, src)) None None s = (Ok (), ?s')"
    using p(1,2) a fits sock s2
    by (simp add: udp_forward_def on_encrypt_buf_def io_result_def bind_def)
  moreover have "sockets_ok ?s'" using ok(1) by (simp add: sockets_ok_def)
  ultimately show ?thesis using ok(2) s2 p(3,4) by fastforce
qed

lemma backward_sends:
  assumes ready: "udp_ready lib ks t key (serialized_len addr + length data)" "prefix_size (clib lib) t = Ok n"
    and rnd: "\<And>n. length (rnd n) = n" and addr: "wire_address addr"
    and fits: "n + serialized_len addr + length data + 16 \<le> MAX_PACKET_SIZE"
    and buf: "MAX_PACKET_SIZE \<le> bm_cap (decrypt_buf s sock)"
  shows "\<exists>reply out s'. encrypt_payload lib rnd t key (address_bytes addr @ data) (with_capacity MAX_PACKET_SIZE) =
      (Ok (length reply), out) \<and> bm_bytes out = reply \<and>
    udp_backward lib t key sock src (Inr reply) None s = (Ok (), s') \<and> to_tun s' = to_tun s @ [(data, src)]"
proof -
  let ?a = "address_bytes addr" and ?b = "clear (decrypt_buf s sock)"
  have a: "length ?a = serialized_len addr" by (simp add: serialized_len_def length_address_bytes)
  have "length (?a @ data) = serialized_len addr + length data" by (simp add: a)
  then obtain reply out out2' where
    p: "encrypt_payload lib rnd t key (?a @ data) (with_capacity MAX_PACKET_SIZE) = (Ok (length reply), out)"
      "bm_bytes out = reply" "length reply = n + length (?a @ data) + (if category t = Aead then 16 else 0)"
      "decrypt_payload lib t key reply ?b = (Ok (serialized_len addr + length data), out2')"
      "bm_bytes out2' = ?a @ data"
    using packet_round_trip [of lib ks t key "?a @ data" n rnd "with_capacity MAX_PACKET_SIZE" ?b] ready rnd fits buf
    by (auto simp: clear_def with_capacity_def)
  have "length reply \<le> MAX_PACKET_SIZE" using p(3) fits a by (simp split: if_splits)
  then have "udp_backward lib t key sock src (Inr reply) None s =
      (Ok (), s\<lparr>decrypt_buf := (decrypt_buf s)(sock := out2'), to_tun := to_tun s @ [(data, src)]\<rparr>)"
    using p(4,5) read_address_bytes [OF addr, of data] a
    by (simp add: udp_backward_def on_decrypt_buf_def io_result_def bind_def)
  then show ?thesis using p(1,2) by fastforce
qed

lemma sockets_ok_unique:
  assumes "sockets_ok s" "map_of (udp_map s) x = Some i" "map_of (udp_map s) y = Some i"
  shows "x = y"
proof -
  have "inj_on snd (set (udp_map s))" using assms(1) by (simp add: sockets_ok_def distinct_map)
  from inj_onD [OF this, of "(x, i)" "(y, i)"] map_of_SomeD [OF assms(2)] map_of_SomeD [OF assms(3)]
  show ?thesis by simp
qed

text \<open>C9: a UDP packet of the tunnel reaches the server and the answer comes back to its source: what
  is sent on the socket of the source decrypts at a peer with the same key to the target address
  and the packet, and when the peer answers with an address and data, encrypted the same way, the
  task of that socket, which belongs to no other source, sends exactly the data to the source.\<close>

theorem udp_relay_round_trip:
  assumes "udp_ready lib ks t key (serialized_len addr + length data)"
    and "udp_ready lib ks t key (serialized_len addr' + length data')"
    and "prefix_size (clib lib) t = Ok n" "\<And>n. length (rnd n) = n" "\<And>n. length (rnd' n) = n"
    and "wire_address addr" "wire_address addr'" "n + serialized_len addr + length data \<le> MAX_PACKET_SIZE"
    and "n + serialized_len addr' + length data' + 16 \<le> MAX_PACKET_SIZE" "sockets_ok s" "buffers_ok s"
  shows "\<exists>a a' sock packet s' out reply out2 s''. to_bytes addr = Ok a \<and> to_bytes addr' = Ok a' \<and>
    udp_forward lib rnd t key addr ssserver (Inr (data, src)) None None s = (Ok (), s') \<and>
    to_server s' = to_server s @ [(sock, packet, ssserver)] \<and>
    (\<forall>x. map_of (udp_map s') x = Some sock \<longleftrightarrow> x = src) \<and>
    decrypt_payload lib t key packet (with_capacity MAX_PACKET_SIZE) = (Ok (length (a @ data)), out) \<and>
    bm_bytes out = a @ data \<and>
    encrypt_payload lib rnd' t key (a' @ data') (with_capacity MAX_PACKET_SIZE) = (Ok (length reply), out2) \<and>
    bm_bytes out2 = reply \<and>
    udp_backward lib t key sock src (Inr reply) None s' = (Ok (), s'') \<and> to_tun s'' = to_tun s @ [(data', src)]"
proof -
  have a: "to_bytes x = Ok (address_bytes x)" "length (address_bytes x) = serialized_len x" if "wire_address x" for x
    using wire_writable [OF that] by (simp_all add: to_bytes_writable serialized_len_def length_address_bytes)
  obtain sock packet s' out where
    f: "udp_forward lib rnd t key addr ssserver (Inr (data, src)) None None s = (Ok (), s')"
      "to_server s' = to_server s @ [(sock, packet, ssserver)]" "map_of (udp_map s') src = Some sock"
      "sockets_ok s'" "to_tun s' = to_tun s" "decrypt_buf s' = decrypt_buf s"
      "decrypt_payload lib t key packet (with_capacity MAX_PACKET_SIZE) = (Ok (serialized_len addr + length data), out)"
      "bm_bytes out = address_bytes addr @ data"
    using forward_sends [OF assms(1,3,4,6,8,10,11), of ssserver src] by blast
  have "MAX_PACKET_SIZE \<le> bm_cap (decrypt_buf s' sock)" using assms(11) f(6) by (simp add: buffers_ok_def)
  from backward_sends [OF assms(2,3,5,7,9) this] obtain reply out2 s'' where
    b: "encrypt_payload lib rnd' t key (address_bytes addr' @ data') (with_capacity MAX_PACKET_SIZE) = (Ok (length reply), out2)"
      "bm_bytes out2 = reply" "udp_backward lib t key sock src (Inr reply) None s' = (Ok (), s'')"
      "to_tun s'' = to_tun s' @ [(data', src)]"
    by blast
  have "\<forall>x. map_of (udp_map s') x = Some sock \<longleftrightarrow> x = src" using f(3) sockets_ok_unique [OF f(4)] by blast
  moreover have "length (address_bytes addr @ data) = serialized_len addr + length data" using a(2) [OF assms(6)] by simp
  ultimately show ?thesis
    using a(1) [OF assms(6)] a(1) [OF assms(7)] f(1,2,7,8) b f(5)
    by - (rule exI [of _ "address_bytes addr"], rule exI [of _ "address_bytes addr'"], rule exI [of _ sock],
      rule exI [of _ packet], rule exI [of _ s'], rule exI [of _ out], rule exI [of _ reply], rule exI [of _ out2],
      rule exI [of _ s''], simp)
qed

theorem udp_relay_round_trip_witness:
  "\<exists>a sock packet s' reply s''. to_bytes (DomainNameAddress ''a.b'' 80) = Ok a \<and>
    udp_forward sample_aead_lib (\<lambda>n. replicate n 3) ChaCha20Ietf [5] (DomainNameAddress ''a.b'' 80) (V4 (Ipv4Addr 1 2 3 4) 80)
      (Inr ([1, 2], V4 (Ipv4Addr 10 0 0 2) 4000)) None None udp_relay_new = (Ok (), s') \<and>
    to_server s' = [(sock, packet, V4 (Ipv4Addr 1 2 3 4) 80)] \<and>
    udp_backward sample_aead_lib ChaCha20Ietf [5] sock (V4 (Ipv4Addr 10 0 0 2) 4000) (Inr reply) None s' = (Ok (), s'') \<and>
    to_tun s'' = [([7], V4 (Ipv4Addr 10 0 0 2) 4000)]"
proof -
  let ?a = "DomainNameAddress ''a.b'' 80"
  have ready: "udp_ready sample_aead_lib (\<lambda>f iv key p. of_nat p) ChaCha20Ietf [5] (serialized_len ?a + length [1, 2 :: u8])"
    "udp_ready sample_aead_lib (\<lambda>f iv key p. of_nat p) ChaCha20Ietf [5] (serialized_len ?a + length [7 :: u8])"
    by (simp_all add: udp_ready_def sample_aead_defs stream_lib.truncate_def keystream_law_def own_stream_def
        is_sodium_stream_def stream_room_def stream_limit_def SODIUM_BLOCK_SIZE_def serialized_len_def)
  have n: "prefix_size (clib sample_aead_lib) ChaCha20Ietf = Ok 12" by (simp add: prefix_size_def)
  have len: "length (replicate n 3 :: u8 list) = n" "length (replicate n 4 :: u8 list) = n" for n by simp_all
  have a: "wire_address ?a" by code_simp
  have fits: "12 + serialized_len ?a + length [1, 2 :: u8] \<le> MAX_PACKET_SIZE"
    "12 + serialized_len ?a + length [7 :: u8] + 16 \<le> MAX_PACKET_SIZE"
    by (simp_all add: serialized_len_def MAX_PACKET_SIZE_def)
  from udp_relay_round_trip [where rnd = "\<lambda>n. replicate n 3" and rnd' = "\<lambda>n. replicate n 4", OF ready n len a a fits
      sockets_ok_new buffers_ok_new, of "V4 (Ipv4Addr 1 2 3 4) 80" "V4 (Ipv4Addr 10 0 0 2) 4000"]
  have "\<exists>a sock packet s' reply s''. to_bytes ?a = Ok a \<and>
      udp_forward sample_aead_lib (\<lambda>n. replicate n 3) ChaCha20Ietf [5] ?a (V4 (Ipv4Addr 1 2 3 4) 80)
        (Inr ([1, 2], V4 (Ipv4Addr 10 0 0 2) 4000)) None None udp_relay_new = (Ok (), s') \<and>
      to_server s' = to_server udp_relay_new @ [(sock, packet, V4 (Ipv4Addr 1 2 3 4) 80)] \<and>
      udp_backward sample_aead_lib ChaCha20Ietf [5] sock (V4 (Ipv4Addr 10 0 0 2) 4000) (Inr reply) None s' = (Ok (), s'') \<and>
      to_tun s'' = to_tun udp_relay_new @ [([7], V4 (Ipv4Addr 10 0 0 2) 4000)]"
    by (elim exE conjE) (intro exI conjI)
  then show ?thesis by (simp add: udp_relay_new_def)
qed

end
