(* ===== verification/Direct_Client.thy ===== *)
theory Direct_Client
  imports Udp_Relay
begin

text \<open>
  The client for connections that bypass the Shadowsocks server,
  \<^verbatim>\<open>seeker/src/client/direct_client.rs\<close>: connecting to the target, the cache of probes, and the two
  relays.  The sockets and the DNS client are as in \<open>Ss_Client\<close>; a time is a number of nanoseconds.
\<close>

subsection \<open>Connecting\<close>

text \<open>The target of an address; a domain without an address is an error.\<close>

definition target_addr :: "v6_ops \<Rightarrow> 'w dns_trait \<Rightarrow> string \<times> u16 \<Rightarrow> address \<Rightarrow> ('w, socket_addr) rust" where
  "target_addr ops query dns addr = (case addr of
      SocketAddress a \<Rightarrow> return a
    | DomainNameAddress domain pt \<Rightarrow>
        bind (resolve_domain ops query dns domain) (\<lambda>ip. case ip of
          None \<Rightarrow> throw NotFound
        | Some i \<Rightarrow> return (new_socket_addr i pt)))"

definition direct_connect ::
  "v6_ops \<Rightarrow> 'w dns_trait \<Rightarrow> (socket_addr \<Rightarrow> ('w, tcp) rust) \<Rightarrow> string \<times> u16 \<Rightarrow> address \<Rightarrow> ('w, tcp) rust" where
  "direct_connect ops query connect dns addr =
     bind (target_addr ops query dns addr) connect"

subsection \<open>Probing\<close>

record direct_client =
  d_dns_server :: "string \<times> u16"
  d_stats :: client_stats
  prob_cache :: "(address \<times> (bool \<times> datetime)) list"

definition DirectClient_new :: "string \<times> u16 \<Rightarrow> direct_client" where
  "DirectClient_new dns = \<lparr>d_dns_server = dns, d_stats = ClientStats_new, prob_cache = []\<rparr>"

definition PROBE_TTL :: datetime where "PROBE_TTL = 5 * 60 * 10 ^ 9"

definition cache_remove :: "address \<Rightarrow> (address \<times> 'a) list \<Rightarrow> (address \<times> 'a) list" where
  "cache_remove addr m = filter (\<lambda>(a, _). a \<noteq> addr) m"

definition is_ok :: "'a outcome \<Rightarrow> bool" where
  "is_ok r = (case r of Ok _ \<Rightarrow> True | _ \<Rightarrow> False)"

text \<open>\<open>now\<close> and \<open>later\<close> are the two readings of the clock; the cache is locked in between.\<close>

definition probe_connectivity ::
  "('w, tcp) rust \<Rightarrow> datetime \<Rightarrow> datetime \<Rightarrow> address \<Rightarrow> (direct_client \<times> 'w, bool) rust" where
  "probe_connectivity attempt now later addr = (\<lambda>(c, w).
     let probe = (\<lambda>c. case attempt w of
         (Panic, w') \<Rightarrow> (Panic, (c, w'))
       | (Diverge, w') \<Rightarrow> (Diverge, (c, w'))
       | (r, w') \<Rightarrow> (Ok (is_ok r), (c\<lparr>prob_cache := (addr, (is_ok r, later + PROBE_TTL)) # cache_remove addr (prob_cache c)\<rparr>, w'))) in
     case map_of (prob_cache c) addr of
       Some (connectable, expire) \<Rightarrow>
         if expire > now then (Ok connectable, (c, w))
         else probe (c\<lparr>prob_cache := cache_remove addr (prob_cache c)\<rparr>)
     | None \<Rightarrow> probe c)"

subsection \<open>The relays\<close>

definition DIRECT_BUF :: nat where "DIRECT_BUF = 10240"

text \<open>The state of \<open>Ss_Client\<close>'s relay without ciphers.\<close>

definition direct_send_turn :: "bool \<Rightarrow> u64 \<Rightarrow> ('k relay, bool) rust" where
  "direct_send_turn locked idx =
     bind (with_tun (tcp_read DIRECT_BUF)) (\<lambda>bs.
     if bs = [] then return True
     else
       andthen (with_conn (tcp_write_all bs))
      (andthen (with_stats (update_connection_stats locked idx (add_sent (length bs)))) (return False)))"

definition direct_recv_turn :: "bool \<Rightarrow> u64 \<Rightarrow> ('k relay, bool) rust" where
  "direct_recv_turn locked idx =
     bind (with_conn (tcp_read DIRECT_BUF)) (\<lambda>bs.
     if bs = [] then return True
     else
       andthen (with_tun (tcp_write_all bs))
      (andthen (with_stats (update_connection_stats locked idx (add_recv (length bs)))) (return False)))"

text \<open>\<open>got\<close> is the result of connecting.\<close>

definition direct_handle_tcp ::
  "bool list \<Rightarrow> datetime \<Rightarrow> datetime \<Rightarrow> datetime \<Rightarrow> error_kind + tcp \<Rightarrow> tcp \<Rightarrow> address \<Rightarrow> direct_client \<Rightarrow>
    unit outcome option \<times> tcp \<times> tcp option \<times> direct_client" where
  "direct_handle_tcp schedule never opened closed got tun addr c = (case got of
      Inl e \<Rightarrow> (Some (Err e), tun, None, c)
    | Inr remote \<Rightarrow>
        (case add_connection True never opened addr (d_stats c) of
           (Ok idx, st) \<Rightarrow>
             (case race (direct_send_turn True idx) (direct_recv_turn True idx) schedule
                     (\<lparr>r_conn = remote, r_tun = tun, r_writer = None, r_reader = None, r_stats = st\<rparr> :: unit relay) of
                (None, s) \<Rightarrow> (None, r_tun s, Some (r_conn s), c\<lparr>d_stats := r_stats s\<rparr>)
              | (Some Panic, s) \<Rightarrow> (Some Panic, r_tun s, Some (r_conn s), c\<lparr>d_stats := r_stats s\<rparr>)
              | (Some Diverge, s) \<Rightarrow> (Some Diverge, r_tun s, Some (r_conn s), c\<lparr>d_stats := r_stats s\<rparr>)
              | (Some ret, s) \<Rightarrow> (Some ret, r_tun s, Some (r_conn s), c\<lparr>d_stats :=
                  snd (update_connection_stats True idx (close_at closed) (r_stats s))\<rparr>))
         | (_, st) \<Rightarrow> (Some Panic, tun, None, c\<lparr>d_stats := st\<rparr>)))"

definition DIRECT_UDP_BUF :: nat where "DIRECT_UDP_BUF = 1024"

definition direct_udp_forward ::
  "socket_addr \<Rightarrow> error_kind + u8 list \<times> socket_addr \<Rightarrow> error_kind option \<Rightarrow> error_kind option \<Rightarrow> (udp_relay, unit) rust" where
  "direct_udp_forward sock_addr recvd bind_err send_err = (case recvd of
      Inl e \<Rightarrow> throw e
    | Inr (data, local_src) \<Rightarrow>
        bind (socket_for local_src bind_err) (\<lambda>udp_socket.
        andthen (io_result send_err) (\<lambda>s. (Ok (), s\<lparr>to_server := to_server s @
          [(udp_socket, take DIRECT_UDP_BUF data, sock_addr)]\<rparr>))))"

definition direct_udp_backward :: "socket_addr \<Rightarrow> error_kind + u8 list \<Rightarrow> error_kind option \<Rightarrow> (udp_relay, unit) rust" where
  "direct_udp_backward local_src recvd send_err = (case recvd of
      Inl e \<Rightarrow> throw e
    | Inr bytes \<Rightarrow> andthen (io_result send_err) (\<lambda>s. (Ok (), s\<lparr>to_tun := to_tun s @
        [(take DIRECT_UDP_BUF bytes, local_src)]\<rparr>)))"

subsection \<open>The relay is transparent\<close>

text \<open>What was read from one side has been written to the other, in order, except for a last piece
  whose writing failed.\<close>

definition transparent :: "tcp \<Rightarrow> tcp \<Rightarrow> u8 list \<Rightarrow> u8 list \<Rightarrow> 'k relay \<Rightarrow> bool" where
  "transparent tun0 remote0 up down s \<longleftrightarrow>
     concat (inbox tun0) = sent (r_conn s) @ up @ concat (inbox (r_tun s)) \<and>
     concat (inbox remote0) = sent (r_tun s) @ down @ concat (inbox (r_conn s))"

lemma direct_buf_pos: "0 < DIRECT_BUF"
  by (simp add: DIRECT_BUF_def)

lemma with_stats_keeps: "with_stats m s = (r, s') \<Longrightarrow> r_tun s' = r_tun s \<and> r_conn s' = r_conn s"
  by (auto simp: with_stats_def split: prod.splits)

lemma with_socket:
  "with_tun m s = (r, s') \<longleftrightarrow> (\<exists>t. m (r_tun s) = (r, t) \<and> s' = s\<lparr>r_tun := t\<rparr>)"
  "with_conn m s = (r, s') \<longleftrightarrow> (\<exists>t. m (r_conn s) = (r, t) \<and> s' = s\<lparr>r_conn := t\<rparr>)"
  by (auto simp: with_tun_def with_conn_def split: prod.splits)

definition copy_turn :: "(u8 list \<Rightarrow> (client_stats, unit) rust) \<Rightarrow> ('k relay, bool) rust" where
  "copy_turn f = bind (with_tun (tcp_read DIRECT_BUF)) (\<lambda>bs.
     if bs = [] then return True
     else andthen (with_conn (tcp_write_all bs)) (andthen (with_stats (f bs)) (return False)))"

lemma copy_turn_transparent:
  assumes "transparent tun0 remote0 [] [] s" "copy_turn f s = (r, s')"
  shows "\<exists>up. transparent tun0 remote0 up [] s' \<and> (\<forall>b. r = Ok b \<longrightarrow> up = [])"
  using assms(2) unfolding copy_turn_def
proof (cases rule: bind_cases)
  case (1 bs s1)
  then obtain t where t: "tcp_read DIRECT_BUF (r_tun s) = (Ok bs, t)" "s1 = s\<lparr>r_tun := t\<rparr>"
    by (auto simp: with_socket)
  have tr: "transparent tun0 remote0 bs [] s1"
    using assms(1) tcp_read_cases(1,2) [OF t(1) direct_buf_pos] by (auto simp: transparent_def t(2))
  show ?thesis
  proof (cases "bs = []")
    case True
    with 1(2) tr show ?thesis by auto
  next
    case False
    with 1(2) have "andthen (with_conn (tcp_write_all bs)) (andthen (with_stats (f bs)) (return False)) s1 = (r, s')" by simp
    then show ?thesis
    proof (cases rule: bind_cases)
      case (1 u s2)
      then obtain t2 where t2: "tcp_write_all bs (r_conn s1) = (Ok (), t2)" "s2 = s1\<lparr>r_conn := t2\<rparr>"
        by (auto simp: with_socket)
      have "transparent tun0 remote0 [] [] s2"
        using tr tcp_write_all_cases(1,2) [OF t2(1)] by (auto simp: transparent_def t2(2))
      moreover have "r_tun s' = r_tun s2 \<and> r_conn s' = r_conn s2"
        using 1(2) by (elim bind_cases) (auto dest: with_stats_keeps)
      ultimately show ?thesis by (auto simp: transparent_def)
    next
      case (2 r1)
      then obtain t2 where "tcp_write_all bs (r_conn s1) = (r1, t2)" "s' = s1\<lparr>r_conn := t2\<rparr>"
        by (auto simp: with_socket)
      with tr 2(2,3) tcp_write_all_cases(1,3) [of bs "r_conn s1" r1 t2] show ?thesis by (auto simp: transparent_def)
    qed
  qed
next
  case (2 r1)
  then obtain t where "tcp_read DIRECT_BUF (r_tun s) = (r1, t)" "s' = s\<lparr>r_tun := t\<rparr>" by (auto simp: with_socket)
  with assms(1) 2(2) tcp_read_cases(1,3) [of _ "r_tun s" r1 t, OF _ direct_buf_pos] show ?thesis
    by (fastforce simp: transparent_def)
qed

text \<open>The two directions are each other's mirror image.\<close>

definition mirror :: "'k relay \<Rightarrow> 'k relay" where
  "mirror s = s\<lparr>r_conn := r_tun s, r_tun := r_conn s\<rparr>"

lemma direct_turns:
  "direct_send_turn True idx s = copy_turn (\<lambda>bs. update_connection_stats True idx (add_sent (length bs))) s"
  "direct_recv_turn True idx s = (case copy_turn (\<lambda>bs. update_connection_stats True idx (add_recv (length bs))) (mirror s)
     of (r, s') \<Rightarrow> (r, mirror s'))"
  by (auto simp: direct_send_turn_def direct_recv_turn_def copy_turn_def bind_def with_tun_def with_conn_def with_stats_def
      mirror_def return_def split: prod.splits outcome.splits)

lemma transparent_mirror: "transparent tun0 remote0 up down (mirror s) = transparent remote0 tun0 down up s"
  by (auto simp: transparent_def mirror_def)

lemma direct_race_transparent:
  assumes "transparent tun0 remote0 [] [] s"
    and "race (direct_send_turn True idx) (direct_recv_turn True idx) bs s = (r, s')"
  shows "\<exists>up down. transparent tun0 remote0 up down s' \<and> (r = None \<or> r = Some (Ok ()) \<longrightarrow> up = [] \<and> down = [])"
  using assms
proof (induction bs arbitrary: s)
  case (Cons b bs)
  obtain r1 s1 where turn: "(if b then direct_send_turn True idx s else direct_recv_turn True idx s) = (r1, s1)"
    by fastforce
  have "\<exists>up down. transparent tun0 remote0 up down s1 \<and> (\<forall>b. r1 = Ok b \<longrightarrow> up = [] \<and> down = [])"
  proof (cases b)
    case True
    with turn copy_turn_transparent [OF Cons.prems(1)] show ?thesis by (fastforce simp: direct_turns(1))
  next
    case False
    with turn obtain s2 where s2: "copy_turn (\<lambda>bs. update_connection_stats True idx (add_recv (length bs))) (mirror s) = (r1, s2)"
        "s1 = mirror s2"
      by (auto simp: direct_turns(2) split: prod.splits)
    have "transparent remote0 tun0 [] [] (mirror s)" using Cons.prems(1) by (simp add: transparent_mirror)
    from copy_turn_transparent [OF this s2(1)] s2(2) show ?thesis by (fastforce simp: transparent_mirror)
  qed
  then obtain up down where tr: "transparent tun0 remote0 up down s1" "\<forall>b. r1 = Ok b \<longrightarrow> up = [] \<and> down = []"
    by blast
  show ?case
  proof (cases "r1 = Ok False")
    case True
    then have "up = []" "down = []" using tr(2) by blast+
    with tr(1) turn True Cons.prems(2) show ?thesis by (intro Cons.IH [of s1]) simp_all
  next
    case False
    with turn Cons.prems(2) tr show ?thesis by (auto split: outcome.splits bool.splits)
  qed
qed auto



subsection \<open>Probes are cached\<close>

lemma probe_cached:
  assumes "probe_connectivity attempt now later addr (c, w) = (Ok b, (c', w'))" "map_of (prob_cache c) addr = None"
    and "now' < later + PROBE_TTL"
  shows "probe_connectivity attempt' now' later' addr (c', w'') = (Ok b, (c', w''))"
  using assms by (auto simp: probe_connectivity_def Let_def split: prod.splits outcome.splits)

end
