(* ===== verification/Ruled_Client.thy ===== *)
theory Ruled_Client
  imports Direct_Client
begin

text \<open>
  The client that chooses for every connection, \<^verbatim>\<open>seeker/src/client/ruled_client.rs\<close>: by the owner of
  the socket, by the rules and, where a rule says so, by probing; and that moves on to the next
  server when the current one has failed too often.  The sockets of the user's processes, which
  \<^verbatim>\<open>sysconfig\<close> reads from the operating system, are an argument.
\<close>

record connection =
  k_address :: address
  k_connect_time :: datetime
  k_action :: action

record 'c ruled_client =
  rc_conf :: "'c config"
  rc_rule :: "'c proxy_rules"
  rc_ssclient :: ss_client
  rc_direct_client :: direct_client
  rc_proxy_uid :: "u32 option"
  rc_counter :: u64
  rc_connections :: "u64 \<rightharpoonup> connection"

definition new_ssclient :: "v6_ops \<Rightarrow> 'c config \<Rightarrow> nat \<Rightarrow> ss_client outcome" where
  "new_ssclient ops conf conf_index =
     (let dns = dns_server conf; dns_server_addr = (show_ip ops (socket_ip dns), socket_port dns) in
      if conf_index < length (server_configs conf)
      then Ok (fst (SSClient_new (server_configs conf ! conf_index) dns_server_addr))
      else Panic)"

definition new_direct_client :: "v6_ops \<Rightarrow> 'c config \<Rightarrow> direct_client" where
  "new_direct_client ops conf =
     (let dns = dns_server conf in DirectClient_new (show_ip ops (socket_ip dns), socket_port dns))"

definition RuledClient_new :: "v6_ops \<Rightarrow> 'c config \<Rightarrow> u32 option \<Rightarrow> 'c ruled_client outcome" where
  "RuledClient_new ops conf uid =
     chain (new_ssclient ops conf 0) (\<lambda>ss.
     Ok \<lparr>rc_conf = conf, rc_rule = config_rules conf, rc_ssclient = ss, rc_direct_client = new_direct_client ops conf,
         rc_proxy_uid = uid, rc_counter = 0, rc_connections = Map.empty\<rparr>)"

text \<open>The periodic task that prints the statistics drops the closed connections.\<close>

definition recycle_turn :: "bool \<Rightarrow> datetime \<Rightarrow> ('c ruled_client, unit) rust" where
  "recycle_turn locked never = (\<lambda>c.
     case recycle_stats locked never (stats (rc_ssclient c)) of
       (Ok _, st) \<Rightarrow>
         (case recycle_stats locked never (d_stats (rc_direct_client c)) of
            (r, dst) \<Rightarrow> (r, c\<lparr>rc_ssclient := (rc_ssclient c)\<lparr>stats := st\<rparr>,
              rc_direct_client := (rc_direct_client c)\<lparr>d_stats := dst\<rparr>\<rparr>))
     | (r, st) \<Rightarrow> (r, c\<lparr>rc_ssclient := (rc_ssclient c)\<lparr>stats := st\<rparr>\<rparr>))"

subsection \<open>The action for a connection\<close>

definition socket_addr_belong_to_user ::
  "error_kind + (int \<times> socket_addr list) list \<Rightarrow> socket_addr \<Rightarrow> bool outcome" where
  "socket_addr_belong_to_user user_socks addr = (case user_socks of
      Inl e \<Rightarrow> Err e
    | Inr socks \<Rightarrow> Ok (list_ex (\<lambda>(_, sockets). list_ex (\<lambda>s. s = addr) sockets) socks))"

text \<open>\<open>user_socks\<close> gives the processes of a user with the local addresses of their sockets, \<open>probe\<close> is
  the probe of the direct client.\<close>

definition get_action_for_addr ::
  "v6_ops \<Rightarrow> (u32 \<Rightarrow> error_kind + (int \<times> socket_addr list) list) \<Rightarrow> (direct_client \<times> 'w, bool) rust \<Rightarrow>
    socket_addr \<Rightarrow> address \<Rightarrow> ('c ruled_client \<times> 'w, action) rust" where
  "get_action_for_addr ops user_socks probe remote_addr addr = (\<lambda>(c, w).
     let domain = (case addr of SocketAddress a \<Rightarrow> show_socket_addr ops a | DomainNameAddress domain _ \<Rightarrow> domain);
         pass_proxy = (case rc_proxy_uid c of
             Some uid \<Rightarrow> chain (socket_addr_belong_to_user (user_socks uid) remote_addr) (\<lambda>b. Ok (\<not> b))
           | None \<Rightarrow> Ok False) in
     bind (lifted pass_proxy) (\<lambda>pass.
       let action = (if pass then Direct
             else (case action_for_domain (rc_rule c) domain of Some a \<Rightarrow> a | None \<Rightarrow> default_action (rc_rule c))) in
       if action = Probe then
         (\<lambda>(c, w). case probe (rc_direct_client c, w) of
            (r, (d, w')) \<Rightarrow> (chain r (\<lambda>b. Ok (if b then Direct else Proxy)), (c\<lparr>rc_direct_client := d\<rparr>, w')))
       else return action) (c, w))"

subsection \<open>Changing the server\<close>

fun position :: "('a \<Rightarrow> bool) \<Rightarrow> 'a list \<Rightarrow> nat option" where
  "position P [] = None"
| "position P (x # xs) = (if P x then Some 0 else map_option Suc (position P xs))"

definition check_server :: "'c config \<Rightarrow> ss_client \<Rightarrow> ss_client outcome" where
  "check_server conf client =
     (if unat (connect_errors client) > max_connect_errors conf then
        let old_conf_index = (case position (\<lambda>s. sc_name s = client_name client) (server_configs conf) of
              Some i \<Rightarrow> i | None \<Rightarrow> 0) in
        if server_configs conf = [] then Panic
        else
          let next_conf_index = (old_conf_index + 1) mod length (server_configs conf) in
          Ok (change_conf (server_configs conf ! next_conf_index) client)
      else Ok client)"

subsection \<open>Handling a connection\<close>

text \<open>\<open>direct\<close> and \<open>proxy\<close> are the relays of the two clients with their sockets; a relay that is still
  running has no outcome, and the entry of its connection stays.\<close>

definition serve_tcp ::
  "(direct_client \<times> 'w \<Rightarrow> unit outcome option \<times> direct_client \<times> 'w) \<Rightarrow>
    (ss_client \<times> 'w \<Rightarrow> unit outcome option \<times> ss_client \<times> 'w) \<Rightarrow>
    action \<Rightarrow> 'c ruled_client \<times> 'w \<Rightarrow> unit outcome option \<times> 'c ruled_client \<times> 'w" where
  "serve_tcp direct proxy action = (\<lambda>(c, w). case action of
      Reject \<Rightarrow> (Some (Ok ()), c, w)
    | Direct \<Rightarrow> (case direct (rc_direct_client c, w) of (r, d, w') \<Rightarrow> (r, c\<lparr>rc_direct_client := d\<rparr>, w'))
    | Proxy \<Rightarrow> (case check_server (rc_conf c) (rc_ssclient c) of
         Ok client \<Rightarrow> (case proxy (client, w) of (r, ss, w') \<Rightarrow> (r, c\<lparr>rc_ssclient := ss\<rparr>, w'))
       | _ \<Rightarrow> (Some Panic, c, w))
    | Probe \<Rightarrow> (Some Panic, c, w))"

definition ruled_handle_tcp ::
  "v6_ops \<Rightarrow> (u32 \<Rightarrow> error_kind + (int \<times> socket_addr list) list) \<Rightarrow> (direct_client \<times> 'w, bool) rust \<Rightarrow>
    (direct_client \<times> 'w \<Rightarrow> unit outcome option \<times> direct_client \<times> 'w) \<Rightarrow>
    (ss_client \<times> 'w \<Rightarrow> unit outcome option \<times> ss_client \<times> 'w) \<Rightarrow>
    datetime \<Rightarrow> socket_addr \<Rightarrow> address \<Rightarrow> 'c ruled_client \<times> 'w \<Rightarrow> unit outcome option \<times> 'c ruled_client \<times> 'w" where
  "ruled_handle_tcp ops user_socks probe direct proxy now remote_addr addr cw =
     (case get_action_for_addr ops user_socks probe remote_addr addr cw of
        (Ok action, (c, w)) \<Rightarrow>
          let index = rc_counter c;
              c = c\<lparr>rc_counter := rc_counter c + 1, rc_connections := (rc_connections c)(index \<mapsto>
                     \<lparr>k_address = addr, k_connect_time = now, k_action = action\<rparr>)\<rparr>;
              (ret, c, w) = serve_tcp direct proxy action (c, w);
              c' = c\<lparr>rc_connections := (rc_connections c)(index := None)\<rparr> in
          (case ret of Some (Ok _) \<Rightarrow> (ret, c', w) | Some (Err _) \<Rightarrow> (ret, c', w) | _ \<Rightarrow> (ret, c, w))
      | (Err e, (c, w)) \<Rightarrow> (Some (Err e), c, w)
      | (Panic, (c, w)) \<Rightarrow> (Some Panic, c, w)
      | (Diverge, (c, w)) \<Rightarrow> (Some Diverge, c, w))"

text \<open>For datagrams the server is never changed, and \<open>local_addr\<close> of the socket stands for its peer.\<close>

definition ruled_handle_udp ::
  "v6_ops \<Rightarrow> (u32 \<Rightarrow> error_kind + (int \<times> socket_addr list) list) \<Rightarrow> (direct_client \<times> 'w, bool) rust \<Rightarrow>
    (direct_client \<times> 'w, unit) rust \<Rightarrow> (ss_client \<times> 'w, unit) rust \<Rightarrow>
    socket_addr \<Rightarrow> address \<Rightarrow> ('c ruled_client \<times> 'w, unit) rust" where
  "ruled_handle_udp ops user_socks probe direct proxy local_addr addr =
     bind (get_action_for_addr ops user_socks probe local_addr addr) (\<lambda>action (c, w). case action of
         Reject \<Rightarrow> (Ok (), (c, w))
       | Direct \<Rightarrow> (case direct (rc_direct_client c, w) of (r, (d, w')) \<Rightarrow> (r, (c\<lparr>rc_direct_client := d\<rparr>, w')))
       | Proxy \<Rightarrow> (case proxy (rc_ssclient c, w) of (r, (ss, w')) \<Rightarrow> (r, (c\<lparr>rc_ssclient := ss\<rparr>, w')))
       | Probe \<Rightarrow> (Panic, (c, w)))"

subsection \<open>Every server gets its turn\<close>

lemma position_nth:
  "i < length xs \<Longrightarrow> distinct (map f xs) \<Longrightarrow> position (\<lambda>x. f x = f (xs ! i)) xs = Some i"
proof (induction xs arbitrary: i)
  case (Cons x xs)
  show ?case
  proof (cases i)
    case (Suc j)
    then have "f x \<noteq> f (xs ! j)" "position (\<lambda>x. f x = f (xs ! j)) xs = Some j"
      using Cons by (auto simp: image_iff)
    with Suc show ?thesis by simp
  qed simp
qed simp

text \<open>The client after \<open>k\<close> servers in a row were given up, each after its own number of errors.\<close>

fun failing :: "'c config \<Rightarrow> nat list \<Rightarrow> ss_client \<Rightarrow> ss_client outcome" where
  "failing conf [] client = Ok client"
| "failing conf (n # ns) client =
     chain (check_server conf (client\<lparr>connect_errors := of_nat n\<rparr>)) (failing conf ns)"

definition too_many :: "'c config \<Rightarrow> nat \<Rightarrow> bool" where
  "too_many conf n \<longleftrightarrow> max_connect_errors conf < n \<and> n < 2 ^ 64"

lemma check_server_next:
  assumes "distinct (map sc_name (server_configs conf))" "i < length (server_configs conf)"
    and "srv_cfg client = server_configs conf ! i" "too_many conf n"
  shows "check_server conf (client\<lparr>connect_errors := of_nat n\<rparr>) =
    Ok (client\<lparr>srv_cfg := server_configs conf ! (Suc i mod length (server_configs conf)), connect_errors := 0\<rparr>)"
  using assms position_nth [of i "server_configs conf" sc_name]
  by (auto simp: check_server_def change_conf_def client_name_def too_many_def unat_of_nat take_bit_eq_mod)

lemma failing_next:
  assumes "distinct (map sc_name (server_configs conf))" "i < length (server_configs conf)"
    and "srv_cfg client = server_configs conf ! i" "list_all (too_many conf) ns"
  shows "failing conf ns client = Ok (if ns = [] then client else client\<lparr>
    srv_cfg := server_configs conf ! ((i + length ns) mod length (server_configs conf)), connect_errors := 0\<rparr>)"
  using assms(2-)
proof (induction ns arbitrary: client i)
  case (Cons n ns)
  let ?n = "length (server_configs conf)"
  let ?next = "client\<lparr>srv_cfg := server_configs conf ! (Suc i mod ?n), connect_errors := 0\<rparr>"
  have "0 < ?n" using Cons.prems by linarith
  then have IH: "failing conf ns ?next = Ok (if ns = [] then ?next else ?next\<lparr>
      srv_cfg := server_configs conf ! ((Suc i mod ?n + length ns) mod ?n), connect_errors := 0\<rparr>)"
    using Cons.prems by (intro Cons.IH) auto
  have "failing conf (n # ns) client = failing conf ns ?next"
    using Cons.prems check_server_next [OF assms(1), of i client n] by simp
  also note IH
  finally show ?case by (simp add: mod_add_left_eq)
qed simp

lemma rotation_reaches:
  assumes "i < n" "j < n"
  shows "\<exists>k < n. (i + k) mod n = (j :: nat)"
proof (intro exI conjI)
  show "(j + (n - i)) mod n < n" using assms by simp
  have "(i + (j + (n - i)) mod n) mod n = (j + n) mod n" using assms by (simp add: mod_add_right_eq)
  with assms show "(i + (j + (n - i)) mod n) mod n = j" by simp
qed

text \<open>C18: a server that keeps failing is left for the one after it, round robin: when the servers have
  different names, giving up \<open>k\<close> of them in a row leads from the one at \<open>i\<close> to the one at
  \<open>(i + k) mod n\<close>, with the errors counted from zero and everything else of the client kept; so every
  server of the configuration is reached after fewer than \<open>n\<close> changes, wherever the client starts.\<close>

theorem servers_take_turns:
  assumes "distinct (map sc_name (server_configs conf))" "i < length (server_configs conf)"
    and "srv_cfg client = server_configs conf ! i"
  shows "(\<forall>ns. list_all (too_many conf) ns \<longrightarrow> failing conf ns client = Ok (if ns = [] then client else client\<lparr>
      srv_cfg := server_configs conf ! ((i + length ns) mod length (server_configs conf)), connect_errors := 0\<rparr>)) \<and>
    (\<forall>server \<in> set (server_configs conf). \<exists>k < length (server_configs conf). \<forall>ns.
      length ns = k \<and> list_all (too_many conf) ns \<longrightarrow> (\<exists>c. failing conf ns client = Ok c \<and> srv_cfg c = server))"
proof (intro conjI ballI)
  fix server assume "server \<in> set (server_configs conf)"
  then obtain j where j: "j < length (server_configs conf)" "server = server_configs conf ! j"
    by (auto simp: in_set_conv_nth)
  from rotation_reaches [OF assms(2) j(1)] obtain k
    where k: "k < length (server_configs conf)" "(i + k) mod length (server_configs conf) = j" by blast
  show "\<exists>k < length (server_configs conf). \<forall>ns. length ns = k \<and> list_all (too_many conf) ns \<longrightarrow>
      (\<exists>c. failing conf ns client = Ok c \<and> srv_cfg c = server)"
    using k j assms failing_next [OF assms] by (intro exI [of _ k]) (auto split: if_splits)
qed (use failing_next [OF assms] in blast)

text \<open>A configuration with three servers.\<close>

definition demo_server :: "string \<Rightarrow> server_config" where
  "demo_server name = \<lparr>sc_name = name, sc_addr = DomainName ''a.b'' 443, sc_password = ''p'', sc_method = Aes128Cfb,
     sc_connect_timeout = 1, sc_read_timeout = 1, sc_write_timeout = 1, sc_idle_connections = 0\<rparr>"

definition demo_config :: "'c \<Rightarrow> 'c config" where
  "demo_config cidr = \<lparr>server_configs = map demo_server [''x'', ''y'', ''z''], dns_start_ip = Ipv4Addr 11 0 0 10,
     dns_server = V4 (Ipv4Addr 8 8 8 8) 53, tun_name = ''utun4'', tun_ip = Ipv4Addr 11 0 0 1, tun_cidr = cidr,
     config_rules = ProxyRules_new [Domain ''a'' Reject, DomainKeyword ''b'' Probe], dns_listen = ''0.0.0.0:53'',
     gateway_mode = False, probe_timeout = 1, direct_connect_timeout = 1, direct_read_timeout = 1,
     direct_write_timeout = 1, max_connect_errors = 2\<rparr>"

definition demo_client :: ss_client where
  "demo_client = \<lparr>srv_cfg = demo_server ''y'', dns_srv = (''8.8.8.8'', 53), connect_errors = 0, stats = ClientStats_new\<rparr>"

theorem servers_take_turns_witness:
  "failing (demo_config ()) [3, 4] demo_client = Ok (demo_client\<lparr>srv_cfg := demo_server ''x''\<rparr>)"
proof -
  have "distinct (map sc_name (server_configs (demo_config ())))" "1 < length (server_configs (demo_config ()))"
    "srv_cfg demo_client = server_configs (demo_config ()) ! 1" "list_all (too_many (demo_config ())) [3, 4]"
    by (simp_all add: demo_config_def demo_server_def demo_client_def too_many_def)
  note turns = servers_take_turns [OF this(1-3), THEN conjunct1, rule_format, OF this(4)]
  then show ?thesis by (simp add: demo_config_def demo_client_def)
qed

text \<open>Without different names the change may lead back to the server that failed.\<close>

lemma same_names_stuck:
  assumes "server_configs conf = s # t # rest" "sc_name t = sc_name s" "srv_cfg client = t" "too_many conf n"
  shows "check_server conf (client\<lparr>connect_errors := of_nat n\<rparr>) = Ok (client\<lparr>connect_errors := 0\<rparr>)"
  using assms by (auto simp: check_server_def change_conf_def client_name_def too_many_def unat_of_nat take_bit_eq_mod)

subsection \<open>The decision for a connection\<close>

text \<open>Of the rules that cover a name the first decides; without one the connection is direct.\<close>

definition rules_say :: "'c proxy_rules \<Rightarrow> string \<Rightarrow> action \<Rightarrow> bool" where
  "rules_say p domain a \<longleftrightarrow>
     (\<exists>r. first_match (\<lambda>r. covers_domain r domain) (rules p) r \<and> rule_action r = a) \<or>
     (\<nexists>r. r \<in> set (rules p) \<and> covers_domain r domain) \<and> a = Direct"

definition foreign :: "u32 option \<Rightarrow> (u32 \<Rightarrow> error_kind + (int \<times> socket_addr list) list) \<Rightarrow> socket_addr \<Rightarrow> bool" where
  "foreign uid user_socks remote \<longleftrightarrow> (\<exists>u socks. uid = Some u \<and> user_socks u = Inr socks \<and>
     (\<forall>(_, sockets) \<in> set socks. remote \<notin> set sockets))"

definition text_of :: "v6_ops \<Rightarrow> address \<Rightarrow> string" where
  "text_of ops addr = (case addr of SocketAddress a \<Rightarrow> show_socket_addr ops a | DomainNameAddress domain _ \<Rightarrow> domain)"

lemma rules_say_iff:
  "rules_say p domain a \<longleftrightarrow> a = (case action_for_domain p domain of Some a \<Rightarrow> a | None \<Rightarrow> default_action p)"
  using action_for_domain_first [of p domain a]
  by (cases "action_for_domain p domain") (auto simp: rules_say_def default_action_def first_match_def)

lemma socket_owner:
  "socket_addr_belong_to_user (Inl e) remote = Err e"
  "socket_addr_belong_to_user (Inr socks) remote = Ok (\<exists>(_, sockets) \<in> set socks. remote \<in> set sockets)"
  by (simp_all add: socket_addr_belong_to_user_def list_ex_iff split_beta)

definition ruled :: "'c ruled_client \<Rightarrow> string \<Rightarrow> action" where
  "ruled c domain = (case action_for_domain (rc_rule c) domain of Some a \<Rightarrow> a | None \<Rightarrow> default_action (rc_rule c))"

lemma get_action_cases:
  "rc_proxy_uid c = Some u \<Longrightarrow> user_socks u = Inl e \<Longrightarrow>
    get_action_for_addr ops user_socks probe remote addr (c, w) = (Err e, (c, w))"
  "foreign (rc_proxy_uid c) user_socks remote \<Longrightarrow>
    get_action_for_addr ops user_socks probe remote addr (c, w) = (Ok Direct, (c, w))"
  "\<forall>u e. rc_proxy_uid c = Some u \<longrightarrow> user_socks u \<noteq> Inl e \<Longrightarrow> \<not> foreign (rc_proxy_uid c) user_socks remote \<Longrightarrow>
    get_action_for_addr ops user_socks probe remote addr (c, w) =
      (if ruled c (text_of ops addr) \<noteq> Probe then (Ok (ruled c (text_of ops addr)), (c, w))
       else case probe (rc_direct_client c, w) of (r, (d, v)) \<Rightarrow>
         (chain r (\<lambda>b. Ok (if b then Direct else Proxy)), (c\<lparr>rc_direct_client := d\<rparr>, v)))"
proof -
  assume "rc_proxy_uid c = Some u" "user_socks u = Inl e"
  then show "get_action_for_addr ops user_socks probe remote addr (c, w) = (Err e, (c, w))"
    by (simp add: get_action_for_addr_def socket_owner bind_def)
next
  assume "foreign (rc_proxy_uid c) user_socks remote"
  then show "get_action_for_addr ops user_socks probe remote addr (c, w) = (Ok Direct, (c, w))"
    by (auto simp: get_action_for_addr_def socket_owner bind_def foreign_def return_def)
next
  assume own: "\<forall>u e. rc_proxy_uid c = Some u \<longrightarrow> user_socks u \<noteq> Inl e" "\<not> foreign (rc_proxy_uid c) user_socks remote"
  then have "(case rc_proxy_uid c of Some uid \<Rightarrow> chain (socket_addr_belong_to_user (user_socks uid) remote) (\<lambda>b. Ok (\<not> b))
      | None \<Rightarrow> Ok False) = Ok False"
  proof (cases "rc_proxy_uid c")
    case (Some u)
    then obtain socks where "user_socks u = Inr socks" using own by (cases "user_socks u") auto
    with Some own show ?thesis by (simp add: socket_owner foreign_def split_beta)
  qed simp
  then show "get_action_for_addr ops user_socks probe remote addr (c, w) =
      (if ruled c (text_of ops addr) \<noteq> Probe then (Ok (ruled c (text_of ops addr)), (c, w))
       else case probe (rc_direct_client c, w) of (r, (d, v)) \<Rightarrow>
         (chain r (\<lambda>b. Ok (if b then Direct else Proxy)), (c\<lparr>rc_direct_client := d\<rparr>, v)))"
    by (simp add: get_action_for_addr_def bind_def return_def text_of_def [symmetric] ruled_def [symmetric])
qed

lemma get_action_keeps:
  assumes "get_action_for_addr ops user_socks probe remote addr (c, w) = (r, (c', w'))"
  shows "r \<noteq> Ok Probe \<and> (\<exists>d. c' = c\<lparr>rc_direct_client := d\<rparr>) \<and> (r = Panic \<longrightarrow> (\<exists>p. fst (probe p) = Panic))"
proof -
  have same: "\<exists>d. c = c\<lparr>rc_direct_client := d\<rparr>" by (rule exI [of _ "rc_direct_client c"]) simp
  consider u e where "rc_proxy_uid c = Some u" "user_socks u = Inl e"
    | "foreign (rc_proxy_uid c) user_socks remote"
    | "\<forall>u e. rc_proxy_uid c = Some u \<longrightarrow> user_socks u \<noteq> Inl e" "\<not> foreign (rc_proxy_uid c) user_socks remote"
    by blast
  then show ?thesis
  proof cases
    case 3
    obtain b d v where b: "probe (rc_direct_client c, w) = (b, (d, v))" by (metis prod.exhaust)
    then have "chain b (\<lambda>b. Ok (if b then Direct else Proxy)) = Panic \<longrightarrow> (\<exists>p. fst (probe p) = Panic)"
      by (cases b) (auto simp del: split_paired_Ex intro: exI [of _ "(rc_direct_client c, w)"])
    with b assms same show ?thesis by (auto simp: get_action_cases(3) [OF 3] chain_eq_Ok split: if_splits)
  qed (use assms same in \<open>auto simp: get_action_cases(1,2)\<close>)
qed

text \<open>C17: who decides about a connection.  When the proxy is for one user only, a failure to list the
  user's sockets is the error of the connection, and a connection of somebody else is direct.  Any
  other follows the first rule that covers its target, without one it is direct; where that rule says
  to probe, the probe decides between direct and proxy.  So the result is never \<open>Probe\<close>, and
  nothing but the cache of the probes is changed.\<close>

theorem ruled_action:
  assumes "get_action_for_addr ops user_socks probe remote addr (c, w) = (r, (c', w'))"
  shows "r \<noteq> Ok Probe \<and>
    (\<forall>u e. rc_proxy_uid c = Some u \<and> user_socks u = Inl e \<longrightarrow> r = Err e \<and> c' = c \<and> w' = w) \<and>
    (foreign (rc_proxy_uid c) user_socks remote \<longrightarrow> r = Ok Direct \<and> c' = c \<and> w' = w) \<and>
    ((\<forall>u e. rc_proxy_uid c = Some u \<longrightarrow> user_socks u \<noteq> Inl e) \<and> \<not> foreign (rc_proxy_uid c) user_socks remote \<longrightarrow>
      (\<exists>a. rules_say (rc_rule c) (text_of ops addr) a \<and>
        (if a \<noteq> Probe then r = Ok a \<and> c' = c \<and> w' = w
         else case probe (rc_direct_client c, w) of (b, (d, v)) \<Rightarrow>
           r = chain b (\<lambda>b. Ok (if b then Direct else Proxy)) \<and> c' = c\<lparr>rc_direct_client := d\<rparr> \<and> w' = v)))"
proof -
  show ?thesis
  proof (cases "foreign (rc_proxy_uid c) user_socks remote")
    case True
    with assms show ?thesis by (auto simp: get_action_cases(2) foreign_def)
  next
    case not_foreign: False
    show ?thesis
    proof (cases "\<forall>u e. rc_proxy_uid c = Some u \<longrightarrow> user_socks u \<noteq> Inl e")
      case True
      have "rules_say (rc_rule c) (text_of ops addr) (ruled c (text_of ops addr))"
        by (simp add: rules_say_iff ruled_def)
      with True not_foreign assms show ?thesis
        by (auto simp: get_action_cases(3) chain_eq_Ok split: if_splits prod.splits)
    next
      case False
      then obtain u e where "rc_proxy_uid c = Some u" "user_socks u = Inl e" by blast
      with assms not_foreign show ?thesis by (auto simp: get_action_cases(1))
    qed
  qed
qed

text \<open>The user 501 owns the socket 11.0.0.1:4000; no target can be reached.\<close>

definition demo_ruled :: "unit ruled_client" where
  "demo_ruled = \<lparr>rc_conf = demo_config (), rc_rule = config_rules (demo_config ()), rc_ssclient = demo_client,
     rc_direct_client = DirectClient_new (''8.8.8.8'', 53), rc_proxy_uid = Some 501, rc_counter = 0,
     rc_connections = Map.empty\<rparr>"

definition demo_socks :: "u32 \<Rightarrow> error_kind + (int \<times> socket_addr list) list" where
  "demo_socks uid = (if uid = 501 then Inr [(77, [V4 (Ipv4Addr 11 0 0 1) 4000])] else Inl Other)"

definition demo_probe :: "address \<Rightarrow> (direct_client \<times> unit, bool) rust" where
  "demo_probe = probe_connectivity (throw TimedOut) 0 1"

definition demo_v6 :: v6_ops where
  "demo_v6 = \<lparr>show_v6 = \<lambda>_. [], parse_v6 = \<lambda>_. None, show_ipv6 = \<lambda>_. [], parse_ipv6 = \<lambda>_. None\<rparr>"

definition demo_action :: "u16 \<Rightarrow> action outcome \<times> unit ruled_client \<times> unit" where
  "demo_action pt = get_action_for_addr
     demo_v6 demo_socks
     (demo_probe (DomainNameAddress ''abc'' 80)) (V4 (Ipv4Addr 11 0 0 1) pt) (DomainNameAddress ''abc'' 80) (demo_ruled, ())"

lemma demo_owner:
  "\<not> foreign (rc_proxy_uid demo_ruled) demo_socks (V4 (Ipv4Addr 11 0 0 1) 4000)"
  "foreign (rc_proxy_uid demo_ruled) demo_socks (V4 (Ipv4Addr 11 0 0 1) 4001)"
  "\<forall>u e. rc_proxy_uid demo_ruled = Some u \<longrightarrow> demo_socks u \<noteq> Inl e"
  by (auto simp: foreign_def demo_ruled_def demo_socks_def)

lemma demo_says: "rules_say (rc_rule demo_ruled) ''abc'' a \<longleftrightarrow> a = Probe"
proof -
  have "(case action_for_domain (rc_rule demo_ruled) ''abc'' of Some a \<Rightarrow> a | None \<Rightarrow> default_action (rc_rule demo_ruled)) = Probe"
    by code_simp
  then show ?thesis by (simp add: rules_say_iff)
qed

theorem ruled_action_witness: "fst (demo_action 4000) = Ok Proxy \<and> fst (demo_action 4001) = Ok Direct"
proof
  obtain r c' w' where run: "demo_action 4000 = (r, (c', w'))" by (metis prod.exhaust)
  have "fst (demo_probe (DomainNameAddress ''abc'' 80) (rc_direct_client demo_ruled, ())) = Ok False" by code_simp
  with ruled_action [OF run [unfolded demo_action_def]] demo_owner demo_says have "r = Ok Proxy"
    by (auto simp: text_of_def split: prod.splits)
  with run show "fst (demo_action 4000) = Ok Proxy" by simp
next
  obtain r c' w' where run: "demo_action 4001 = (r, (c', w'))" by (metis prod.exhaust)
  with ruled_action [OF run [unfolded demo_action_def]] demo_owner show "fst (demo_action 4001) = Ok Direct" by simp
qed

subsection \<open>Handling a connection keeps the table\<close>

definition finished :: "unit outcome option \<Rightarrow> bool" where
  "finished ret \<longleftrightarrow> (\<exists>e. ret = Some (Ok ()) \<or> ret = Some (Err e))"

lemma check_server_ok:
  assumes "server_configs conf \<noteq> []"
  obtains client' where "check_server conf client = Ok client'"
proof -
  have "\<exists>client'. check_server conf client = Ok client'" using assms by (simp add: check_server_def Let_def)
  then show thesis using that by blast
qed

lemma serve_tcp_keeps:
  assumes "serve_tcp direct proxy action (c, w) = (ret, c', w')"
  shows "rc_conf c' = rc_conf c \<and> rc_counter c' = rc_counter c \<and> rc_connections c' = rc_connections c"
  using assms by (cases action) (auto simp: serve_tcp_def split: prod.splits outcome.splits)

lemma serve_tcp_panics:
  assumes "serve_tcp direct proxy action (c, w) = (Some Panic, c', w')" "server_configs (rc_conf c) \<noteq> []" "action \<noteq> Probe"
  shows "\<exists>s t. fst (direct s) = Some Panic \<or> fst (proxy t) = Some Panic"
proof (cases action)
  case Proxy
  from assms(2) obtain client where "check_server (rc_conf c) (rc_ssclient c) = Ok client" by (rule check_server_ok)
  with Proxy assms(1) have "fst (proxy (client, w)) = Some Panic" by (auto simp: serve_tcp_def split: prod.splits)
  then show ?thesis by blast
next
  case Direct
  with assms(1) have "fst (direct (rc_direct_client c, w)) = Some Panic" by (auto simp: serve_tcp_def split: prod.splits)
  then show ?thesis by blast
qed (use assms in \<open>auto simp: serve_tcp_def\<close>)


text \<open>A connection whose relay is still running, through a proxy that reads nothing.\<close>

definition demo_tcp :: "unit outcome option \<times> unit ruled_client \<times> unit" where
  "demo_tcp = ruled_handle_tcp demo_v6 demo_socks
     (demo_probe (DomainNameAddress ''abc'' 80)) (\<lambda>s. (Some (Ok ()), s)) (\<lambda>s. (None, s)) 7 (V4 (Ipv4Addr 11 0 0 1) 4000)
     (DomainNameAddress ''abc'' 80) (demo_ruled, ())"


end
