(* ===== verification/Phony_Socket.thy ===== *)
theory Phony_Socket
  imports Seeker_Prelude
begin

text \<open>
  The device between the tunnel and smoltcp's sockets, \<^verbatim>\<open>tun/src/iface/phony_socket.rs\<close>: two ring
  buffers of packets.  The ring buffer is smoltcp's and an argument of the definitions.  A function
  that hands out a mutable reference to a slot is modelled by the slot's content and a function that
  gives the ring with the slot's new content; a slot keeps the bytes of the packet it held before.
\<close>

type_synonym packet_bytes = "u8 list"

record 'r ring_ops =
  ring_new :: "packet_bytes list \<Rightarrow> 'r"
  enqueue_one :: "'r \<Rightarrow> (packet_bytes \<times> (packet_bytes \<Rightarrow> 'r)) option"
  dequeue_one_with :: "(packet_bytes \<Rightarrow> unit outcome) \<Rightarrow> 'r \<Rightarrow> unit outcome \<times> 'r"
  dequeue_one :: "'r \<Rightarrow> packet_bytes outcome \<times> 'r"

text \<open>What smoltcp documents of the ring: \<open>contents\<close> are the packets in it and \<open>capacity\<close> is the number
  of its slots; both are only used in the statements.\<close>

definition ring_laws :: "'r ring_ops \<Rightarrow> ('r \<Rightarrow> packet_bytes list) \<Rightarrow> ('r \<Rightarrow> nat) \<Rightarrow> bool" where
  "ring_laws R contents capacity \<longleftrightarrow>
     (\<forall>slots. contents (ring_new R slots) = [] \<and> capacity (ring_new R slots) = length slots) \<and>
     (\<forall>r. (enqueue_one R r = None) = (length (contents r) = capacity r)) \<and>
     (\<forall>r old put v. enqueue_one R r = Some (old, put) \<longrightarrow>
        contents (put v) = contents r @ [v] \<and> capacity (put v) = capacity r) \<and>
     (\<forall>r f. contents r = [] \<longrightarrow> dequeue_one_with R f r = (Err (Smoltcp Exhausted), r) \<and>
        dequeue_one R r = (Err (Smoltcp Exhausted), r)) \<and>
     (\<forall>r v vs. contents r = v # vs \<longrightarrow>
        (\<exists>r'. dequeue_one R r = (Ok v, r') \<and> contents r' = vs \<and> capacity r' = capacity r) \<and>
        (\<forall>f. (\<forall>e. f v = Err e \<longrightarrow> dequeue_one_with R f r = (Err e, r)) \<and>
             (f v = Ok () \<longrightarrow> (\<exists>r'. dequeue_one_with R f r = (Ok (), r') \<and> contents r' = vs \<and> capacity r' = capacity r))))"

subsection \<open>The two queues\<close>

definition MAX_PACKETS :: nat where "MAX_PACKETS = 1024"

record 'r phony_socket =
  ps_mtu :: nat
  rx :: 'r
  tx :: 'r

definition resize_vec :: "nat \<Rightarrow> packet_bytes \<Rightarrow> packet_bytes" where
  "resize_vec n xs = take n xs @ replicate (n - length xs) 0"

definition enqueue :: "'r ring_ops \<Rightarrow> nat \<Rightarrow> 'r \<Rightarrow> (packet_bytes \<times> (packet_bytes \<Rightarrow> 'r)) outcome" where
  "enqueue R mtu ring = (case enqueue_one R ring of
      None \<Rightarrow> Err (Smoltcp Exhausted)
    | Some (buf, put) \<Rightarrow> Ok (resize_vec mtu buf, put))"

text \<open>The loop that drops the empty packets at the front: \<open>True\<close> when it found another one.\<close>

partial_function (option) skip_empty :: "'r ring_ops \<Rightarrow> 'r \<Rightarrow> (bool outcome \<times> 'r) option" where
  "skip_empty R ring = (case dequeue_one_with R (\<lambda>buf. if buf \<noteq> [] then Err (Smoltcp Checksum) else Ok ()) ring of
      (Ok _, ring') \<Rightarrow> skip_empty R ring'
    | (Err e, ring') \<Rightarrow> if e = Smoltcp Checksum then Some (Ok True, ring')
        else if e = Smoltcp Exhausted then Some (Ok False, ring') else Some (Panic, ring')
    | (Panic, ring') \<Rightarrow> Some (Panic, ring')
    | (Diverge, ring') \<Rightarrow> None)"

definition deque :: "'r ring_ops \<Rightarrow> ('r, packet_bytes option) rust" where
  "deque R ring = (case skip_empty R ring of
      None \<Rightarrow> (Diverge, ring)
    | Some (Ok True, ring') \<Rightarrow> (case dequeue_one R ring' of
          (Ok buf, ring'') \<Rightarrow> (Ok (Some buf), ring'')
        | (Err e, ring'') \<Rightarrow> (if e = Smoltcp Exhausted then Ok None else Panic, ring'')
        | (Panic, ring'') \<Rightarrow> (Panic, ring'')
        | (Diverge, ring'') \<Rightarrow> (Diverge, ring''))
    | Some (Ok False, ring') \<Rightarrow> (Ok None, ring')
    | Some (_, ring') \<Rightarrow> (Panic, ring'))"

definition PhonySocket_new :: "'r ring_ops \<Rightarrow> nat \<Rightarrow> 'r phony_socket" where
  "PhonySocket_new R mtu =
     \<lparr>ps_mtu = mtu, rx = ring_new R (replicate MAX_PACKETS (replicate mtu 0)),
      tx = ring_new R (replicate MAX_PACKETS (replicate mtu 0))\<rparr>"

definition populate_rx :: "'r ring_ops \<Rightarrow> 'r phony_socket \<Rightarrow> (packet_bytes \<times> (packet_bytes \<Rightarrow> 'r phony_socket)) option" where
  "populate_rx R p = (case enqueue R (ps_mtu p) (rx p) of
      Ok (buf, put) \<Rightarrow> Some (buf, \<lambda>v. p\<lparr>rx := put v\<rparr>)
    | _ \<Rightarrow> None)"

definition vacate_tx :: "'r ring_ops \<Rightarrow> ('r phony_socket, packet_bytes option) rust" where
  "vacate_tx R p = (case deque R (tx p) of (r, ring) \<Rightarrow> (r, p\<lparr>tx := ring\<rparr>))"

text \<open>\<^verbatim>\<open>receive\<close> gives the packet of its receive token; \<^verbatim>\<open>transmit\<close> always gives a token, and what a token
  does is \<open>tx_consume\<close>.\<close>

definition receive :: "'r ring_ops \<Rightarrow> ('r phony_socket, packet_bytes option) rust" where
  "receive R p = (case deque R (rx p) of (r, ring) \<Rightarrow> (r, p\<lparr>rx := ring\<rparr>))"

definition tx_consume :: "'r ring_ops \<Rightarrow> nat \<Rightarrow> (packet_bytes \<Rightarrow> 'a outcome \<times> packet_bytes) \<Rightarrow> ('r phony_socket, 'a) rust" where
  "tx_consume R len f p = (case enqueue R len (tx p) of
      Ok (buf, put) \<Rightarrow> (case f (resize_vec len buf) of (ret, buf') \<Rightarrow> (ret, p\<lparr>tx := put buf'\<rparr>))
    | Err e \<Rightarrow> (Err e, p)
    | Panic \<Rightarrow> (Panic, p)
    | Diverge \<Rightarrow> (Diverge, p))"

subsection \<open>The queues hold the packets that are not empty\<close>

text \<open>A slot that was handed out and left empty is no packet.\<close>

definition packets :: "('r \<Rightarrow> packet_bytes list) \<Rightarrow> 'r \<Rightarrow> packet_bytes list" where
  "packets contents r = filter (\<lambda>v. v \<noteq> []) (contents r)"

lemma ring_empty:
  assumes "ring_laws R contents capacity" "contents r = []"
  shows "dequeue_one_with R f r = (Err (Smoltcp Exhausted), r)"
  using assms unfolding ring_laws_def by blast

lemma ring_front:
  assumes "ring_laws R contents capacity" "contents r = v # vs"
  shows "f v = Err e \<Longrightarrow> dequeue_one_with R f r = (Err e, r)"
    and "f v = Ok () \<Longrightarrow> \<exists>r'. dequeue_one_with R f r = (Ok (), r') \<and> contents r' = vs \<and> capacity r' = capacity r"
    and "\<exists>r'. dequeue_one R r = (Ok v, r') \<and> contents r' = vs \<and> capacity r' = capacity r"
  using assms unfolding ring_laws_def by blast+

lemma ring_back:
  assumes "ring_laws R contents capacity"
  shows "enqueue_one R r = None \<longleftrightarrow> length (contents r) = capacity r"
    and "enqueue_one R r = Some (old, put) \<Longrightarrow> contents (put v) = contents r @ [v] \<and> capacity (put v) = capacity r"
  using assms unfolding ring_laws_def by blast+

lemma skip_empty_returns:
  assumes "ring_laws R contents capacity"
  shows "\<exists>r'. skip_empty R r = Some (Ok (packets contents r \<noteq> []), r') \<and> capacity r' = capacity r \<and>
    contents r' = dropWhile (\<lambda>v. v = []) (contents r)"
proof (induction "contents r" arbitrary: r)
  case Nil
  then show ?case by (subst skip_empty.simps) (simp add: packets_def ring_empty [OF assms])
next
  case (Cons v vs)
  note front = ring_front [OF assms Cons.hyps(2) [symmetric]]
  show ?case
  proof (cases "v = []")
    case True
    with front(2) [of "\<lambda>buf. if buf \<noteq> [] then Err (Smoltcp Checksum) else Ok ()"] obtain r' where
      r': "dequeue_one_with R (\<lambda>buf. if buf \<noteq> [] then Err (Smoltcp Checksum) else Ok ()) r = (Ok (), r')"
        "contents r' = vs" "capacity r' = capacity r" by auto
    from Cons.hyps(1) [of r'] r'(2) obtain r'' where
      "skip_empty R r' = Some (Ok (packets contents r' \<noteq> []), r'')" "capacity r'' = capacity r'"
      "contents r'' = dropWhile (\<lambda>v. v = []) (contents r')" by auto
    with r' True Cons.hyps(2) [symmetric] show ?thesis by (subst skip_empty.simps) (simp add: packets_def)
  next
    case False
    with Cons.hyps(2) [symmetric] show ?thesis by (subst skip_empty.simps) (simp add: packets_def front(1))
  qed
qed

lemma dropWhile_front:
  "filter (\<lambda>v. v \<noteq> []) xs = v # vs \<Longrightarrow> \<exists>ys. dropWhile (\<lambda>v. v = []) xs = v # ys \<and> filter (\<lambda>v. v \<noteq> []) ys = vs"
proof (induction xs)
  case (Cons x xs)
  then show ?case by (cases "x = []") simp_all
qed simp

lemma dropWhile_none: "filter (\<lambda>v. v \<noteq> []) xs = [] \<Longrightarrow> dropWhile (\<lambda>v. v = []) xs = []"
  unfolding dropWhile_eq_Nil_conv filter_empty_conv by blast

lemma deque_packets:
  assumes "ring_laws R contents capacity"
  shows "\<exists>r'. deque R r = (Ok (case packets contents r of [] \<Rightarrow> None | v # _ \<Rightarrow> Some v), r') \<and>
    packets contents r' = tl (packets contents r) \<and> capacity r' = capacity r"
proof -
  from skip_empty_returns [OF assms, of r] obtain r1 where
    r1: "skip_empty R r = Some (Ok (packets contents r \<noteq> []), r1)" "capacity r1 = capacity r"
      "contents r1 = dropWhile (\<lambda>v. v = []) (contents r)" by blast
  show ?thesis
  proof (cases "packets contents r")
    case Nil
    then have "contents r1 = []" unfolding r1(3) packets_def by (rule dropWhile_none)
    then have "packets contents r1 = []" by (simp add: packets_def)
    with Nil r1(1,2) show ?thesis by (simp add: deque_def)
  next
    case (Cons v vs)
    with dropWhile_front [of "contents r"] r1(3) obtain ys where
      ys: "contents r1 = v # ys" "filter (\<lambda>v. v \<noteq> []) ys = vs" by (auto simp: packets_def)
    from ring_front(3) [OF assms this(1)] obtain r2 where "dequeue_one R r1 = (Ok v, r2)" "contents r2 = ys" "capacity r2 = capacity r1"
      by blast
    moreover from this ys have "packets contents r2 = vs" by (simp add: packets_def)
    ultimately show ?thesis using Cons r1(1,2) by (simp add: deque_def)
  qed
qed

text \<open>Taking a packet out of a ring with anything in it makes room.\<close>

lemma deque_shrinks:
  assumes "ring_laws R contents capacity" "deque R r = (x, r')" "contents r \<noteq> []"
  shows "length (contents r') < length (contents r)"
proof -
  from skip_empty_returns [OF assms(1), of r] obtain r1 where
    r1: "skip_empty R r = Some (Ok (packets contents r \<noteq> []), r1)" "contents r1 = dropWhile (\<lambda>v. v = []) (contents r)" by blast
  have le: "length (contents r1) \<le> length (contents r)" unfolding r1(2) by (rule length_dropWhile_le)
  show ?thesis
  proof (cases "packets contents r")
    case Nil
    then have "contents r1 = []" unfolding r1(2) packets_def by (rule dropWhile_none)
    with Nil r1(1) assms(2,3) show ?thesis by (auto simp: deque_def)
  next
    case (Cons v vs)
    with dropWhile_front [of "contents r"] r1(2) obtain ys where "contents r1 = v # ys" by (auto simp: packets_def)
    from ring_front(3) [OF assms(1) this] obtain r2 where "dequeue_one R r1 = (Ok v, r2)" "contents r2 = ys" by blast
    with Cons r1(1) assms(2) le \<open>contents r1 = v # ys\<close> show ?thesis by (simp add: deque_def)
  qed
qed

subsection \<open>A ring\<close>

text \<open>A ring as the list of its packets with the number of its slots.\<close>

definition list_ring :: "(packet_bytes list \<times> nat) ring_ops" where
  "list_ring = \<lparr>ring_new = (\<lambda>slots. ([], length slots)),
     enqueue_one = (\<lambda>(vs, n). if length vs = n then None else Some ([], \<lambda>v. (vs @ [v], n))),
     dequeue_one_with = (\<lambda>f (vs, n). case vs of
         [] \<Rightarrow> (Err (Smoltcp Exhausted), (vs, n))
       | v # vs' \<Rightarrow> (case f v of Ok _ \<Rightarrow> (Ok (), (vs', n)) | r \<Rightarrow> (r, (vs, n)))),
     dequeue_one = (\<lambda>(vs, n). case vs of [] \<Rightarrow> (Err (Smoltcp Exhausted), (vs, n)) | v # vs' \<Rightarrow> (Ok v, (vs', n)))\<rparr>"

lemma list_ring_laws: "ring_laws list_ring fst snd"
  by (auto simp: ring_laws_def list_ring_def)

end
