(* ===== verification/Tun_Iface.thy ===== *)
theory Tun_Iface
  imports Phony_Socket Rust_Std
begin

text \<open>
  The network interface, \<^verbatim>\<open>tun/src/iface/ethernet.rs\<close>: IPv4 packets from the device go to the sockets
  that accept them, a flow without a socket gets a new one, and what the sockets have to send goes
  to the device.  The sockets, the set they are in and the formats of the packets are smoltcp's and
  fields of the record \<open>net\<close>; a socket that is handed out mutably is its value and an update of the set.
\<close>

subsection \<open>What is used of smoltcp\<close>

datatype ip_protocol = ProtoTcp | ProtoUdp | ProtoOther

record ipv4_repr =
  src_addr :: ipv4
  dst_addr :: ipv4
  ip_proto :: ip_protocol
  payload_len :: nat

record udp_repr =
  udp_src_port :: u16
  udp_dst_port :: u16
  udp_payload :: "u8 list"

datatype ('t, 'u) tun_socket = Tcp_Socket 't | Udp_Socket 'u

text \<open>\<open>tcp_dispatch\<close> and \<open>udp_dispatch\<close> give the packet a socket wants to send and the socket after it was
  sent or not; \<open>tcp_process\<close> may give a reply.  \<open>set_retain\<close> and \<open>set_release\<close> count the references to a
  socket and have no result where smoltcp panics; an endpoint may have an address other than IPv4.\<close>

record ('set, 't, 'u, 'tr) net =
  set_iter :: "'set \<Rightarrow> (nat \<times> ('t, 'u) tun_socket) list"
  set_put :: "nat \<Rightarrow> ('t, 'u) tun_socket \<Rightarrow> 'set \<Rightarrow> 'set"
  set_add :: "('t, 'u) tun_socket \<Rightarrow> 'set \<Rightarrow> nat \<times> 'set"
  parse_ipv4_packet :: "u8 list \<Rightarrow> smol_error + (ipv4_repr \<times> u8 list)"
  is_unicast :: "ipv4 \<Rightarrow> bool"
  is_broadcast :: "ipv4 \<Rightarrow> bool"
  parse_udp :: "ipv4_repr \<Rightarrow> u8 list \<Rightarrow> smol_error + udp_repr"
  udp_new :: 'u
  udp_bind :: "ipv4 \<times> u16 \<Rightarrow> 'u \<Rightarrow> smol_error option \<times> 'u"
  udp_accepts :: "ipv4_repr \<Rightarrow> udp_repr \<Rightarrow> 'u \<Rightarrow> bool"
  udp_process :: "ipv4_repr \<Rightarrow> udp_repr \<Rightarrow> 'u \<Rightarrow> smol_error option \<times> 'u"
  udp_dispatch :: "'u \<Rightarrow> smol_error + (ipv4_repr \<times> udp_repr) \<times> (bool \<Rightarrow> 'u)"
  parse_tcp :: "ipv4_repr \<Rightarrow> u8 list \<Rightarrow> smol_error + 'tr"
  tcp_dst_port :: "'tr \<Rightarrow> u16"
  tcp_is_rst :: "'tr \<Rightarrow> bool"
  tcp_window_len :: "'tr \<Rightarrow> u16"
  tcp_set_window :: "u16 \<Rightarrow> 'tr \<Rightarrow> 'tr"
  tcp_header_len :: "'tr \<Rightarrow> nat"
  tcp_new :: 't
  tcp_listen :: "ipv4 \<times> u16 \<Rightarrow> 't \<Rightarrow> smol_error option \<times> 't"
  tcp_accepts :: "ipv4_repr \<Rightarrow> 'tr \<Rightarrow> 't \<Rightarrow> bool"
  tcp_process :: "int \<Rightarrow> ipv4_repr \<Rightarrow> 'tr \<Rightarrow> 't \<Rightarrow> (smol_error + (ipv4_repr \<times> 'tr) option) \<times> 't"
  tcp_rst_reply :: "ipv4_repr \<Rightarrow> 'tr \<Rightarrow> ipv4_repr \<times> 'tr"
  tcp_dispatch :: "int \<Rightarrow> 't \<Rightarrow> smol_error + (ipv4_repr \<times> 'tr) \<times> (bool \<Rightarrow> 't)"
  ip_lower :: "ipv4_repr \<Rightarrow> smol_error + ipv4_repr"
  ip_total_len :: "ipv4_repr \<Rightarrow> nat"
  ip_buffer_len :: "ipv4_repr \<Rightarrow> nat"
  ip_emit :: "ipv4_repr \<Rightarrow> u8 list \<Rightarrow> u8 list"
  udp_emit :: "ipv4_repr \<Rightarrow> udp_repr \<Rightarrow> u8 list \<Rightarrow> u8 list"
  tcp_emit :: "ipv4_repr \<Rightarrow> 'tr \<Rightarrow> u8 list \<Rightarrow> u8 list"
  set_retain :: "nat \<Rightarrow> 'set \<Rightarrow> 'set option"
  set_release :: "nat \<Rightarrow> 'set \<Rightarrow> 'set option"
  set_prune :: "'set \<Rightarrow> 'set"
  tcp_is_open :: "'t \<Rightarrow> bool"
  tcp_may_recv :: "'t \<Rightarrow> bool"
  tcp_can_recv :: "'t \<Rightarrow> bool"
  tcp_may_send :: "'t \<Rightarrow> bool"
  tcp_can_send :: "'t \<Rightarrow> bool"
  tcp_recv_slice :: "nat \<Rightarrow> 't \<Rightarrow> (smol_error + u8 list) \<times> 't"
  tcp_send_slice :: "u8 list \<Rightarrow> 't \<Rightarrow> (smol_error + nat) \<times> 't"
  tcp_local_endpoint :: "'t \<Rightarrow> ipv4 option \<times> u16"
  tcp_remote_endpoint :: "'t \<Rightarrow> ipv4 option \<times> u16"
  udp_is_open :: "'u \<Rightarrow> bool"
  udp_can_recv :: "'u \<Rightarrow> bool"
  udp_can_send :: "'u \<Rightarrow> bool"
  udp_recv_slice :: "nat \<Rightarrow> 'u \<Rightarrow> (smol_error + u8 list \<times> ipv4 option \<times> u16) \<times> 'u"
  udp_send_slice :: "u8 list \<Rightarrow> ipv4 \<times> u16 \<Rightarrow> 'u \<Rightarrow> smol_error option \<times> 'u"
  udp_endpoint :: "'u \<Rightarrow> ipv4 option \<times> u16"

definition smol :: "smol_error + 'a \<Rightarrow> 'a outcome" where
  "smol r = (case r of Inl e \<Rightarrow> Err (Smoltcp e) | Inr x \<Rightarrow> Ok x)"

definition smol_done :: "smol_error option \<Rightarrow> unit outcome" where
  "smol_done r = (case r of Some e \<Rightarrow> Err (Smoltcp e) | None \<Rightarrow> Ok ())"

subsection \<open>The interface\<close>

datatype 'tr net_packet = NoPacket | PacketUdp ipv4_repr udp_repr | PacketTcp ipv4_repr 'tr

record device_caps =
  max_transmission_unit :: nat
  max_burst_size :: "nat option"

record interface_inner =
  device_capabilities :: device_caps
  ip_addrs :: "ipv4 list"        \<comment> \<open>the addresses of its blocks\<close>
  any_ip :: bool

record 'r iface =
  device :: "'r phony_socket"
  inner :: interface_inner

definition capabilities :: "'r phony_socket \<Rightarrow> device_caps" where
  "capabilities p = \<lparr>max_transmission_unit = ps_mtu p, max_burst_size = None\<rparr>"

record 'r interface_builder =
  ib_device :: "'r phony_socket"
  ib_ip_addrs :: "ipv4 list"
  ib_any_ip :: bool

definition InterfaceBuilder_new :: "'r phony_socket \<Rightarrow> 'r interface_builder" where
  "InterfaceBuilder_new d = \<lparr>ib_device = d, ib_ip_addrs = [], ib_any_ip = False\<rparr>"

definition InterfaceBuilder_finalize :: "'r interface_builder \<Rightarrow> 'r iface" where
  "InterfaceBuilder_finalize b = \<lparr>device = ib_device b, inner = \<lparr>device_capabilities = capabilities (ib_device b),
     ip_addrs = ib_ip_addrs b, any_ip = ib_any_ip b\<rparr>\<rparr>"

definition has_ip_addr :: "ipv4 \<Rightarrow> interface_inner \<Rightarrow> bool" where
  "has_ip_addr addr i = list_ex (\<lambda>probe. probe = addr) (ip_addrs i)"

subsection \<open>Packets from the device\<close>

text \<open>The first socket of a kind that accepts a packet.\<close>

definition accepting_udp :: "('set, 't, 'u, 'tr) net \<Rightarrow> ipv4_repr \<Rightarrow> udp_repr \<Rightarrow> 'set \<Rightarrow> (nat \<times> 'u) option" where
  "accepting_udp N ip repr s = List.find (\<lambda>(_, u). udp_accepts N ip repr u)
     (List.map_filter (\<lambda>(h, k). case k of Udp_Socket u \<Rightarrow> Some (h, u) | Tcp_Socket _ \<Rightarrow> None) (set_iter N s))"

definition accepting_tcp :: "('set, 't, 'u, 'tr) net \<Rightarrow> ipv4_repr \<Rightarrow> 'tr \<Rightarrow> 'set \<Rightarrow> (nat \<times> 't) option" where
  "accepting_tcp N ip repr s = List.find (\<lambda>(_, t). tcp_accepts N ip repr t)
     (List.map_filter (\<lambda>(h, k). case k of Tcp_Socket t \<Rightarrow> Some (h, t) | Udp_Socket _ \<Rightarrow> None) (set_iter N s))"

text \<open>\<^verbatim>\<open>SocketSet::get\<close> panics for a handle without a socket of the kind asked for.\<close>

definition get_udp :: "('set, 't, 'u, 'tr) net \<Rightarrow> nat \<Rightarrow> 'set \<Rightarrow> 'u outcome" where
  "get_udp N h s = (case map_of (set_iter N s) h of Some (Udp_Socket u) \<Rightarrow> Ok u | _ \<Rightarrow> Panic)"

definition get_tcp :: "('set, 't, 'u, 'tr) net \<Rightarrow> nat \<Rightarrow> 'set \<Rightarrow> 't outcome" where
  "get_tcp N h s = (case map_of (set_iter N s) h of Some (Tcp_Socket t) \<Rightarrow> Ok t | _ \<Rightarrow> Panic)"

definition new_udp_socket :: "('set, 't, 'u, 'tr) net \<Rightarrow> ipv4_repr \<Rightarrow> udp_repr \<Rightarrow> ('set, nat) rust" where
  "new_udp_socket N ip repr = (case udp_bind N (dst_addr ip, udp_dst_port repr) (udp_new N) of
      (Some _, _) \<Rightarrow> panic
    | (None, u) \<Rightarrow> if \<not> udp_accepts N ip repr u then throw (Smoltcp DroppedPacket)
        else (\<lambda>s. case set_add N (Udp_Socket u) s of (h, s') \<Rightarrow> (Ok h, s')))"

definition run_udp :: "('set, 't, 'u, 'tr) net \<Rightarrow> ipv4_repr \<Rightarrow> udp_repr \<Rightarrow> nat \<Rightarrow> 'u \<Rightarrow> ('set, 'tr net_packet) rust" where
  "run_udp N ip repr h u = (\<lambda>s. case udp_process N ip repr u of
      (r, u') \<Rightarrow> (chain (smol_done r) (\<lambda>_. Ok NoPacket), set_put N h (Udp_Socket u') s))"

definition process_udp :: "('set, 't, 'u, 'tr) net \<Rightarrow> ipv4_repr \<Rightarrow> u8 list \<Rightarrow> ('set, 'tr net_packet) rust" where
  "process_udp N ip payload = bind (lifted (smol (parse_udp N ip payload))) (\<lambda>repr s.
     case accepting_udp N ip repr s of
       Some (h, u) \<Rightarrow> run_udp N ip repr h u s
     | None \<Rightarrow> bind (new_udp_socket N ip repr) (\<lambda>h s. bind (lifted (get_udp N h s)) (run_udp N ip repr h) s) s)"

definition try_new_tcp_socket :: "('set, 't, 'u, 'tr) net \<Rightarrow> ipv4_repr \<Rightarrow> 'tr \<Rightarrow> ('set, nat) rust" where
  "try_new_tcp_socket N ip repr = (case tcp_listen N (dst_addr ip, tcp_dst_port N repr) (tcp_new N) of
      (Some _, _) \<Rightarrow> panic
    | (None, t) \<Rightarrow> if \<not> tcp_accepts N ip repr t then throw (Smoltcp DroppedPacket)
        else (\<lambda>s. case set_add N (Tcp_Socket t) s of (h, s') \<Rightarrow> (Ok h, s')))"

definition tcp_reply :: "(ipv4_repr \<times> 'tr) option \<Rightarrow> 'tr net_packet" where
  "tcp_reply r = (case r of None \<Rightarrow> NoPacket | Some (ip, repr) \<Rightarrow> PacketTcp ip repr)"

definition process_tcp :: "('set, 't, 'u, 'tr) net \<Rightarrow> int \<Rightarrow> ipv4_repr \<Rightarrow> u8 list \<Rightarrow> ('set, 'tr net_packet) rust" where
  "process_tcp N timestamp ip payload = bind (lifted (smol (parse_tcp N ip payload))) (\<lambda>repr s.
     case accepting_tcp N ip repr s of
       Some (h, t) \<Rightarrow> (case tcp_process N timestamp ip repr t of
           (Inr reply, t') \<Rightarrow> (Ok (tcp_reply reply), set_put N h (Tcp_Socket t') s)
         | (Inl e, t') \<Rightarrow>
             (if e = DroppedPacket \<and> \<not> tcp_is_rst N repr then Ok (tcp_reply (Some (tcp_rst_reply N ip repr)))
              else Err (Smoltcp e), set_put N h (Tcp_Socket t') s))
     | None \<Rightarrow>
         if tcp_is_rst N repr then (Ok NoPacket, s)
         else (case try_new_tcp_socket N ip repr s of
             (Ok h, s) \<Rightarrow> bind (lifted (get_tcp N h s)) (\<lambda>t s. case tcp_process N timestamp ip repr t of
                 (r, t') \<Rightarrow> (chain (smol r) (\<lambda>reply. Ok (tcp_reply reply)), set_put N h (Tcp_Socket t') s)) s
           | (Err e, s) \<Rightarrow> (if e = Smoltcp DroppedPacket \<and> \<not> tcp_is_rst N repr
               then Ok (tcp_reply (Some (tcp_rst_reply N ip repr))) else Err e, s)
           | (Panic, s) \<Rightarrow> (Panic, s)
           | (Diverge, s) \<Rightarrow> (Diverge, s)))"

definition process_ipv4 :: "('set, 't, 'u, 'tr) net \<Rightarrow> interface_inner \<Rightarrow> int \<Rightarrow> u8 list \<Rightarrow> ('set, 'tr net_packet) rust" where
  "process_ipv4 N i timestamp frame = bind (lifted (smol (parse_ipv4_packet N frame))) (\<lambda>(ip, payload).
     if \<not> is_unicast N (src_addr ip) then throw (Smoltcp Malformed)
     else if \<not> has_ip_addr (dst_addr ip) i \<and> \<not> is_broadcast N (dst_addr ip) \<and> \<not> any_ip i then return NoPacket
     else (case ip_proto ip of
         ProtoUdp \<Rightarrow> process_udp N ip payload
       | ProtoTcp \<Rightarrow> process_tcp N timestamp ip payload
       | ProtoOther \<Rightarrow> return NoPacket))"

subsection \<open>Packets to the device\<close>

text \<open>The payload of the packet is emitted behind its header; slicing past the end panics.\<close>

definition dispatch_ip ::
  "'r ring_ops \<Rightarrow> ('set, 't, 'u, 'tr) net \<Rightarrow> ipv4_repr \<Rightarrow> (ipv4_repr \<Rightarrow> u8 list \<Rightarrow> u8 list) \<Rightarrow> ('r phony_socket, unit) rust" where
  "dispatch_ip R N ip f = bind (lifted (smol (ip_lower N ip))) (\<lambda>ip.
     tx_consume R (ip_total_len N ip) (\<lambda>tx_buffer.
       let tx_buffer = ip_emit N ip tx_buffer; n = ip_buffer_len N ip in
       if n \<le> length tx_buffer then (Ok (), take n tx_buffer @ f ip (drop n tx_buffer)) else (Panic, tx_buffer)))"

definition ETHERNET_HEADER :: nat where "ETHERNET_HEADER = 14"

text \<open>The segment size is a difference of sizes: below zero it wraps around.\<close>

definition limit_window :: "('set, 't, 'u, 'tr) net \<Rightarrow> device_caps \<Rightarrow> ipv4_repr \<Rightarrow> 'tr \<Rightarrow> 'tr" where
  "limit_window N caps ip repr = (case max_burst_size caps of
      None \<Rightarrow> repr
    | Some burst \<Rightarrow>
        let max_segment_size = of_nat (max_transmission_unit caps) - of_nat ETHERNET_HEADER
              - of_nat (ip_buffer_len N ip) - (of_nat (tcp_header_len N repr) :: u64);
            max_window_size = of_nat burst * max_segment_size in
        if ucast (tcp_window_len N repr) > max_window_size then tcp_set_window N (ucast max_window_size) repr else repr)"

definition dispatch :: "'r ring_ops \<Rightarrow> ('set, 't, 'u, 'tr) net \<Rightarrow> device_caps \<Rightarrow> 'tr net_packet \<Rightarrow> ('r phony_socket, unit) rust" where
  "dispatch R N caps packet = (case packet of
      PacketUdp ip repr \<Rightarrow> dispatch_ip R N ip (\<lambda>ip. udp_emit N ip repr)
    | PacketTcp ip repr \<Rightarrow> dispatch_ip R N ip (\<lambda>ip. tcp_emit N ip (limit_window N caps ip repr))
    | NoPacket \<Rightarrow> return ())"

subsection \<open>The polls\<close>

text \<open>The state is the device and the set of sockets; a socket lets its transmit token borrow the device
  after the packet was taken from it.\<close>

definition handle_frame ::
  "'r ring_ops \<Rightarrow> ('set, 't, 'u, 'tr) net \<Rightarrow> interface_inner \<Rightarrow> int \<Rightarrow> u8 list \<Rightarrow> ('r phony_socket \<times> 'set, unit) rust" where
  "handle_frame R N i timestamp frame = (\<lambda>(d, s). case process_ipv4 N i timestamp frame s of
      (Ok response, s') \<Rightarrow> (case dispatch R N (device_capabilities i) response d of (r, d') \<Rightarrow> (r, (d', s')))
    | (Err e, s') \<Rightarrow> (Err e, (d, s'))
    | (Panic, s') \<Rightarrow> (Panic, (d, s'))
    | (Diverge, s') \<Rightarrow> (Diverge, (d, s')))"

partial_function (option) ingress_loop ::
  "'r ring_ops \<Rightarrow> ('set, 't, 'u, 'tr) net \<Rightarrow> interface_inner \<Rightarrow> int \<Rightarrow> bool \<Rightarrow> 'r phony_socket \<times> 'set \<Rightarrow>
    (bool outcome \<times> 'r phony_socket \<times> 'set) option" where
  "ingress_loop R N i timestamp processed_any st = (case receive R (fst st) of
      (Ok None, d) \<Rightarrow> Some (Ok processed_any, (d, snd st))
    | (Ok (Some frame), d) \<Rightarrow> (case handle_frame R N i timestamp frame (d, snd st) of
          (Ok _, st') \<Rightarrow> ingress_loop R N i timestamp True st'
        | (Err e, st') \<Rightarrow> Some (Err e, st')
        | (Panic, st') \<Rightarrow> Some (Panic, st')
        | (Diverge, st') \<Rightarrow> None)
    | (Err e, d) \<Rightarrow> Some (Err e, (d, snd st))
    | (Panic, d) \<Rightarrow> Some (Panic, (d, snd st))
    | (Diverge, d) \<Rightarrow> None)"

definition diverging :: "'s \<Rightarrow> ('a outcome \<times> 's) option \<Rightarrow> 'a outcome \<times> 's" where
  "diverging st r = (case r of None \<Rightarrow> (Diverge, st) | Some x \<Rightarrow> x)"

definition socket_ingress ::
  "'r ring_ops \<Rightarrow> ('set, 't, 'u, 'tr) net \<Rightarrow> interface_inner \<Rightarrow> int \<Rightarrow> ('r phony_socket \<times> 'set, bool) rust" where
  "socket_ingress R N i timestamp st = diverging st (ingress_loop R N i timestamp False st)"

definition socket_dispatch ::
  "('set, 't, 'u, 'tr) net \<Rightarrow> int \<Rightarrow> ('t, 'u) tun_socket \<Rightarrow> smol_error + ('tr net_packet \<times> (bool \<Rightarrow> ('t, 'u) tun_socket))" where
  "socket_dispatch N timestamp k = (case k of
      Udp_Socket u \<Rightarrow> map_sum (\<lambda>e. e) (\<lambda>((ip, repr), put). (PacketUdp ip repr, Udp_Socket \<circ> put)) (udp_dispatch N u)
    | Tcp_Socket t \<Rightarrow> map_sum (\<lambda>e. e) (\<lambda>((ip, repr), put). (PacketTcp ip repr, Tcp_Socket \<circ> put)) (tcp_dispatch N timestamp t))"

text \<open>The loop over the sockets, with the sockets still to come.\<close>

fun egress_loop ::
  "'r ring_ops \<Rightarrow> ('set, 't, 'u, 'tr) net \<Rightarrow> interface_inner \<Rightarrow> int \<Rightarrow> (nat \<times> ('t, 'u) tun_socket) list \<Rightarrow> bool \<Rightarrow>
    ('r phony_socket \<times> 'set, bool) rust" where
  "egress_loop R N i timestamp [] emitted_any (d, s) = (Ok emitted_any, (d, s))"
| "egress_loop R N i timestamp ((h, k) # ks) emitted_any (d, s) = (case socket_dispatch N timestamp k of
      Inl e \<Rightarrow> if e = Exhausted then egress_loop R N i timestamp ks emitted_any (d, s) else (Err (Smoltcp e), (d, s))
    | Inr (packet, put) \<Rightarrow> (case dispatch R N (device_capabilities i) packet d of
          (Ok _, d') \<Rightarrow> egress_loop R N i timestamp ks True (d', set_put N h (put True) s)
        | (Err e, d') \<Rightarrow> (if e = Smoltcp Exhausted then Ok emitted_any else Err e, (d', set_put N h (put False) s))
        | (Panic, d') \<Rightarrow> (Panic, (d', s))
        | (Diverge, d') \<Rightarrow> (Diverge, (d', s))))"

definition socket_egress ::
  "'r ring_ops \<Rightarrow> ('set, 't, 'u, 'tr) net \<Rightarrow> interface_inner \<Rightarrow> int \<Rightarrow> ('r phony_socket \<times> 'set, bool) rust" where
  "socket_egress R N i timestamp = (\<lambda>(d, s). egress_loop R N i timestamp (set_iter N s) False (d, s))"

text \<open>The three polls differ in what they repeat until it does nothing more.\<close>

partial_function (option) poll_loop ::
  "('s, bool) rust \<Rightarrow> bool \<Rightarrow> 's \<Rightarrow> (bool outcome \<times> 's) option" where
  "poll_loop step changed st = (case step st of
      (Ok b, st') \<Rightarrow> if b then poll_loop step True st' else Some (Ok changed, st')
    | (Err e, st') \<Rightarrow> Some (Err e, st')
    | (Panic, st') \<Rightarrow> Some (Panic, st')
    | (Diverge, st') \<Rightarrow> None)"

definition iface_poll_read ::
  "'r ring_ops \<Rightarrow> ('set, 't, 'u, 'tr) net \<Rightarrow> interface_inner \<Rightarrow> int \<Rightarrow> ('r phony_socket \<times> 'set, bool) rust" where
  "iface_poll_read R N i timestamp st = diverging st (poll_loop (socket_ingress R N i timestamp) False st)"

definition iface_poll_write ::
  "'r ring_ops \<Rightarrow> ('set, 't, 'u, 'tr) net \<Rightarrow> interface_inner \<Rightarrow> int \<Rightarrow> ('r phony_socket \<times> 'set, bool) rust" where
  "iface_poll_write R N i timestamp st = diverging st (poll_loop (socket_egress R N i timestamp) False st)"

definition iface_poll ::
  "'r ring_ops \<Rightarrow> ('set, 't, 'u, 'tr) net \<Rightarrow> interface_inner \<Rightarrow> int \<Rightarrow> ('r phony_socket \<times> 'set, bool) rust" where
  "iface_poll R N i timestamp st = diverging st (poll_loop
     (bind (socket_ingress R N i timestamp) (\<lambda>processed_any.
      bind (socket_egress R N i timestamp) (\<lambda>emitted_any. return (processed_any \<or> emitted_any)))) False st)"

subsection \<open>Every packet is handled once and in order\<close>

text \<open>The sockets after the packets \<open>frames\<close>, and the packets that are queued.\<close>

fun fed :: "('set, 't, 'u, 'tr) net \<Rightarrow> interface_inner \<Rightarrow> int \<Rightarrow> u8 list list \<Rightarrow> 'set \<Rightarrow> 'set" where
  "fed N i timestamp [] s = s"
| "fed N i timestamp (f # fs) s = fed N i timestamp fs (snd (process_ipv4 N i timestamp f s))"

definition queued :: "('r \<Rightarrow> u8 list list) \<Rightarrow> 'r phony_socket \<Rightarrow> u8 list list" where
  "queued contents d = packets contents (rx d)"

lemma receive_queued:
  assumes "ring_laws R contents capacity"
  shows "\<exists>d'. receive R d = (Ok (case queued contents d of [] \<Rightarrow> None | f # _ \<Rightarrow> Some f), d') \<and>
    queued contents d' = tl (queued contents d) \<and> tx d' = tx d"
  using deque_packets [OF assms, of "rx d"] by (auto simp: receive_def queued_def)

lemma tx_consume_rx: "tx_consume R n f d = (r, d') \<Longrightarrow> rx d' = rx d"
  by (auto simp: tx_consume_def split: outcome.splits prod.splits)

lemma dispatch_rx: "dispatch R N caps packet d = (r, d') \<Longrightarrow> rx d' = rx d"
  by (auto simp: dispatch_def dispatch_ip_def bind_def dest: tx_consume_rx split: net_packet.splits outcome.splits prod.splits)

lemma handle_frame_rx:
  assumes "handle_frame R N i timestamp frame (d, s) = (r, (d', s'))"
  shows "rx d' = rx d"
  using assms by (auto simp: handle_frame_def dest: dispatch_rx split: outcome.splits prod.splits)

lemma handle_frame_queued:
  assumes "handle_frame R N i timestamp frame (d, s) = (r, (d', s'))"
  shows "queued contents d' = queued contents d \<and> s' = fed N i timestamp [frame] s"
  using assms by (auto simp: handle_frame_def queued_def dest: dispatch_rx split: outcome.splits prod.splits)

text \<open>Handling a packet always ends.\<close>

lemma lifted_smol_ends [simp]: "smol r \<noteq> Diverge" "smol_done e \<noteq> Diverge" "chain (smol r) (\<lambda>x. Ok (f x)) \<noteq> Diverge"
    "chain (smol_done e) (\<lambda>x. Ok c) \<noteq> Diverge"
  by (auto simp: smol_def smol_done_def split: sum.splits option.splits)

lemma bind_ends: "fst (m s) \<noteq> Diverge \<Longrightarrow> (\<And>x s'. fst (f x s') \<noteq> Diverge) \<Longrightarrow> fst (bind m f s) \<noteq> Diverge"
  by (auto simp: bind_def split: prod.splits outcome.splits)

lemma process_udp_ends: "fst (process_udp N ip payload s) \<noteq> Diverge"
proof -
  have run: "fst (run_udp N ip repr h u s) \<noteq> Diverge" for repr h u s
    by (simp add: run_udp_def split: prod.split)
  have get: "get_udp N h s \<noteq> Diverge" for h s
    by (simp add: get_udp_def split: option.split tun_socket.split)
  have new: "fst (new_udp_socket N ip repr s) \<noteq> Diverge" for repr s
    by (simp add: new_udp_socket_def split: prod.split option.split)
  have "fst (bind (new_udp_socket N ip repr) (\<lambda>h s. bind (lifted (get_udp N h s)) (run_udp N ip repr h) s) s) \<noteq> Diverge" for repr s
    by (intro bind_ends) (simp_all add: run get new)
  with run show ?thesis unfolding process_udp_def by (intro bind_ends) (simp_all split: option.split)
qed

lemma process_tcp_ends: "fst (process_tcp N timestamp ip payload s) \<noteq> Diverge"
proof -
  have get: "get_tcp N h s \<noteq> Diverge" for h s
    by (simp add: get_tcp_def split: option.split tun_socket.split)
  have new: "try_new_tcp_socket N ip repr s \<noteq> (Diverge, s')" for repr s s'
    by (simp add: try_new_tcp_socket_def split: prod.split option.split)
  have "fst (bind (lifted (get_tcp N h s)) (\<lambda>t s. case tcp_process N timestamp ip repr t of
      (r, t') \<Rightarrow> (chain (smol r) (\<lambda>reply. Ok (tcp_reply reply)), set_put N h (Tcp_Socket t') s)) s) \<noteq> Diverge" for h repr s
    by (intro bind_ends) (simp_all add: get split: prod.split)
  with new show ?thesis unfolding process_tcp_def
    by (intro bind_ends) (simp_all split: option.split prod.split sum.split outcome.split)
qed

lemma handle_frame_ends: "fst (handle_frame R N i timestamp frame ds) \<noteq> Diverge"
proof -
  have consume: "fst (tx_consume R n f d) \<noteq> Diverge" if "\<And>b. fst (f b) \<noteq> Diverge" for n f d
    using that by (auto simp: tx_consume_def enqueue_def split: option.splits prod.splits) (metis fst_conv)
  have "fst (dispatch_ip R N ip f d) \<noteq> Diverge" for ip f d
    unfolding dispatch_ip_def by (intro bind_ends consume) (simp_all add: Let_def)
  then have "fst (dispatch R N caps packet d) \<noteq> Diverge" for caps packet d
    by (simp add: dispatch_def split: net_packet.split)
  moreover have "fst (process_ipv4 N i timestamp frame s) \<noteq> Diverge" for s
    unfolding process_ipv4_def
    by (intro bind_ends) (simp_all add: process_udp_ends process_tcp_ends split: prod.split ip_protocol.split)
  ultimately show ?thesis by (auto simp: handle_frame_def split: prod.split outcome.split) (metis fst_conv)+
qed

text \<open>A device with anything in its queue has room after it was read.\<close>

definition shrunk :: "('r \<Rightarrow> u8 list list) \<Rightarrow> ('r \<Rightarrow> nat) \<Rightarrow> 'r phony_socket \<Rightarrow> 'r phony_socket \<Rightarrow> bool" where
  "shrunk contents capacity d d' \<longleftrightarrow>
     capacity (rx d') = capacity (rx d) \<and> length (contents (rx d')) \<le> length (contents (rx d)) - 1"

lemma shrunk_trans: "shrunk contents capacity d d' \<Longrightarrow> shrunk contents capacity d' d'' \<Longrightarrow> shrunk contents capacity d d''"
  by (auto simp: shrunk_def)

lemma receive_shrinks:
  assumes "ring_laws R contents capacity" "receive R d = (x, d')"
  shows "shrunk contents capacity d d'"
proof -
  obtain ring where ring: "deque R (rx d) = (x, ring)" "rx d' = ring"
    using assms(2) by (auto simp: receive_def split: prod.splits)
  from deque_packets [OF assms(1), of "rx d"] ring have "capacity (rx d') = capacity (rx d)" by auto
  moreover have "length (contents ring) \<le> length (contents (rx d)) - 1"
  proof (cases "contents (rx d)")
    case Nil
    then have "deque R (rx d) = (Ok None, rx d)"
      by (simp add: deque_def skip_empty.simps [of R "rx d"] ring_empty [OF assms(1)])
    with ring Nil show ?thesis by simp
  next
    case Cons
    with deque_shrinks [OF assms(1) ring(1)] show ?thesis by simp
  qed
  ultimately show ?thesis using ring(2) by (simp add: shrunk_def)
qed

text \<open>What an ingress that returned has done: the sockets were given a front part of the queue, and the
  rest is still there; nothing is left unless it failed, and it fails only on a packet it took.\<close>

definition ingested ::
  "('r \<Rightarrow> u8 list list) \<Rightarrow> ('r \<Rightarrow> nat) \<Rightarrow> ('set, 't, 'u, 'tr) net \<Rightarrow> interface_inner \<Rightarrow> int \<Rightarrow> bool \<Rightarrow> 'r phony_socket \<Rightarrow> 'set \<Rightarrow>
    bool outcome \<times> 'r phony_socket \<times> 'set \<Rightarrow> u8 list list \<Rightarrow> bool" where
  "ingested contents capacity N i timestamp b d s = (\<lambda>(r, (d', s')) taken.
     queued contents d = taken @ queued contents d' \<and> s' = fed N i timestamp taken s \<and> shrunk contents capacity d d' \<and>
     (case r of Ok c \<Rightarrow> queued contents d' = [] \<and> c = (b \<or> taken \<noteq> []) | _ \<Rightarrow> r \<noteq> Diverge \<and> taken \<noteq> []))"

lemma ingested_Cons:
  assumes "ingested contents capacity N i timestamp True d2 (fed N i timestamp [f] s) res taken" "queued contents d = f # queued contents d2"
    and "shrunk contents capacity d d2"
  shows "ingested contents capacity N i timestamp b d s res (f # taken)"
  using assms by (auto simp: ingested_def dest: shrunk_trans split: prod.splits outcome.splits)

lemma ingress_loop_fed:
  assumes "ring_laws R contents capacity"
  shows "\<exists>res taken. ingress_loop R N i timestamp b (d, s) = Some res \<and> ingested contents capacity N i timestamp b d s res taken"
proof (induction "queued contents d" arbitrary: b d s)
  case Nil
  from receive_queued [OF assms, of d] Nil [symmetric] obtain d' where
    "receive R d = (Ok None, d')" "queued contents d' = []" by auto
  moreover from receive_shrinks [OF assms this(1)] have "shrunk contents capacity d d'" .
  ultimately have "ingress_loop R N i timestamp b (d, s) = Some (Ok b, (d', s))"
    "ingested contents capacity N i timestamp b d s (Ok b, (d', s)) []"
    using Nil by (simp_all add: ingress_loop.simps [of R N i timestamp b "(d, s)"] ingested_def)
  then show ?case by blast
next
  case (Cons f fs)
  from receive_queued [OF assms, of d] Cons.hyps(2) [symmetric] obtain d1 where
    recv: "receive R d = (Ok (Some f), d1)" "queued contents d1 = fs" by auto
  obtain r d2 s2 where handle: "handle_frame R N i timestamp f (d1, s) = (r, (d2, s2))" by (metis prod.exhaust)
  have kept: "queued contents d2 = fs" "s2 = fed N i timestamp [f] s"
    using handle_frame_queued [OF handle] recv(2) by auto
  have ends: "r \<noteq> Diverge" using handle_frame_ends [of R N i timestamp f "(d1, s)"] handle by simp
  have shrunk: "shrunk contents capacity d d2"
    using receive_shrinks [OF assms recv(1)] handle_frame_rx [OF handle] by (simp add: shrunk_def)
  note step = ingress_loop.simps [of R N i timestamp b "(d, s)"]
  show ?case
  proof (cases "\<exists>u. r = Ok u")
    case True
    from Cons.hyps(1) [OF kept(1) [symmetric], of True s2] obtain res taken where
      res: "ingress_loop R N i timestamp True (d2, s2) = Some res" "ingested contents capacity N i timestamp True d2 s2 res taken" by blast
    have "ingested contents capacity N i timestamp b d s res (f # taken)"
      by (rule ingested_Cons [OF res(2) [unfolded kept(2)]]) (simp_all add: kept(1) shrunk Cons.hyps(2) [symmetric])
    moreover have "ingress_loop R N i timestamp b (d, s) = Some res" using True res(1) recv handle by (auto simp: step)
    ultimately show ?thesis by blast
  next
    case False
    with ends consider e where "r = Err e" | "r = Panic" by (cases r) auto
    then obtain r' where r': "ingress_loop R N i timestamp b (d, s) = Some (r', (d2, s2))" "r' \<noteq> Diverge" "\<nexists>c. r' = Ok c"
      using recv handle by cases (auto simp: step)
    then have "ingested contents capacity N i timestamp b d s (r', (d2, s2)) [f]"
      using kept shrunk Cons.hyps(2) by (simp add: ingested_def split: outcome.split)
    with r'(1) show ?thesis by blast
  qed
qed

lemma socket_ingress_fed:
  assumes "ring_laws R contents capacity"
  shows "\<exists>taken. ingested contents capacity N i timestamp False d s (socket_ingress R N i timestamp (d, s)) taken"
  using ingress_loop_fed [OF assms, of N i timestamp False d s] by (auto simp: socket_ingress_def diverging_def)

lemma ingested_result:
  assumes "ingested contents capacity N i timestamp b d s res taken"
  shows "fst res \<noteq> Diverge"
  using assms by (auto simp: ingested_def split: prod.splits outcome.splits)

lemma poll_read_fed:
  assumes "ring_laws R contents capacity" "iface_poll_read R N i timestamp (d, s) = (r, (d', s'))"
  shows "shrunk contents capacity d d' \<and> (\<exists>taken. queued contents d = taken @ queued contents d' \<and> s' = fed N i timestamp taken s \<and>
    (case r of Ok c \<Rightarrow> queued contents d' = [] \<and> c = (taken \<noteq> []) | _ \<Rightarrow> r \<noteq> Diverge \<and> taken \<noteq> []))"
proof -
  obtain r1 d1 s1 where first: "socket_ingress R N i timestamp (d, s) = (r1, (d1, s1))" by (metis prod.exhaust)
  with socket_ingress_fed [OF assms(1), of N i timestamp d s] obtain taken where
    taken: "ingested contents capacity N i timestamp False d s (r1, (d1, s1)) taken" by auto
  note loop = poll_loop.simps [of "socket_ingress R N i timestamp"]
  show ?thesis
  proof (cases "r1 = Ok True")
    case True
    obtain r2 d2 s2 where second: "socket_ingress R N i timestamp (d1, s1) = (r2, (d2, s2))" by (metis prod.exhaust)
    with socket_ingress_fed [OF assms(1), of N i timestamp d1 s1] obtain none where
      none: "ingested contents capacity N i timestamp False d1 s1 (r2, (d2, s2)) none" by auto
    from taken none have "shrunk contents capacity d d2" by (auto simp: ingested_def dest: shrunk_trans)
    from taken True have "queued contents d1 = []" by (simp add: ingested_def)
    with none have "r2 = Ok False" "queued contents d2 = []" "s2 = s1" by (auto simp: ingested_def split: outcome.splits)
    with first second True assms(2) have "(r, (d', s')) = (Ok True, (d2, s1))"
      by (simp add: iface_poll_read_def diverging_def loop [of False] loop [of True])
    with taken True \<open>queued contents d1 = []\<close> \<open>queued contents d2 = []\<close> \<open>shrunk contents capacity d d2\<close> show ?thesis by (auto simp: ingested_def)
  next
    case False
    with first assms(2) ingested_result [OF taken] have "(r, (d', s')) = (r1, (d1, s1))"
      by (cases r1) (auto simp: iface_poll_read_def diverging_def loop [of False])
    with taken show ?thesis by (auto simp: ingested_def split: outcome.splits)
  qed
qed


subsection \<open>One socket per flow\<close>

abbreviation socks :: "('set, 't, 'u, 'tr) net \<Rightarrow> 'set \<Rightarrow> nat \<rightharpoonup> ('t, 'u) tun_socket" where
  "socks N s \<equiv> map_of (set_iter N s)"

text \<open>What smoltcp documents: a set is updated and extended in one place, a packet without a destination
  port does not parse, and a new socket can be bound to any other port.\<close>

definition net_laws :: "('set, 't, 'u, 'tr) net \<Rightarrow> bool" where
  "net_laws N \<longleftrightarrow>
     (\<forall>s. distinct (map fst (set_iter N s))) \<and>
     (\<forall>s h k. h \<in> dom (socks N s) \<longrightarrow> socks N (set_put N h k s) = (socks N s)(h \<mapsto> k)) \<and>
     (\<forall>s k h s'. set_add N k s = (h, s') \<longrightarrow> h \<notin> dom (socks N s) \<and> socks N s' = (socks N s)(h \<mapsto> k)) \<and>
     (\<forall>ip payload repr. parse_udp N ip payload = Inr repr \<longrightarrow> udp_dst_port repr \<noteq> 0) \<and>
     (\<forall>ip payload repr. parse_tcp N ip payload = Inr repr \<longrightarrow> tcp_dst_port N repr \<noteq> 0) \<and>
     (\<forall>a pt. pt \<noteq> 0 \<longrightarrow> fst (udp_bind N (a, pt) (udp_new N)) = None \<and> fst (tcp_listen N (a, pt) (tcp_new N)) = None)"

lemma net_lawsD:
  assumes "net_laws N"
  shows "distinct (map fst (set_iter N s))"
    and "h \<in> dom (socks N s) \<Longrightarrow> socks N (set_put N h k s) = (socks N s)(h \<mapsto> k)"
    and "set_add N k s = (h, s') \<Longrightarrow> h \<notin> dom (socks N s) \<and> socks N s' = (socks N s)(h \<mapsto> k)"
    and "parse_udp N ip payload = Inr ur \<Longrightarrow> udp_dst_port ur \<noteq> 0"
    and "parse_tcp N ip payload = Inr tr \<Longrightarrow> tcp_dst_port N tr \<noteq> 0"
    and "pt \<noteq> 0 \<Longrightarrow> fst (udp_bind N (a, pt) (udp_new N)) = None"
    and "pt \<noteq> 0 \<Longrightarrow> fst (tcp_listen N (a, pt) (tcp_new N)) = None"
  using assms unfolding net_laws_def by blast+

text \<open>A packet is for a socket of its protocol that accepts it.\<close>

definition takes :: "('set, 't, 'u, 'tr) net \<Rightarrow> u8 list \<Rightarrow> ('t, 'u) tun_socket \<Rightarrow> bool" where
  "takes N frame k \<longleftrightarrow> (\<exists>ip payload. parse_ipv4_packet N frame = Inr (ip, payload) \<and> (case k of
      Udp_Socket u \<Rightarrow> ip_proto ip = ProtoUdp \<and> (\<exists>repr. parse_udp N ip payload = Inr repr \<and> udp_accepts N ip repr u)
    | Tcp_Socket t \<Rightarrow> ip_proto ip = ProtoTcp \<and> (\<exists>repr. parse_tcp N ip payload = Inr repr \<and> tcp_accepts N ip repr t)))"

text \<open>At most one socket differs: one that accepts, or a new one while no other does.\<close>

definition one_socket :: "('set, 't, 'u, 'tr) net \<Rightarrow> (('t, 'u) tun_socket \<Rightarrow> bool) \<Rightarrow> 'set \<Rightarrow> 'set \<Rightarrow> bool" where
  "one_socket N accepts s s' \<longleftrightarrow> socks N s' = socks N s \<or>
     (\<exists>h k. socks N s' = (socks N s)(h \<mapsto> k) \<and> (case socks N s h of
        Some old \<Rightarrow> accepts old | None \<Rightarrow> \<forall>k \<in> ran (socks N s). \<not> accepts k))"

lemma find_first:
  "List.find P xs = Some x \<Longrightarrow> x \<in> set xs \<and> P x" "List.find P xs = None \<longleftrightarrow> (\<forall>x \<in> set xs. \<not> P x)"
  by (auto simp: find_Some_iff find_None_iff)

lemma accepting_udp_dom:
  assumes "net_laws N"
  shows "accepting_udp N ip repr s = Some (h, u) \<Longrightarrow> socks N s h = Some (Udp_Socket u) \<and> udp_accepts N ip repr u"
    and "accepting_udp N ip repr s = None \<Longrightarrow> Udp_Socket u \<in> ran (socks N s) \<Longrightarrow> \<not> udp_accepts N ip repr u"
  using net_lawsD(1) [OF assms, of s]
  by (auto simp: accepting_udp_def map_filter_def ran_def dest!: find_first(1) map_of_SomeD
      split: tun_socket.splits if_splits) (fastforce simp: find_first(2))

lemma accepting_tcp_dom:
  assumes "net_laws N"
  shows "accepting_tcp N ip repr s = Some (h, t) \<Longrightarrow> socks N s h = Some (Tcp_Socket t) \<and> tcp_accepts N ip repr t"
    and "accepting_tcp N ip repr s = None \<Longrightarrow> Tcp_Socket t \<in> ran (socks N s) \<Longrightarrow> \<not> tcp_accepts N ip repr t"
  using net_lawsD(1) [OF assms, of s]
  by (auto simp: accepting_tcp_def map_filter_def ran_def dest!: find_first(1) map_of_SomeD
      split: tun_socket.splits if_splits) (fastforce simp: find_first(2))

lemma one_socket_put:
  assumes "net_laws N" "socks N s h = Some k" "P k"
  shows "one_socket N P s (set_put N h k' s)"
  using net_lawsD(2) [OF assms(1), of h s k'] assms(2,3) by (fastforce simp: one_socket_def)

lemma one_socket_add:
  assumes "net_laws N" "set_add N k s = (h, s')" "\<And>k. k \<in> ran (socks N s) \<Longrightarrow> \<not> P k"
  shows "one_socket N P s s' \<and> socks N s' h = Some k \<and> one_socket N P s (set_put N h k' s')"
proof -
  from net_lawsD(3) [OF assms(1,2)] have s': "h \<notin> dom (socks N s)" "socks N s' = (socks N s)(h \<mapsto> k)" by auto
  moreover have "socks N (set_put N h k' s') = (socks N s)(h \<mapsto> k')"
    using net_lawsD(2) [OF assms(1), of h s' k'] s'(2) by simp
  ultimately show ?thesis using assms(3) by (auto simp: one_socket_def domIff intro!: exI [of _ h])
qed

lemma one_socket_same [simp]: "one_socket N P s s"
  by (simp add: one_socket_def)

lemma smol_no_panic [simp]: "smol r \<noteq> Panic" "smol_done e \<noteq> Panic" "chain (smol r) (\<lambda>x. Ok (f x)) \<noteq> Panic"
    "chain (smol_done e) (\<lambda>x. Ok c) \<noteq> Panic"
  by (auto simp: smol_def smol_done_def split: sum.splits option.splits)

lemma process_udp_one:
  assumes "net_laws N" "process_udp N ip payload s = (r, s')"
    and "\<And>k repr. parse_udp N ip payload = Inr repr \<Longrightarrow> P k \<longleftrightarrow> (\<exists>u. k = Udp_Socket u \<and> udp_accepts N ip repr u)"
  shows "r \<noteq> Panic \<and> one_socket N P s s'"
proof (cases "parse_udp N ip payload")
  case (Inl e)
  with assms(2) show ?thesis by (auto simp: process_udp_def smol_def)
next
  case (Inr repr)
  show ?thesis
  proof (cases "accepting_udp N ip repr s")
    case (Some hu)
    then obtain h u where hu: "accepting_udp N ip repr s = Some (h, u)" by (cases hu) auto
    from accepting_udp_dom(1) [OF assms(1) hu] assms(3) [OF Inr]
    have "socks N s h = Some (Udp_Socket u)" "P (Udp_Socket u)" by auto
    from one_socket_put [where P = P, OF assms(1) this] assms(2) Inr hu show ?thesis
      by (auto simp: process_udp_def smol_def run_udp_def split: prod.splits)
  next
    case None
    have no: "\<not> P k" if "k \<in> ran (socks N s)" for k
      using accepting_udp_dom(2) [OF assms(1) None] assms(3) [OF Inr, of k] that by (cases k) auto
    obtain u where u: "udp_bind N (dst_addr ip, udp_dst_port repr) (udp_new N) = (None, u)"
      using net_lawsD(4) [OF assms(1) Inr] net_lawsD(6) [OF assms(1)] by (metis prod.collapse)
    obtain h s1 where add: "set_add N (Udp_Socket u) s = (h, s1)" by fastforce
    note one = one_socket_add [where P = P, OF assms(1) add no]
    show ?thesis using assms(2) Inr None u add one
      by (auto simp: process_udp_def smol_def new_udp_socket_def get_udp_def run_udp_def bind_def split: if_splits prod.splits)
  qed
qed

lemma process_tcp_one:
  assumes "net_laws N" "process_tcp N timestamp ip payload s = (r, s')"
    and "\<And>k repr. parse_tcp N ip payload = Inr repr \<Longrightarrow> P k \<longleftrightarrow> (\<exists>t. k = Tcp_Socket t \<and> tcp_accepts N ip repr t)"
  shows "r \<noteq> Panic \<and> one_socket N P s s'"
proof (cases "parse_tcp N ip payload")
  case (Inl e)
  with assms(2) show ?thesis by (auto simp: process_tcp_def smol_def)
next
  case (Inr repr)
  show ?thesis
  proof (cases "accepting_tcp N ip repr s")
    case (Some ht)
    then obtain h t where ht: "accepting_tcp N ip repr s = Some (h, t)" by (cases ht) auto
    from accepting_tcp_dom(1) [OF assms(1) ht] assms(3) [OF Inr]
    have "socks N s h = Some (Tcp_Socket t)" "P (Tcp_Socket t)" by auto
    from one_socket_put [where P = P, OF assms(1) this] assms(2) Inr ht show ?thesis
      by (auto simp: process_tcp_def smol_def split: prod.splits sum.splits if_splits)
  next
    case None
    have no: "\<not> P k" if "k \<in> ran (socks N s)" for k
      using accepting_tcp_dom(2) [OF assms(1) None] assms(3) [OF Inr, of k] that by (cases k) auto
    obtain t where t: "tcp_listen N (dst_addr ip, tcp_dst_port N repr) (tcp_new N) = (None, t)"
      using net_lawsD(5) [OF assms(1) Inr] net_lawsD(7) [OF assms(1)] by (metis prod.collapse)
    obtain h s1 where add: "set_add N (Tcp_Socket t) s = (h, s1)" by fastforce
    note one = one_socket_add [where P = P, OF assms(1) add no]
    show ?thesis using assms(2) Inr None t add one
      by (auto simp: process_tcp_def smol_def try_new_tcp_socket_def get_tcp_def bind_def split: if_splits prod.splits sum.splits)
  qed
qed

text \<open>C34: a packet from the device never makes the interface panic and changes at most one socket: one
  that takes the packet, or a new one when no socket takes it.\<close>

theorem packet_one_socket:
  assumes "net_laws N" "process_ipv4 N i timestamp frame s = (r, s')"
  shows "r \<noteq> Panic \<and> one_socket N (takes N frame) s s'"
proof (cases "parse_ipv4_packet N frame")
  case (Inl e)
  with assms(2) show ?thesis by (auto simp: process_ipv4_def smol_def)
next
  case (Inr p)
  then obtain ip payload where p: "parse_ipv4_packet N frame = Inr (ip, payload)" by (cases p) auto
  consider (udp) "ip_proto ip = ProtoUdp" "process_udp N ip payload s = (r, s')"
    | (tcp) "ip_proto ip = ProtoTcp" "process_tcp N timestamp ip payload s = (r, s')"
    | (none) "s' = s" "r \<noteq> Panic"
    using assms(2) p by (auto simp: process_ipv4_def smol_def split: if_splits ip_protocol.splits)
  then show ?thesis
  proof cases
    case udp
    show ?thesis by (rule process_udp_one [OF assms(1) udp(2)]) (use p udp(1) in \<open>auto simp: takes_def split: tun_socket.splits\<close>)
  next
    case tcp
    show ?thesis by (rule process_tcp_one [OF assms(1) tcp(2)]) (use p tcp(1) in \<open>auto simp: takes_def split: tun_socket.splits\<close>)
  qed simp
qed

subsection \<open>A network\<close>

text \<open>A network with packets of a protocol number, a port and data; a socket is its port and the data it
  was given, and a handle is an index of the list of sockets.\<close>

type_synonym plain_socket = "u16 \<times> u8 list"

definition plain_addr :: ipv4 where "plain_addr = Ipv4Addr 10 0 0 2"

definition plain_net :: "((plain_socket, plain_socket) tun_socket list, plain_socket, plain_socket, plain_socket) net" where
  "plain_net = \<lparr>
     set_iter = List.enumerate 0,
     set_put = (\<lambda>h k s. s[h := k]),
     set_add = (\<lambda>k s. (length s, s @ [k])),
     parse_ipv4_packet = (\<lambda>f. case f of
         p # bs \<Rightarrow> Inr (\<lparr>src_addr = plain_addr, dst_addr = plain_addr,
           ip_proto = (if p = 6 then ProtoTcp else if p = 17 then ProtoUdp else ProtoOther), payload_len = length bs\<rparr>, bs)
       | [] \<Rightarrow> Inl Malformed),
     is_unicast = (\<lambda>_. True),
     is_broadcast = (\<lambda>_. False),
     parse_udp = (\<lambda>_ f. case f of [] \<Rightarrow> Inl Malformed | p # bs \<Rightarrow> if p = 0 then Inl Malformed
         else Inr \<lparr>udp_src_port = 1, udp_dst_port = ucast p, udp_payload = bs\<rparr>),
     udp_new = (0, []),
     udp_bind = (\<lambda>(_, pt) u. if pt = 0 then (Some OtherSmol, u) else (None, (pt, []))),
     udp_accepts = (\<lambda>_ repr u. udp_dst_port repr = fst u),
     udp_process = (\<lambda>_ repr u. (None, (fst u, snd u @ udp_payload repr))),
     udp_dispatch = (\<lambda>_. Inl Exhausted),
     parse_tcp = (\<lambda>_ f. case f of [] \<Rightarrow> Inl Malformed | p # bs \<Rightarrow> if p = 0 then Inl Malformed else Inr (ucast p, bs)),
     tcp_dst_port = fst,
     tcp_is_rst = (\<lambda>_. False),
     tcp_window_len = (\<lambda>_. 0),
     tcp_set_window = (\<lambda>_ repr. repr),
     tcp_header_len = (\<lambda>_. 20),
     tcp_new = (0, []),
     tcp_listen = (\<lambda>(_, pt) t. if pt = 0 then (Some OtherSmol, t) else (None, (pt, []))),
     tcp_accepts = (\<lambda>_ repr t. fst repr = fst t),
     tcp_process = (\<lambda>_ _ repr t. (Inr None, (fst t, snd t @ snd repr))),
     tcp_rst_reply = (\<lambda>ip repr. (ip, repr)),
     tcp_dispatch = (\<lambda>_ _. Inl Exhausted),
     ip_lower = Inr,
     ip_total_len = (\<lambda>ip. 20 + payload_len ip),
     ip_buffer_len = (\<lambda>_. 20),
     ip_emit = (\<lambda>_ b. b),
     udp_emit = (\<lambda>_ _ b. b),
     tcp_emit = (\<lambda>_ _ b. b),
     set_retain = (\<lambda>_. Some),
     set_release = (\<lambda>_. Some),
     set_prune = (\<lambda>s. s),
     tcp_is_open = (\<lambda>_. True),
     tcp_may_recv = (\<lambda>_. True),
     tcp_can_recv = (\<lambda>t. snd t \<noteq> []),
     tcp_may_send = (\<lambda>_. True),
     tcp_can_send = (\<lambda>_. True),
     tcp_recv_slice = (\<lambda>n t. (Inr (take n (snd t)), (fst t, drop n (snd t)))),
     tcp_send_slice = (\<lambda>bs t. (Inr (length bs), t)),
     tcp_local_endpoint = (\<lambda>t. (Some plain_addr, fst t)),
     tcp_remote_endpoint = (\<lambda>t. (Some plain_addr, 1)),
     udp_is_open = (\<lambda>_. True),
     udp_can_recv = (\<lambda>u. snd u \<noteq> []),
     udp_can_send = (\<lambda>_. True),
     udp_recv_slice = (\<lambda>n u. (Inr (take n (snd u), Some plain_addr, fst u), (fst u, []))),
     udp_send_slice = (\<lambda>_ _ u. (None, u)),
     udp_endpoint = (\<lambda>u. (Some plain_addr, fst u))\<rparr>"

lemma socks_plain: "socks plain_net s = (\<lambda>h. if h < length s then Some (s ! h) else None)"
proof -
  have "map_of (List.enumerate n s) = (\<lambda>h. if n \<le> h \<and> h < n + length s then Some (s ! (h - n)) else None)" for n
    by (induction s arbitrary: n) (auto simp: nth_Cons' fun_eq_iff)
  from this [of 0] show ?thesis by (auto simp: plain_net_def fun_eq_iff)
qed

lemma u8_port_nonzero: "(p :: u8) \<noteq> 0 \<Longrightarrow> (ucast p :: u16) \<noteq> 0"
proof
  assume "(ucast p :: u16) = 0" "p \<noteq> 0"
  moreover have "ucast (ucast p :: u16) = p" by (rule bit_word_eqI) (simp add: bit_simps)
  ultimately show False by simp
qed

lemma plain_net_laws: "net_laws plain_net"
  unfolding net_laws_def socks_plain
  by (auto simp: plain_net_def fun_eq_iff nth_append u8_port_nonzero split: list.splits if_splits)

definition plain_inner :: interface_inner where
  "plain_inner = \<lparr>device_capabilities = \<lparr>max_transmission_unit = 1500, max_burst_size = None\<rparr>, ip_addrs = [], any_ip = True\<rparr>"

definition plain_device :: "u8 list list \<Rightarrow> (u8 list list \<times> nat) phony_socket" where
  "plain_device frames = \<lparr>ps_mtu = 1500, rx = (frames, MAX_PACKETS), tx = ([], MAX_PACKETS)\<rparr>"

declare skip_empty.simps [code] ingress_loop.simps [code] poll_loop.simps [code]


text \<open>A datagram to a port without a socket makes one.\<close>

theorem packet_one_socket_witness:
  "\<exists>s'. process_ipv4 plain_net plain_inner 0 [17, 53, 9] [Tcp_Socket (80, [])] = (Ok NoPacket, s') \<and>
    one_socket plain_net (takes plain_net [17, 53, 9]) [Tcp_Socket (80, [])] s' \<and> length s' = 2"
proof -
  let ?run = "process_ipv4 plain_net plain_inner 0 [17, 53, 9] [Tcp_Socket (80, [])]"
  obtain r s' where run: "?run = (r, s')" by fastforce
  have "fst ?run = Ok NoPacket \<and> length (snd ?run) = 2" by code_simp
  with run packet_one_socket [OF plain_net_laws run] show ?thesis by auto
qed

end
