(* ===== verification/Tun_Poll.thy ===== *)
theory Tun_Poll
  imports Tun_Iface
begin

text \<open>
  The tunnel, \<^verbatim>\<open>tun/src/lib.rs\<close>, and the sockets it hands out, \<^verbatim>\<open>tun/src/socket/\<close>.  The tunnel is a
  global variable behind a lock: \<open>with_global\<close> panics when the lock is not had in time or the tunnel is
  not set up.  A waker is an element of any type and the list \<open>woken\<close> records the wakers called.  What
  the device yields is a list of results; a device whose list is used up would block.
\<close>

datatype 'a poll = Ready 'a | Pending

datatype tun_handle = Handle_Tcp nat | Handle_Udp nat

record ('r, 'set, 'w) tun =
  t_device :: "'r phony_socket"
  t_inner :: interface_inner
  sockets :: 'set
  new_sockets :: "tun_handle list"
  socket_read_tasks :: "nat \<rightharpoonup> 'w option"
  socket_write_tasks :: "nat \<rightharpoonup> 'w option"
  tun_write_task :: "'w option"
  to_terminate :: bool
  woken :: "'w list"

definition with_global :: "bool \<Rightarrow> ('t, 'a) rust \<Rightarrow> ('t option, 'a) rust" where
  "with_global locked m = (\<lambda>t. if \<not> locked then (Panic, t) else (case t of
      None \<Rightarrow> (Panic, None)
    | Some tun \<Rightarrow> (case m tun of (r, tun') \<Rightarrow> (r, Some tun'))))"

text \<open>\<^verbatim>\<open>setup\<close> configures the device, which is left out, and replaces the global tunnel.\<close>

definition Tun_new :: "'r ring_ops \<Rightarrow> nat \<Rightarrow> ipv4 \<Rightarrow> 'set \<Rightarrow> ('r, 'set, 'w) tun" where
  "Tun_new R mtu tun_addr empty_set =
     (let iface = InterfaceBuilder_finalize ((InterfaceBuilder_new (PhonySocket_new R mtu))\<lparr>ib_ip_addrs := [tun_addr], ib_any_ip := True\<rparr>) in
      \<lparr>t_device = device iface, t_inner = inner iface, sockets = empty_set, new_sockets = [], socket_read_tasks = Map.empty,
       socket_write_tasks = Map.empty, tun_write_task = None, to_terminate = False, woken = []\<rparr>)"

definition Tun_setup :: "bool \<Rightarrow> 'r ring_ops \<Rightarrow> nat \<Rightarrow> ipv4 \<Rightarrow> 'set \<Rightarrow> (('r, 'set, 'w) tun option, unit) rust" where
  "Tun_setup locked R mtu tun_addr empty_set =
     (\<lambda>t. if locked then (Ok (), Some (Tun_new R mtu tun_addr empty_set)) else (Panic, t))"

subsection \<open>Wakers\<close>

text \<open>Taking the waker of a socket out of a table of tasks and calling it.\<close>

definition take_task :: "nat \<Rightarrow> (nat \<rightharpoonup> 'w option) \<times> 'w list \<Rightarrow> (nat \<rightharpoonup> 'w option) \<times> 'w list" where
  "take_task h = (\<lambda>(tasks, ws). case tasks h of
      Some (Some w) \<Rightarrow> (tasks(h \<mapsto> None), ws @ [w])
    | _ \<Rightarrow> (tasks, ws))"

definition wake_tun :: "('r, 'set, 'w) tun \<Rightarrow> ('r, 'set, 'w) tun" where
  "wake_tun t = (case tun_write_task t of
      Some w \<Rightarrow> t\<lparr>tun_write_task := None, woken := woken t @ [w]\<rparr>
    | None \<Rightarrow> t)"

subsection \<open>Sockets\<close>

definition to_socket_addr :: "ipv4 option \<times> u16 \<Rightarrow> socket_addr outcome" where
  "to_socket_addr ep = (case ep of (Some a, pt) \<Rightarrow> Ok (V4 a pt) | (None, _) \<Rightarrow> Panic)"

definition tcp_local_addr :: "('set, 't, 'u, 'tr) net \<Rightarrow> nat \<Rightarrow> (('r, 'set, 'w) tun, socket_addr) rust" where
  "tcp_local_addr N h = (\<lambda>t. (chain (get_tcp N h (sockets t)) (\<lambda>k. to_socket_addr (tcp_local_endpoint N k)), t))"

definition tcp_remote_addr :: "('set, 't, 'u, 'tr) net \<Rightarrow> nat \<Rightarrow> (('r, 'set, 'w) tun, socket_addr) rust" where
  "tcp_remote_addr N h = (\<lambda>t. (chain (get_tcp N h (sockets t)) (\<lambda>k. to_socket_addr (tcp_remote_endpoint N k)), t))"

definition udp_local_addr :: "('set, 't, 'u, 'tr) net \<Rightarrow> nat \<Rightarrow> (('r, 'set, 'w) tun, socket_addr) rust" where
  "udp_local_addr N h = (\<lambda>t. (chain (get_udp N h (sockets t)) (\<lambda>k. to_socket_addr (udp_endpoint N k)), t))"

definition socket_clone :: "('set, 't, 'u, 'tr) net \<Rightarrow> nat \<Rightarrow> (('r, 'set, 'w) tun, nat) rust" where
  "socket_clone N h = (\<lambda>t. case set_retain N h (sockets t) of
      Some s \<Rightarrow> (Ok h, t\<lparr>sockets := s\<rparr>) | None \<Rightarrow> (Panic, t))"

definition socket_drop :: "('set, 't, 'u, 'tr) net \<Rightarrow> nat \<Rightarrow> (('r, 'set, 'w) tun, unit) rust" where
  "socket_drop N h = (\<lambda>t. case set_release N h (sockets t) of
      Some s \<Rightarrow> (Ok (), t\<lparr>sockets := s\<rparr>) | None \<Rightarrow> (Panic, t))"

definition other_error :: "smol_error + 'a \<Rightarrow> 'a outcome" where
  "other_error r = (case r of Inl _ \<Rightarrow> Err Other | Inr x \<Rightarrow> Ok x)"

text \<open>\<open>w\<close> is the waker of the task that polls and \<open>n\<close> the size of its buffer.\<close>

definition tcp_poll_read :: "('set, 't, 'u, 'tr) net \<Rightarrow> 'w \<Rightarrow> nat \<Rightarrow> nat \<Rightarrow> (('r, 'set, 'w) tun, u8 list poll) rust" where
  "tcp_poll_read N w n h = (\<lambda>t. case get_tcp N h (sockets t) of
      Ok k \<Rightarrow>
        if tcp_may_recv N k then
          if tcp_can_recv N k then
            (case tcp_recv_slice N n k of (r, k') \<Rightarrow>
               (chain (other_error r) (\<lambda>bs. if bs \<noteq> [] then Ok (Ready bs) else Panic),
                t\<lparr>sockets := set_put N h (Tcp_Socket k') (sockets t)\<rparr>))
          else (Ok Pending, t\<lparr>socket_read_tasks := (socket_read_tasks t)(h \<mapsto> Some w)\<rparr>)
        else (Ok (Ready []), t)
    | _ \<Rightarrow> (Panic, t))"

definition tcp_poll_write :: "('set, 't, 'u, 'tr) net \<Rightarrow> 'w \<Rightarrow> u8 list \<Rightarrow> nat \<Rightarrow> (('r, 'set, 'w) tun, nat poll) rust" where
  "tcp_poll_write N w bs h = (\<lambda>t. case get_tcp N h (sockets t) of
      Ok k \<Rightarrow>
        if tcp_may_send N k then
          if tcp_can_send N k then
            (case tcp_send_slice N bs k of (r, k') \<Rightarrow>
               let t = t\<lparr>sockets := set_put N h (Tcp_Socket k') (sockets t)\<rparr> in
               (case other_error r of
                  Ok n \<Rightarrow> (Ok (Ready n), wake_tun t)
                | Err e \<Rightarrow> (Err e, t)
                | Panic \<Rightarrow> (Panic, t)
                | Diverge \<Rightarrow> (Diverge, t)))
          else (Ok Pending, t\<lparr>socket_write_tasks := (socket_write_tasks t)(h \<mapsto> Some w)\<rparr>)
        else (Ok (Ready 0), t)
    | _ \<Rightarrow> (Panic, t))"

definition udp_poll_recv_from ::
  "('set, 't, 'u, 'tr) net \<Rightarrow> 'w \<Rightarrow> nat \<Rightarrow> nat \<Rightarrow> (('r, 'set, 'w) tun, (u8 list \<times> socket_addr) poll) rust" where
  "udp_poll_recv_from N w n h = (\<lambda>t. case get_udp N h (sockets t) of
      Ok k \<Rightarrow>
        if udp_can_recv N k then
          (case udp_recv_slice N n k of (r, k') \<Rightarrow>
             (chain (other_error r) (\<lambda>(bs, ep). chain (to_socket_addr ep) (\<lambda>a. Ok (Ready (bs, a)))),
              t\<lparr>sockets := set_put N h (Udp_Socket k') (sockets t)\<rparr>))
        else (Ok Pending, t\<lparr>socket_read_tasks := (socket_read_tasks t)(h \<mapsto> Some w)\<rparr>)
    | _ \<Rightarrow> (Panic, t))"

definition udp_poll_send_to ::
  "('set, 't, 'u, 'tr) net \<Rightarrow> 'w \<Rightarrow> u8 list \<Rightarrow> socket_addr \<Rightarrow> nat \<Rightarrow> (('r, 'set, 'w) tun, nat poll) rust" where
  "udp_poll_send_to N w bs target h = (\<lambda>t. case get_udp N h (sockets t) of
      Ok k \<Rightarrow>
        if udp_can_send N k then
          (case target of
             V6 _ _ _ _ \<Rightarrow> (Panic, t)
           | V4 a pt \<Rightarrow> (case udp_send_slice N bs (a, pt) k of (r, k') \<Rightarrow>
               let t = t\<lparr>sockets := set_put N h (Udp_Socket k') (sockets t)\<rparr> in
               (case r of None \<Rightarrow> (Ok (Ready (length bs)), wake_tun t) | Some _ \<Rightarrow> (Err Other, t))))
        else (Ok Pending, t\<lparr>socket_write_tasks := (socket_write_tasks t)(h \<mapsto> Some w)\<rparr>)
    | _ \<Rightarrow> (Panic, t))"

subsection \<open>Reading from the device\<close>

fun may_recv_tun_handles :: "('set, 't, 'u, 'tr) net \<Rightarrow> (nat \<times> ('t, 'u) tun_socket) list \<Rightarrow> tun_handle list" where
  "may_recv_tun_handles N [] = []"
| "may_recv_tun_handles N ((h, Tcp_Socket k) # ks) =
     (if tcp_may_recv N k then [Handle_Tcp h] else []) @ may_recv_tun_handles N ks"
| "may_recv_tun_handles N ((h, Udp_Socket k) # ks) =
     (if udp_is_open N k then [Handle_Udp h] else []) @ may_recv_tun_handles N ks"

datatype reading = Go_On | Would_Block | Read_Failed error_kind

text \<open>Filling the slots of the device, with the results of its reads and the bytes read so far.\<close>

fun read_device ::
  "'r ring_ops \<Rightarrow> (error_kind + u8 list) list \<Rightarrow> nat \<Rightarrow> 'r phony_socket \<Rightarrow> reading \<times> (error_kind + u8 list) list \<times> 'r phony_socket" where
  "read_device R [] total_size d = (case populate_rx R d of
      None \<Rightarrow> (Go_On, [], d)
    | Some (buf, put) \<Rightarrow> (if total_size > 0 then Go_On else Would_Block, [], put []))"
| "read_device R (x # xs) total_size d = (case populate_rx R d of
      None \<Rightarrow> (Go_On, x # xs, d)
    | Some (buf, put) \<Rightarrow> (case x of
          Inl e \<Rightarrow> (Read_Failed e, xs, put buf)
        | Inr bs \<Rightarrow> let n = min (length buf) (length bs) in read_device R xs (total_size + n) (put (take n bs))))"

definition readable :: "('set, 't, 'u, 'tr) net \<Rightarrow> ('t, 'u) tun_socket \<Rightarrow> bool" where
  "readable N k = (case k of
      Tcp_Socket s \<Rightarrow> tcp_is_open N s \<and> (tcp_can_recv N s \<or> \<not> tcp_may_recv N s)
    | Udp_Socket s \<Rightarrow> udp_is_open N s \<and> udp_can_recv N s)"

definition notify_readers :: "('set, 't, 'u, 'tr) net \<Rightarrow> ('r, 'set, 'w) tun \<Rightarrow> ('r, 'set, 'w) tun" where
  "notify_readers N t =
     (case fold (\<lambda>(h, k). if readable N k then take_task h else id) (set_iter N (sockets t)) (socket_read_tasks t, woken t) of
        (tasks, ws) \<Rightarrow> t\<lparr>socket_read_tasks := tasks, woken := ws\<rparr>)"

text \<open>What follows the reading: the packets go to the sockets, whose readers are woken; \<open>before\<close> are the
  handles from before, and sockets that became usable are announced.\<close>

definition announce :: "('set, 't, 'u, 'tr) net \<Rightarrow> tun_handle list \<Rightarrow> ('r, 'set, 'w) tun \<Rightarrow> ('r, 'set, 'w) tun" where
  "announce N before t = t\<lparr>new_sockets := new_sockets t @
     filter (\<lambda>h. h \<notin> set before) (may_recv_tun_handles N (set_iter N (sockets t)))\<rparr>"

definition after_reading ::
  "'r ring_ops \<Rightarrow> ('set, 't, 'u, 'tr) net \<Rightarrow> int \<Rightarrow> tun_handle list \<Rightarrow> (('r, 'set, 'w) tun, unit) rust" where
  "after_reading R N now before = (\<lambda>t.
     case iface_poll_read R N (t_inner t) now (t_device t, sockets t) of (r, (d, s)) \<Rightarrow>
       let t = t\<lparr>t_device := d, sockets := s\<rparr> in
       if r = Panic then (Panic, t) else if r = Diverge then (Diverge, t)
       else
         let t = notify_readers N (wake_tun t) in
         (Ok (), announce N before (t\<lparr>sockets := set_prune N (sockets t)\<rparr>)))"

datatype accepted = Closed | Accepted tun_handle | Device_Error error_kind

text \<open>\<open>clock k\<close> is the time at the \<open>k\<close>-th turn.\<close>

partial_function (option) listen_loop ::
  "'r ring_ops \<Rightarrow> ('set, 't, 'u, 'tr) net \<Rightarrow> (nat \<Rightarrow> int) \<Rightarrow> nat \<Rightarrow> (error_kind + u8 list) list \<Rightarrow> ('r, 'set, 'w) tun \<Rightarrow>
    (accepted poll outcome \<times> (error_kind + u8 list) list \<times> ('r, 'set, 'w) tun) option" where
  "listen_loop R N clock k reads t =
     (if to_terminate t then Some (Ok (Ready Closed), reads, t)
      else if new_sockets t \<noteq> [] then
        Some (Ok (Ready (Accepted (last (new_sockets t)))), reads, t\<lparr>new_sockets := butlast (new_sockets t)\<rparr>)
      else
        let before = may_recv_tun_handles N (set_iter N (sockets t)) in
        (case read_device R reads 0 (t_device t) of
          (Would_Block, reads', d) \<Rightarrow> Some (Ok Pending, reads', t\<lparr>t_device := d\<rparr>)
        | (Read_Failed e, reads', d) \<Rightarrow> Some (Ok (Ready (Device_Error e)), reads', t\<lparr>t_device := d\<rparr>)
        | (Go_On, reads', d) \<Rightarrow> (case after_reading R N (clock k) before (t\<lparr>t_device := d\<rparr>) of
              (Ok _, t') \<Rightarrow> listen_loop R N clock (Suc k) reads' t'
            | (Err e, t') \<Rightarrow> Some (Err e, reads', t')
            | (Panic, t') \<Rightarrow> Some (Panic, reads', t')
            | (Diverge, t') \<Rightarrow> None)))"

definition listen_poll_next ::
  "'r ring_ops \<Rightarrow> ('set, 't, 'u, 'tr) net \<Rightarrow> (nat \<Rightarrow> int) \<Rightarrow> (error_kind + u8 list) list \<Rightarrow> ('r, 'set, 'w) tun \<Rightarrow>
    accepted poll outcome \<times> (error_kind + u8 list) list \<times> ('r, 'set, 'w) tun" where
  "listen_poll_next R N clock reads t =
     (case listen_loop R N clock 0 reads t of Some res \<Rightarrow> res | None \<Rightarrow> (Diverge, reads, t))"

subsection \<open>Writing to the device\<close>

definition can_write :: "('set, 't, 'u, 'tr) net \<Rightarrow> ('t, 'u) tun_socket \<Rightarrow> bool" where
  "can_write N k = (case k of Tcp_Socket s \<Rightarrow> tcp_can_send N s | Udp_Socket s \<Rightarrow> udp_can_send N s)"

text \<open>For a UDP socket that can send, the code takes the waker out of the table of readers.\<close>

definition notify_writers :: "('set, 't, 'u, 'tr) net \<Rightarrow> ('r, 'set, 'w) tun \<Rightarrow> ('r, 'set, 'w) tun" where
  "notify_writers N t = fold (\<lambda>(h, k) t. if can_write N k then (case k of
       Tcp_Socket _ \<Rightarrow> (case take_task h (socket_write_tasks t, woken t) of (tasks, ws) \<Rightarrow>
         t\<lparr>socket_write_tasks := tasks, woken := ws\<rparr>)
     | Udp_Socket _ \<Rightarrow> (case take_task h (socket_read_tasks t, woken t) of (tasks, ws) \<Rightarrow>
         t\<lparr>socket_read_tasks := tasks, woken := ws\<rparr>)) else t) (set_iter N (sockets t)) t"

definition poll_write_sockets_to_phoney_socket ::
  "'r ring_ops \<Rightarrow> ('set, 't, 'u, 'tr) net \<Rightarrow> int \<Rightarrow> 'w \<Rightarrow> (('r, 'set, 'w) tun, bool) rust" where
  "poll_write_sockets_to_phoney_socket R N now w = (\<lambda>t.
     case iface_poll_write R N (t_inner t) now (t_device t, sockets t) of (r, (d, s)) \<Rightarrow>
       let t = t\<lparr>t_device := d, sockets := s\<rparr> in
       (case r of
          Panic \<Rightarrow> (Panic, t)
        | Diverge \<Rightarrow> (Diverge, t)
        | _ \<Rightarrow>
          let processed_any = (case r of Ok any \<Rightarrow> any | _ \<Rightarrow> True); t = notify_writers N t in
          (Ok processed_any, if \<not> processed_any then t\<lparr>tun_write_task := Some w\<rparr> else t)))"

text \<open>\<open>writes\<close> are the results of the writes to the device, \<open>written\<close> the packets it took.\<close>

record ('r, 'set, 'w) tun_writer =
  tw_tun :: "('r, 'set, 'w) tun"
  writes :: "(error_kind + nat) list"
  written :: "u8 list list"

partial_function (option) drain_tx ::
  "'r ring_ops \<Rightarrow> ('r, 'set, 'w) tun_writer \<Rightarrow> (unit poll outcome \<times> ('r, 'set, 'w) tun_writer) option" where
  "drain_tx R x = (case vacate_tx R (t_device (tw_tun x)) of (r, d) \<Rightarrow>
     let x = x\<lparr>tw_tun := (tw_tun x)\<lparr>t_device := d\<rparr>\<rparr> in
     (case r of
       Ok None \<Rightarrow> Some (Ok (Ready ()), x)
     | Ok (Some buf) \<Rightarrow>
         if buf = [] then drain_tx R x
         else (case writes x of
             [] \<Rightarrow> Some (Ok Pending, x)
           | y # ys \<Rightarrow> if y = Inr (length buf) then drain_tx R (x\<lparr>writes := ys, written := written x @ [buf]\<rparr>)
               else Some (Panic, x\<lparr>writes := ys\<rparr>))
     | Err e \<Rightarrow> Some (Err e, x)
     | Panic \<Rightarrow> Some (Panic, x)
     | Diverge \<Rightarrow> None))"

partial_function (option) write_loop ::
  "'r ring_ops \<Rightarrow> ('set, 't, 'u, 'tr) net \<Rightarrow> (nat \<Rightarrow> int) \<Rightarrow> nat \<Rightarrow> 'w \<Rightarrow> ('r, 'set, 'w) tun_writer \<Rightarrow>
    (unit poll outcome \<times> ('r, 'set, 'w) tun_writer) option" where
  "write_loop R N clock k w x =
     (if to_terminate (tw_tun x) then Some (Ok (Ready ()), x)
      else case drain_tx R x of
        None \<Rightarrow> None
      | Some (Ok p, x') \<Rightarrow>
          if p = Pending then Some (Ok Pending, x')
          else (case poll_write_sockets_to_phoney_socket R N (clock k) w (tw_tun x') of (r, t) \<Rightarrow>
            let x' = x'\<lparr>tw_tun := t\<rparr> in
            (case r of
              Ok any \<Rightarrow> if any then write_loop R N clock (Suc k) w x' else Some (Ok Pending, x')
            | Err e \<Rightarrow> Some (Err e, x')
            | Panic \<Rightarrow> Some (Panic, x')
            | Diverge \<Rightarrow> None))
      | Some (Err e, x') \<Rightarrow> Some (Err e, x')
      | Some (Panic, x') \<Rightarrow> Some (Panic, x')
      | Some (Diverge, x') \<Rightarrow> None)"

subsection \<open>Who is woken\<close>

text \<open>The entry of a socket after its task was taken, and the wakers called.\<close>

lemma take_task_eq:
  "take_task h (tasks, ws) =
     (if tasks h = None then tasks else tasks(h \<mapsto> None), ws @ (case tasks h of Some (Some w) \<Rightarrow> [w] | _ \<Rightarrow> []))"
  by (auto simp: take_task_def fun_eq_iff split: option.splits)

definition taken_from :: "(nat \<rightharpoonup> 'k) \<Rightarrow> ('k \<Rightarrow> bool) \<Rightarrow> (nat \<rightharpoonup> 'w option) \<Rightarrow> nat \<rightharpoonup> 'w option" where
  "taken_from m P tasks h = (if tasks h \<noteq> None \<and> (\<exists>k. m h = Some k \<and> P k) then Some None else tasks h)"

lemma take_task_fold:
  assumes "distinct (map fst ks)" "fold (\<lambda>(h, k). if P k then take_task h else id) ks (tasks, ws) = (tasks', ws')"
  shows "tasks' = taken_from (map_of ks) P tasks \<and> set ws \<subseteq> set ws' \<and>
    (\<forall>h w k. tasks h = Some (Some w) \<and> map_of ks h = Some k \<and> P k \<longrightarrow> w \<in> set ws')"
  using assms
proof (induction ks arbitrary: tasks ws)
  case Nil
  then show ?case by (auto simp: taken_from_def)
next
  case (Cons hk ks)
  obtain h0 k0 where hk: "hk = (h0, k0)" by fastforce
  obtain tasks1 ws1 where step: "(if P k0 then take_task h0 else id) (tasks, ws) = (tasks1, ws1)" by fastforce
  have fresh: "map_of ks h0 = None" using Cons.prems(1) hk by (simp add: map_of_eq_None_iff)
  have "distinct (map fst ks)" "fold (\<lambda>(h, k). if P k then take_task h else id) ks (tasks1, ws1) = (tasks', ws')"
    using Cons.prems step hk by simp_all
  from Cons.IH [OF this] have rest: "tasks' = taken_from (map_of ks) P tasks1" "set ws1 \<subseteq> set ws'"
    "\<And>h w k. tasks1 h = Some (Some w) \<Longrightarrow> map_of ks h = Some k \<Longrightarrow> P k \<Longrightarrow> w \<in> set ws'"
    by blast+
  have "tasks' = taken_from (map_of (hk # ks)) P tasks"
  proof
    fix h
    have "tasks1 = (if P k0 \<and> tasks h0 \<noteq> None then tasks(h0 \<mapsto> None) else tasks)"
      using step by (auto simp: take_task_eq split: if_splits)
    with fresh hk show "tasks' h = taken_from (map_of (hk # ks)) P tasks h"
      by (cases "h = h0") (auto simp: rest(1) taken_from_def)
  qed
  moreover have "set ws \<subseteq> set ws'" using rest(2) step by (auto simp: take_task_eq split: if_splits)
  moreover have "w \<in> set ws'" if "tasks h = Some (Some w)" "map_of (hk # ks) h = Some k" "P k" for h w k
    using that step rest(2) rest(3) [of h w k] fresh hk by (cases "h = h0") (auto simp: take_task_eq split: if_splits)
  ultimately show ?case by blast
qed

lemma wake_tun_keeps:
  "socket_read_tasks (wake_tun t) = socket_read_tasks t" "sockets (wake_tun t) = sockets t"
  "socket_write_tasks (wake_tun t) = socket_write_tasks t"
  by (simp_all add: wake_tun_def split: option.split)

text \<open>C37: a turn of the listener loses no wake-up of a reader: a task that waits to read from a socket
  is woken, and its entry cleared, exactly when the packets just handled left the socket open with
  data to read (or, for TCP, with nothing more to come); every other task keeps waiting.\<close>

theorem readers_woken:
  assumes "net_laws N" "after_reading R N now before t = (Ok (), t')"
    and "iface_poll_read R N (t_inner t) now (t_device t, sockets t) = (r, (d, s))"
    and "socks N s h = Some k" "socket_read_tasks t h = Some (Some w)"
  shows "if readable N k then socket_read_tasks t' h = Some None \<and> w \<in> set (woken t')
    else socket_read_tasks t' h = Some (Some w)"
proof -
  let ?t = "wake_tun (t\<lparr>t_device := d, sockets := s\<rparr>)"
  obtain tasks ws where fold: "fold (\<lambda>(h, k). if readable N k then take_task h else id) (set_iter N s)
      (socket_read_tasks ?t, woken ?t) = (tasks, ws)" by fastforce
  have t': "socket_read_tasks t' = tasks" "woken t' = ws"
    using assms(2,3) fold by (auto simp: after_reading_def notify_readers_def announce_def wake_tun_keeps Let_def split: if_splits)
  from take_task_fold [OF net_lawsD(1) [OF assms(1)] fold] assms(4,5) show ?thesis
    by (auto simp: t' wake_tun_keeps taken_from_def)
qed

text \<open>The writers: the tasks of TCP sockets are taken, those of UDP sockets are not.\<close>

definition sends :: "('set, 't, 'u, 'tr) net \<Rightarrow> ('t, 'u) tun_socket \<Rightarrow> bool" where
  "sends N k \<longleftrightarrow> (case k of Tcp_Socket s \<Rightarrow> tcp_can_send N s | Udp_Socket _ \<Rightarrow> False)"

definition notify_writer :: "('set, 't, 'u, 'tr) net \<Rightarrow> nat \<times> ('t, 'u) tun_socket \<Rightarrow> ('r, 'set, 'w) tun \<Rightarrow> ('r, 'set, 'w) tun" where
  "notify_writer N = (\<lambda>(h, k) t. if can_write N k then (case k of
       Tcp_Socket _ \<Rightarrow> (case take_task h (socket_write_tasks t, woken t) of (tasks, ws) \<Rightarrow>
         t\<lparr>socket_write_tasks := tasks, woken := ws\<rparr>)
     | Udp_Socket _ \<Rightarrow> (case take_task h (socket_read_tasks t, woken t) of (tasks, ws) \<Rightarrow>
         t\<lparr>socket_read_tasks := tasks, woken := ws\<rparr>)) else t)"

lemma notify_writers_fold: "notify_writers N t = fold (notify_writer N) (set_iter N (sockets t)) t"
  by (simp add: notify_writers_def notify_writer_def)

lemma notify_writer_tasks:
  "socket_write_tasks (notify_writer N (h, k) t) h' =
     (if h' = h \<and> sends N k \<and> socket_write_tasks t h \<noteq> None then Some None else socket_write_tasks t h')"
  "set (woken t) \<subseteq> set (woken (notify_writer N (h, k) t))"
  "sends N k \<Longrightarrow> socket_write_tasks t h = Some (Some w) \<Longrightarrow> w \<in> set (woken (notify_writer N (h, k) t))"
  by (auto simp: notify_writer_def sends_def can_write_def take_task_eq split: tun_socket.splits)

lemma notify_writers_tasks:
  assumes "distinct (map fst ks)" "socket_write_tasks t h = Some (Some w)" "map_of ks h = Some k"
  shows "if sends N k then socket_write_tasks (fold (notify_writer N) ks t) h = Some None \<and> w \<in> set (woken (fold (notify_writer N) ks t))
    else socket_write_tasks (fold (notify_writer N) ks t) h = Some (Some w)"
proof -
  have others: "socket_write_tasks (fold (notify_writer N) ks t) h = socket_write_tasks t h \<and>
      set (woken t) \<subseteq> set (woken (fold (notify_writer N) ks t))" if "map_of ks h = None" for ks t
    using that
  proof (induction ks arbitrary: t)
    case (Cons x ks)
    obtain h0 k0 where x: "x = (h0, k0)" by fastforce
    with Cons.prems have h: "h \<noteq> h0" "map_of ks h = None" by (auto split: if_splits)
    from Cons.IH [OF h(2), of "notify_writer N x t"] notify_writer_tasks(2) [of t N h0 k0] h(1) x show ?case
      by (auto simp: notify_writer_tasks(1))
  qed simp
  show ?thesis using assms
  proof (induction ks arbitrary: t)
    case (Cons x ks)
    obtain h0 k0 where x: "x = (h0, k0)" by fastforce
    show ?case
    proof (cases "h0 = h")
      case True
      then have "map_of ks h = None" "k0 = k" using Cons.prems x by (auto simp: map_of_eq_None_iff)
      with others [OF this(1), of "notify_writer N x t"] True x Cons.prems(2) notify_writer_tasks(3) [of N k t h w] show ?thesis
        by (auto simp: notify_writer_tasks(1))
    next
      case False
      with x Cons.prems Cons.IH [of "notify_writer N (h0, k0) t"] show ?thesis by (simp add: notify_writer_tasks(1))
    qed
  qed simp
qed

text \<open>C38: after the sockets were polled for output, a task that waits to write to a TCP socket that can
  send has been woken and its entry cleared; a task that waits to write to a UDP socket is left
  waiting, whether the socket can send or not.\<close>

theorem writers_woken:
  assumes "net_laws N" "poll_write_sockets_to_phoney_socket R N now v t = (Ok any, t')"
    and "iface_poll_write R N (t_inner t) now (t_device t, sockets t) = (r, (d, s))"
    and "socks N s h = Some k" "socket_write_tasks t h = Some (Some w)"
  shows "case k of
      Tcp_Socket c \<Rightarrow> if tcp_can_send N c then socket_write_tasks t' h = Some None \<and> w \<in> set (woken t')
        else socket_write_tasks t' h = Some (Some w)
    | Udp_Socket _ \<Rightarrow> socket_write_tasks t' h = Some (Some w)"
proof -
  let ?t = "notify_writers N (t\<lparr>t_device := d, sockets := s\<rparr>)"
  have "socket_write_tasks t' = socket_write_tasks ?t" "woken t' = woken ?t"
    using assms(2,3) by (auto simp: poll_write_sockets_to_phoney_socket_def Let_def split: outcome.splits)
  with notify_writers_tasks [OF net_lawsD(1) [OF assms(1)], of "t\<lparr>t_device := d, sockets := s\<rparr>" h w s k N] assms(4,5)
  show ?thesis by (auto simp: notify_writers_fold sends_def split: tun_socket.splits if_splits)
qed

subsection \<open>The listener always returns\<close>

definition room :: "('r \<Rightarrow> u8 list list) \<Rightarrow> ('r \<Rightarrow> nat) \<Rightarrow> 'r phony_socket \<Rightarrow> nat" where
  "room contents capacity d = capacity (rx d) - length (contents (rx d))"

definition fits :: "('r \<Rightarrow> u8 list list) \<Rightarrow> ('r \<Rightarrow> nat) \<Rightarrow> 'r phony_socket \<Rightarrow> bool" where
  "fits contents capacity d \<longleftrightarrow> 0 < capacity (rx d) \<and> length (contents (rx d)) \<le> capacity (rx d)"

lemma populate_room:
  assumes "ring_laws R contents capacity" "fits contents capacity d"
  shows "populate_rx R d = None \<longleftrightarrow> room contents capacity d = 0"
    and "populate_rx R d = Some (buf, put) \<Longrightarrow> fits contents capacity (put v)"
  using assms(2) ring_back [OF assms(1), of "rx d"]
  by (auto simp: populate_rx_def enqueue_def room_def fits_def split: option.splits)

lemma read_device_effect:
  assumes "ring_laws R contents capacity" "fits contents capacity d" "read_device R reads n d = (g, reads', d')"
  shows "fits contents capacity d' \<and> length reads' \<le> length reads \<and> (g = Would_Block \<longrightarrow> reads' = []) \<and>
    (room contents capacity d = 0 \<longrightarrow> g = Go_On \<and> d' = d) \<and>
    (room contents capacity d > 0 \<longrightarrow> reads \<noteq> [] \<and> length reads' < length reads \<or> n > 0 \<or> g = Would_Block)"
  using assms(2,3)
proof (induction reads arbitrary: n d)
  case Nil
  with populate_room [OF assms(1) Nil(1)] show ?case
    by (auto split: option.splits if_splits)
next
  case (Cons x xs)
  show ?case
  proof (cases "populate_rx R d")
    case None
    with Cons.prems populate_room(1) [OF assms(1) Cons.prems(1)] show ?thesis by auto
  next
    case (Some bp)
    then obtain buf put where bp: "populate_rx R d = Some (buf, put)" by (cases bp) auto
    note fits = populate_room(2) [OF assms(1) Cons.prems(1) bp]
    have "room contents capacity d > 0" using populate_room(1) [OF assms(1) Cons.prems(1)] bp by auto
    with Cons.prems(2) bp fits Cons.IH [OF fits] show ?thesis
      by (auto simp: Let_def split: sum.splits) (meson le_imp_less_Suc less_or_eq_imp_le)+
  qed
qed

lemma after_reading_effect:
  assumes "ring_laws R contents capacity" "after_reading R N now before t = (r, t')"
  shows "r \<noteq> Diverge \<and> (\<forall>e. r \<noteq> Err e) \<and> to_terminate t' = to_terminate t \<and> shrunk contents capacity (t_device t) (t_device t')"
proof -
  obtain x d s where poll: "iface_poll_read R N (t_inner t) now (t_device t, sockets t) = (x, (d, s))" by (metis prod.exhaust)
  have "x \<noteq> Diverge" "shrunk contents capacity (t_device t) d"
    using poll_read_fed [OF assms(1) poll] by (auto split: outcome.splits)
  with assms(2) poll show ?thesis
    by (auto simp: after_reading_def announce_def notify_readers_def wake_tun_def Let_def
        split: if_splits prod.splits option.splits)
qed

lemma listen_loop_returns:
  assumes "ring_laws R contents capacity" "fits contents capacity (t_device t)"
  shows "\<exists>r reads' t'. listen_loop R N clock k reads t = Some (r, reads', t') \<and> ((\<exists>p. r = Ok p) \<or> r = Panic) \<and>
    (r = Ok Pending \<longrightarrow> reads' = [] \<and> new_sockets t' = [] \<and> \<not> to_terminate t')"
  using assms(2)
proof (induction "2 * length reads + (if room contents capacity (t_device t) = 0 then 1 else 0)" arbitrary: k reads t rule: less_induct)
  case less
  note step = listen_loop.simps [of R N clock k reads t]
  show ?case
  proof (cases "to_terminate t \<or> new_sockets t \<noteq> []")
    case True
    then show ?thesis by (auto simp: step)
  next
    case False
    obtain g reads' d where read: "read_device R reads 0 (t_device t) = (g, reads', d)" by (metis prod.exhaust)
    note effect = read_device_effect [OF assms(1) less.prems read]
    show ?thesis
    proof (cases "g = Go_On")
      case go: True
      obtain r t' where after: "after_reading R N (clock k) (may_recv_tun_handles N (set_iter N (sockets t))) (t\<lparr>t_device := d\<rparr>) = (r, t')"
        by fastforce
      from after_reading_effect [OF assms(1) after] have after': "r \<noteq> Diverge" "\<forall>e. r \<noteq> Err e" "to_terminate t' = to_terminate t"
        "shrunk contents capacity d (t_device t')" by auto
      show ?thesis
      proof (cases "r = Panic")
        case True
        with False read go after show ?thesis by (auto simp: step)
      next
        case False': False
        then obtain u where r: "r = Ok u" using after'(1,2) by (cases r) auto
        have fits: "fits contents capacity (t_device t')" and room: "room contents capacity (t_device t') > 0"
          using effect after'(4) by (auto simp: fits_def shrunk_def room_def)
        have "2 * length reads' + (if room contents capacity (t_device t') = 0 then 1 else 0) <
            2 * length reads + (if room contents capacity (t_device t) = 0 then 1 else (0 :: nat))"
          using effect go room by auto
        from less.hyps [OF this fits, of "Suc k"] obtain r2 reads2 t2 where
          "listen_loop R N clock (Suc k) reads' t' = Some (r2, reads2, t2)" "(\<exists>p. r2 = Ok p) \<or> r2 = Panic"
          "r2 = Ok Pending \<longrightarrow> reads2 = [] \<and> new_sockets t2 = [] \<and> \<not> to_terminate t2" by blast
        with False read go after r show ?thesis by (auto simp: step)
      qed
    next
      case no_go: False
      with False read effect show ?thesis by (cases g) (auto simp: step)
    qed
  qed
qed

text \<open>C35: polling the listener always comes to an end, whatever the device yields and however full its
  queue is: it says that it is closed, hands out a socket, reports an error of the device, or waits;
  and it waits only when the device has nothing more to read, no new socket is left to hand out and
  the program is not to end.\<close>

theorem listen_returns:
  assumes "ring_laws R contents capacity" "fits contents capacity (t_device t)"
    and "listen_poll_next R N clock reads t = (r, reads', t')"
  shows "((\<exists>p. r = Ok p) \<or> r = Panic) \<and>
    (r = Ok Pending \<longrightarrow> reads' = [] \<and> new_sockets t' = [] \<and> \<not> to_terminate t')"
  using listen_loop_returns [OF assms(1,2), of N clock 0 reads] assms(3) by (auto simp: listen_poll_next_def)

text \<open>A packet that the device does not take at once is lost: it has left the queue.\<close>

lemma blocked_packet_lost:
  assumes "ring_laws R contents capacity" "packets contents (tx (t_device (tw_tun x))) = buf # bufs" "writes x = []"
  shows "\<exists>x'. drain_tx R x = Some (Ok Pending, x') \<and> packets contents (tx (t_device (tw_tun x'))) = bufs \<and> written x' = written x"
proof -
  obtain ring where "deque R (tx (t_device (tw_tun x))) = (Ok (Some buf), ring)" "packets contents ring = bufs"
    using deque_packets [OF assms(1), of "tx (t_device (tw_tun x))"] assms(2) by auto
  moreover have "buf \<noteq> []" using assms(2) by (auto simp: packets_def filter_eq_Cons_iff)
  ultimately show ?thesis using assms(3) by (simp add: drain_tx.simps [of R x] vacate_tx_def Let_def)
qed

subsection \<open>Runs\<close>

declare listen_loop.simps [code]

definition plain_tun ::
  "u8 list list \<Rightarrow> (plain_socket, plain_socket) tun_socket list \<Rightarrow> (nat \<rightharpoonup> nat option) \<Rightarrow> (nat \<rightharpoonup> nat option) \<Rightarrow>
    (u8 list list \<times> nat, (plain_socket, plain_socket) tun_socket list, nat) tun" where
  "plain_tun frames ks rs ws = \<lparr>t_device = plain_device frames, t_inner = plain_inner, sockets = ks, new_sockets = [],
     socket_read_tasks = rs, socket_write_tasks = ws, tun_write_task = None, to_terminate = False, woken = []\<rparr>"

text \<open>A packet that cannot be parsed keeps the one behind it in the queue while the listener waits.\<close>

theorem listen_returns_witness:
  "\<exists>t'. listen_poll_next list_ring plain_net (\<lambda>_. 0) [Inr [17], Inr [6, 80, 2]] (plain_tun [] [] Map.empty Map.empty) = (Ok Pending, [], t') \<and>
    new_sockets t' = [] \<and> queued fst (t_device t') = [[6, 80, 2]]"
proof -
  let ?run = "listen_poll_next list_ring plain_net (\<lambda>_. 0) [Inr [17], Inr [6, 80, 2]] (plain_tun [] [] Map.empty Map.empty)"
  obtain r reads' t' where run: "?run = (r, reads', t')" by (metis prod.exhaust)
  have fits: "fits fst snd (t_device (plain_tun [] [] Map.empty Map.empty))"
    by (simp add: fits_def plain_tun_def plain_device_def MAX_PACKETS_def)
  have "fst ?run = Ok Pending \<and> queued fst (t_device (snd (snd ?run))) = [[6, 80, 2]]" by code_simp
  with run listen_returns [OF list_ring_laws fits run] show ?thesis by auto
qed

theorem readers_woken_witness:
  "\<exists>t'. after_reading list_ring plain_net 0 [] (plain_tun [[6, 80, 1]] [Tcp_Socket (80, [])] [0 \<mapsto> Some 5] Map.empty) = (Ok (), t') \<and>
    socket_read_tasks t' 0 = Some None \<and> 5 \<in> set (woken t')"
proof -
  let ?t = "plain_tun [[6, 80, 1]] [Tcp_Socket (80, [])] [0 \<mapsto> Some 5] Map.empty"
  let ?poll = "iface_poll_read list_ring plain_net (t_inner ?t) 0 (t_device ?t, sockets ?t)"
  obtain u t' where run: "after_reading list_ring plain_net 0 [] ?t = (u, t')" by fastforce
  obtain r d s where poll: "?poll = (r, (d, s))" by (metis prod.exhaust)
  have "fst (after_reading list_ring plain_net 0 [] ?t) = Ok ()" by code_simp
  with run have ok: "after_reading list_ring plain_net 0 [] ?t = (Ok (), t')" by simp
  have "snd (snd ?poll) = [Tcp_Socket (80, [1])]" by code_simp
  with poll have sock: "socks plain_net s 0 = Some (Tcp_Socket (80, [1]))" by (simp add: socks_plain)
  have task: "socket_read_tasks ?t 0 = Some (Some 5)" by (simp add: plain_tun_def)
  have "readable plain_net (Tcp_Socket (80, [1]))" by code_simp
  with readers_woken [OF plain_net_laws ok poll sock task] ok show ?thesis by auto
qed

theorem writers_woken_witness:
  "\<exists>t'. poll_write_sockets_to_phoney_socket list_ring plain_net 0 9
      (plain_tun [] [Tcp_Socket (80, []), Udp_Socket (53, [])] Map.empty [0 \<mapsto> Some 5, 1 \<mapsto> Some 6]) = (Ok False, t') \<and>
    socket_write_tasks t' 0 = Some None \<and> 5 \<in> set (woken t') \<and> socket_write_tasks t' 1 = Some (Some 6)"
proof -
  let ?t = "plain_tun [] [Tcp_Socket (80, []), Udp_Socket (53, [])] Map.empty [0 \<mapsto> Some 5, 1 \<mapsto> Some 6]"
  let ?poll = "iface_poll_write list_ring plain_net (t_inner ?t) 0 (t_device ?t, sockets ?t)"
  obtain u t' where run: "poll_write_sockets_to_phoney_socket list_ring plain_net 0 9 ?t = (u, t')" by fastforce
  obtain r d s where poll: "?poll = (r, (d, s))" by (metis prod.exhaust)
  have "fst (poll_write_sockets_to_phoney_socket list_ring plain_net 0 (9 :: nat) ?t) = Ok False" by code_simp
  with run have ok: "poll_write_sockets_to_phoney_socket list_ring plain_net 0 9 ?t = (Ok False, t')" by simp
  have "snd (snd ?poll) = [Tcp_Socket (80, []), Udp_Socket (53, [])]" by code_simp
  with poll have socks: "socks plain_net s 0 = Some (Tcp_Socket (80, []))" "socks plain_net s 1 = Some (Udp_Socket (53, []))"
    by (simp_all add: socks_plain)
  have tasks: "socket_write_tasks ?t 0 = Some (Some 5)" "socket_write_tasks ?t 1 = Some (Some 6)" by (simp_all add: plain_tun_def)
  have "tcp_can_send plain_net (80, [])" by code_simp
  with writers_woken [OF plain_net_laws ok poll socks(1) tasks(1)] writers_woken [OF plain_net_laws ok poll socks(2) tasks(2)] ok
  show ?thesis by auto
qed

end
