(* ===== verification/Tun_Device.thy ===== *)
theory Tun_Device
  imports Tun_Poll
begin

text \<open>
  The device of the tunnel, \<^verbatim>\<open>tun/src/phy\<close>, on Linux and macOS.  The results of the system calls are
  arguments; the state is the set of open file descriptors, where the code opens or closes one.
\<close>

type_synonym fd = int

text \<open>\<^verbatim>\<open>set_non_blocking\<close> gives the socket back or drops it, which closes it.\<close>

definition set_non_blocking :: "fd \<Rightarrow> error_kind option \<Rightarrow> (fd set, fd) rust" where
  "set_non_blocking fd failed = (\<lambda>fds. case failed of
      Some e \<Rightarrow> (Err e, fds - {fd})
    | None \<Rightarrow> (Ok fd, fds))"

subsection \<open>macOS\<close>

text \<open>The name \<^verbatim>\<open>utun\<close> stands for index 0, and \<^verbatim>\<open>utunN\<close> for \<open>N + 1\<close>, which wraps around.\<close>

definition parse_utun_name :: "string \<Rightarrow> u32 outcome" where
  "parse_utun_name name = (if \<not> starts_with name ''utun'' then Err NotFound
     else if drop 4 name = [] then Ok 0
     else (case parse_uint (2 ^ 32) (drop 4 name) of
         None \<Rightarrow> Err NotFound
       | Some x \<Rightarrow> Ok (of_nat x + 1)))"

definition TunSocket_new_darwin ::
  "string \<Rightarrow> error_kind + fd \<Rightarrow> error_kind option \<Rightarrow> error_kind option \<Rightarrow> error_kind option \<Rightarrow> (fd set, fd) rust" where
  "TunSocket_new_darwin name opened ioctl_err connect_err nonblock_err = (\<lambda>fds. case parse_utun_name name of
      Ok idx \<Rightarrow> (case opened of
          Inl e \<Rightarrow> (Err e, fds)
        | Inr fd \<Rightarrow> (case ioctl_err of
              Some e \<Rightarrow> (Err e, insert fd fds - {fd})
            | None \<Rightarrow> (case connect_err of
                  Some e \<Rightarrow> (Err e, insert fd fds - {fd})
                | None \<Rightarrow> set_non_blocking fd nonblock_err (insert fd fds))))
    | Err e \<Rightarrow> (Err e, fds)
    | Panic \<Rightarrow> (Panic, fds)
    | Diverge \<Rightarrow> (Diverge, fds))"

text \<open>A packet is sent behind four bytes with the address family; the size the call reports less four,
  which wraps around, is the result.\<close>

definition af_write :: "(u8 list \<Rightarrow> error_kind + nat) \<Rightarrow> u8 list \<Rightarrow> u8 \<Rightarrow> u64 outcome" where
  "af_write sendmsg src af = (case sendmsg ([0, 0, 0, af] @ src) of
      Inl e \<Rightarrow> Err e
    | Inr n \<Rightarrow> Ok (of_nat n - 4))"

definition AF_INET :: u8 where "AF_INET = 2"

definition darwin_write :: "(u8 list \<Rightarrow> error_kind + nat) \<Rightarrow> u8 list \<Rightarrow> u64 outcome" where
  "darwin_write sendmsg src = af_write sendmsg src AF_INET"

text \<open>A read into a buffer of \<open>n\<close> bytes; the message that came is cut off behind it.\<close>

definition darwin_read :: "nat \<Rightarrow> error_kind + u8 list \<Rightarrow> u8 list outcome" where
  "darwin_read n recvmsg = (case recvmsg of
      Inl e \<Rightarrow> Err e
    | Inr msg \<Rightarrow> let msg = take (4 + n) msg in if length msg \<le> 4 then Ok [] else Ok (drop 4 msg))"

subsection \<open>Linux\<close>

definition IFNAMSIZ :: nat where "IFNAMSIZ = 16"

definition ifr_name :: "string \<Rightarrow> u8 list" where
  "ifr_name name = as_bytes name @ replicate (IFNAMSIZ - length name) 0"

definition TunSocket_new_linux ::
  "string \<Rightarrow> error_kind + fd \<Rightarrow> (u8 list \<Rightarrow> error_kind option) \<Rightarrow> error_kind option \<Rightarrow> (fd set, fd \<times> string) rust" where
  "TunSocket_new_linux name opened ioctl nonblock_err = (\<lambda>fds. case opened of
      Inl e \<Rightarrow> (Err e, fds)
    | Inr fd \<Rightarrow>
        let fds = insert fd fds in
        if length name \<ge> IFNAMSIZ then (Err Other, fds)
        else (case ioctl (ifr_name name) of
            Some e \<Rightarrow> (Err e, fds)
          | None \<Rightarrow> bind (set_non_blocking fd nonblock_err) (\<lambda>fd. return (fd, name)) fds))"

text \<open>The size of the packets; both systems ask a socket opened for it.\<close>

definition device_mtu :: "string outcome \<Rightarrow> error_kind + fd \<Rightarrow> (u8 list \<Rightarrow> error_kind + nat) \<Rightarrow> (fd set, nat) rust" where
  "device_mtu name opened ioctl = (\<lambda>fds. case opened of
      Inl e \<Rightarrow> (Err e, fds)
    | Inr fd \<Rightarrow> bind (lifted name) (\<lambda>name fds.
        if length name > IFNAMSIZ then (Panic, fds)
        else (case ioctl (ifr_name name) of
            Inl e \<Rightarrow> (Err e, fds)
          | Inr m \<Rightarrow> (Ok m, fds - {fd}))) (insert fd fds))"

definition linux_read :: "nat \<Rightarrow> error_kind + u8 list \<Rightarrow> u8 list outcome" where
  "linux_read n got = (case got of Inl e \<Rightarrow> Err e | Inr bs \<Rightarrow> Ok (take n bs))"

text \<open>A failed write is reported as a write of no bytes.\<close>

definition linux_write :: "error_kind + nat \<Rightarrow> nat outcome" where
  "linux_write put = (case put of Inl _ \<Rightarrow> Ok 0 | Inr n \<Rightarrow> Ok n)"

subsection \<open>Properties\<close>

text \<open>What one side writes on macOS, another reads, if the system passes on the message.\<close>

lemma darwin_round_trip:
  assumes "sendmsg ([0, 0, 0, AF_INET] @ src) = Inr (length src + 4)" "length src \<le> n"
  shows "darwin_write sendmsg src = Ok (of_nat (length src)) \<and> darwin_read n (Inr ([0, 0, 0, AF_INET] @ src)) = Ok src"
  using assms by (cases src) (simp_all add: darwin_write_def af_write_def darwin_read_def Let_def)

text \<open>On macOS a device that cannot be opened leaves no file descriptor open, whichever call fails;
  on Linux the descriptor stays open when the name is too long or is refused.\<close>

lemma new_device_descriptors:
  assumes "fd \<notin> fds"
  shows "(\<forall>e fds'. TunSocket_new_darwin name (Inr fd) ioctl_err connect_err nonblock_err fds = (Err e, fds') \<longrightarrow> fds' = fds) \<and>
    (\<forall>e fds'. TunSocket_new_linux name (Inr fd) ioctl nonblock_err fds = (Err e, fds') \<longrightarrow>
      (fds' = insert fd fds \<longleftrightarrow> IFNAMSIZ \<le> length name \<or> ioctl (ifr_name name) \<noteq> None))"
  using assms by (auto simp: TunSocket_new_darwin_def TunSocket_new_linux_def set_non_blocking_def bind_def Let_def
      split: outcome.splits option.splits if_splits)

lemma new_device_descriptors_instance:
  "\<exists>e. TunSocket_new_linux ''a-name-that-is-too-long'' (Inr 3) (\<lambda>_. None) None {1} = (Err e, {3, 1})"
proof -
  have "\<exists>e fds'. TunSocket_new_linux ''a-name-that-is-too-long'' (Inr 3) (\<lambda>_. None) None {1} = (Err e, fds')"
    by (simp add: TunSocket_new_linux_def IFNAMSIZ_def)
  then obtain e fds' where run: "TunSocket_new_linux ''a-name-that-is-too-long'' (Inr 3) (\<lambda>_. None) None {1} = (Err e, fds')" by blast
  have "(3 :: int) \<notin> {1}" by simp
  from new_device_descriptors [OF this, of "''a-name-that-is-too-long''"] run have "fds' = {3, 1}" by (auto simp: IFNAMSIZ_def)
  with run show ?thesis by blast
qed

text \<open>A write error of the device on Linux makes the sending task panic.\<close>

lemma linux_write_error_panics:
  assumes "linux_write (Inl e) = Ok n" "vacate_tx R (t_device (tw_tun x)) = (Ok (Some buf), d)" "buf \<noteq> []" "writes x = Inr n # ys"
  shows "fst (the (drain_tx R x)) = Panic"
  using assms by (simp add: linux_write_def drain_tx.simps [of R x] Let_def)

end
