(* ===== verification/Sys_Config.thy ===== *)
theory Sys_Config
  imports Hosts_File
begin

text \<open>
  The settings of the operating system, \<^verbatim>\<open>sysconfig/src\<close>: forwarding, the resolver's file, the
  tunnel's address, and which sockets belong to which process.  Running a command is an argument;
  so are the tables of \<^verbatim>\<open>/proc\<close> on Linux (the crate \<^verbatim>\<open>procfs\<close>) and the calls of \<^verbatim>\<open>libproc\<close> on macOS.
\<close>

subsection \<open>Commands\<close>

record cmd_output =
  success :: bool
  stdout :: "u8 list"
  stderr :: "u8 list"

type_synonym 'w exec = "string \<Rightarrow> string list \<Rightarrow> 'w \<Rightarrow> (error_kind + cmd_output) \<times> 'w"

definition run_cmd :: "'w exec \<Rightarrow> string \<Rightarrow> string list \<Rightarrow> ('w, string) rust" where
  "run_cmd exec cmd args = (\<lambda>w. case exec cmd args w of
      (Inl _, w') \<Rightarrow> (Panic, w')
    | (Inr out, w') \<Rightarrow> (if \<not> success out then Panic else unwrap (from_utf8 (stdout out)), w'))"

subsection \<open>Forwarding\<close>

record ip_forward =
  original_option :: nat

definition IpForward_new :: "'w exec \<Rightarrow> string \<Rightarrow> ('w, ip_forward) rust" where
  "IpForward_new exec key =
     bind (run_cmd exec ''sysctl'' [''-n'', key]) (\<lambda>out.
     bind (lifted (unwrap (parse_uint (2 ^ 64) (trim out)))) (\<lambda>option.
     andthen (run_cmd exec ''sysctl'' [''-w'', key @ ''='' @ show_nat 1]) (return \<lparr>original_option = option\<rparr>)))"

definition IpForward_drop :: "'w exec \<Rightarrow> string \<Rightarrow> ip_forward \<Rightarrow> ('w, unit) rust" where
  "IpForward_drop exec key f =
     andthen (run_cmd exec ''sysctl'' [''-w'', key @ ''='' @ show_nat (original_option f)]) (return ())"

subsection \<open>The tunnel's address\<close>

definition setup_ip_linux :: "'w exec \<Rightarrow> string \<Rightarrow> string \<Rightarrow> string \<Rightarrow> ('w, unit) rust" where
  "setup_ip_linux exec tun_name ip cidr =
     andthen (run_cmd exec ''ip'' [''addr'', ''add'', ip, ''dev'', tun_name])
    (andthen (run_cmd exec ''ip'' [''link'', ''set'', tun_name, ''up'']) (return ()))"

definition setup_ip_darwin :: "'w exec \<Rightarrow> string \<Rightarrow> string \<Rightarrow> string \<Rightarrow> ('w, unit) rust" where
  "setup_ip_darwin exec tun_name ip cidr =
     andthen (run_cmd exec ''ifconfig'' [tun_name, ip, ip])
    (andthen (run_cmd exec ''route'' [''add'', cidr, ip]) (return ()))"

subsection \<open>The resolver\<close>

definition DNSSetup_new_darwin :: "'w exec \<Rightarrow> ('w, unit) rust" where
  "DNSSetup_new_darwin exec =
     andthen (run_cmd exec ''networksetup'' [''-setdnsservers'', ''Wi-Fi'', ''127.0.0.1'']) (return ())"

definition DNSSetup_drop_darwin :: "'w exec \<Rightarrow> ('w, unit) rust" where
  "DNSSetup_drop_darwin exec =
     andthen (run_cmd exec ''networksetup'' [''-setdnsservers'', ''Wi-Fi'', ''empty'']) (return ())"

text \<open>On Linux the state is the content of \<^verbatim>\<open>/etc/resolv.conf\<close>, if it can be opened; \<open>logged\<close> is whether
  the message with the old content is formatted.  A write at the start of a file overwrites it.\<close>

definition NAMESERVER :: "u8 list" where "NAMESERVER = as_bytes ''nameserver 127.0.0.1''"

definition write_over :: "u8 list \<Rightarrow> u8 list \<Rightarrow> u8 list" where
  "write_over bs file = bs @ drop (length bs) file"

record dns_setup =
  original :: "u8 list"

definition DNSSetup_new_linux :: "bool \<Rightarrow> (u8 list option, dns_setup) rust" where
  "DNSSetup_new_linux logged = (\<lambda>resolv. case resolv of
      None \<Rightarrow> (Panic, None)
    | Some buf \<Rightarrow> if logged \<and> from_utf8 buf = None then (Panic, Some buf)
        else (Ok \<lparr>original = buf\<rparr>, Some (write_over NAMESERVER [])))"

definition DNSSetup_drop_linux :: "dns_setup \<Rightarrow> (u8 list option, unit) rust" where
  "DNSSetup_drop_linux d = (\<lambda>resolv. case resolv of
      None \<Rightarrow> (Panic, None)
    | Some file \<Rightarrow> (Ok (), Some (write_over (original d) file)))"

subsection \<open>Sockets of processes, Linux\<close>

datatype fd_target = FD_Socket u64 | FD_Other

record process =
  proc_pid :: int
  proc_owner :: u32
  proc_fds :: "fd_target list option"

record tcp_net_entry =
  te_local :: socket_addr
  te_remote :: socket_addr
  te_inode :: u64

record socket_info =
  si_local :: socket_addr
  si_remote :: socket_addr

definition socket_inodes :: "process list \<Rightarrow> u64 \<rightharpoonup> process" where
  "socket_inodes procs = fold (\<lambda>p m. case proc_fds p of
       Some fds \<Rightarrow> fold (\<lambda>fd m. case fd of FD_Socket inode \<Rightarrow> m(inode \<mapsto> p) | FD_Other \<Rightarrow> m) fds m
     | None \<Rightarrow> m) procs Map.empty"

fun push_sock :: "int \<Rightarrow> 'i \<Rightarrow> (int \<times> 'i list) list \<Rightarrow> (int \<times> 'i list) list" where
  "push_sock pid i [] = [(pid, [i])]"
| "push_sock pid i ((p, is) # m) = (if p = pid then (p, is @ [i]) # m else (p, is) # push_sock pid i m)"

definition proc_socks :: "process list \<Rightarrow> tcp_net_entry list option \<Rightarrow> tcp_net_entry list option \<Rightarrow>
    (int \<times> socket_info list) list outcome" where
  "proc_socks procs tcp tcp6 =
     chain (unwrap tcp) (\<lambda>tcp. chain (unwrap tcp6) (\<lambda>tcp6.
       Ok (fold (\<lambda>e m. case socket_inodes procs (te_inode e) of
             Some p \<Rightarrow> push_sock (proc_pid p) \<lparr>si_local = te_local e, si_remote = te_remote e\<rparr> m
           | None \<Rightarrow> m) (tcp @ tcp6) [])))"

definition list_system_proc_socks :: "process list \<Rightarrow> tcp_net_entry list option \<Rightarrow> tcp_net_entry list option \<Rightarrow>
    (int \<times> socket_info list) list outcome" where
  "list_system_proc_socks all_procs tcp tcp6 = proc_socks all_procs tcp tcp6"

definition list_user_proc_socks :: "process list \<Rightarrow> tcp_net_entry list option \<Rightarrow> tcp_net_entry list option \<Rightarrow> u32 \<Rightarrow>
    (int \<times> socket_info list) list outcome" where
  "list_user_proc_socks all_procs tcp tcp6 uid = proc_socks (filter (\<lambda>p. proc_owner p = uid) all_procs) tcp tcp6"

subsection \<open>Sockets of processes, macOS\<close>

text \<open>The port is in network order in the low half of a 32-bit integer, the address in network order.\<close>

definition darwin_port :: "32 word \<Rightarrow> u16" where
  "darwin_port raw = ucast ((signed_drop_bit 8 raw AND 0x00ff) OR (push_bit 8 raw AND 0xff00))"

definition swap_bytes :: "u32 \<Rightarrow> u32" where
  "swap_bytes n = push_bit 24 (n AND 0xff) OR push_bit 8 (n AND 0xff00) OR
     (drop_bit 8 n AND 0xff00) OR (drop_bit 24 n AND 0xff)"

definition ipv4_from_u32 :: "u32 \<Rightarrow> ipv4" where
  "ipv4_from_u32 n = (case u32_to_be_bytes n of
      [a, b, c, d] \<Rightarrow> Ipv4Addr a b c d | _ \<Rightarrow> Ipv4Addr 0 0 0 0)"

record in_sock_addr =
  isa_port :: "32 word"
  isa_addr4 :: u32
  isa_addr6 :: ipv6

definition darwin_addr :: "in_sock_addr \<Rightarrow> bool \<Rightarrow> socket_addr" where
  "darwin_addr s is_inet = (if is_inet then V4 (ipv4_from_u32 (swap_bytes (isa_addr4 s))) (darwin_port (isa_port s))
     else V6 (isa_addr6 s) (darwin_port (isa_port s)) 0 0)"

record socket_fd_info =
  sf_is_tcp :: bool
  sf_inet :: bool
  sf_local :: in_sock_addr
  sf_foreign :: in_sock_addr

definition get_local_addr :: "socket_fd_info \<Rightarrow> socket_addr" where
  "get_local_addr s = darwin_addr (sf_local s) (sf_inet s)"

definition get_foreign_addr :: "socket_fd_info \<Rightarrow> socket_addr" where
  "get_foreign_addr s = darwin_addr (sf_foreign s) (sf_inet s)"

definition list_sockaddr ::
  "(int \<Rightarrow> error_kind + (int \<times> bool) list) \<Rightarrow> (int \<Rightarrow> int \<Rightarrow> socket_fd_info option) \<Rightarrow> int \<Rightarrow> socket_info list outcome" where
  "list_sockaddr listpidinfo pidfdinfo pid = (case listpidinfo pid of
      Inl e \<Rightarrow> Err e
    | Inr fds \<Rightarrow> Ok (List.map_filter (\<lambda>(fd, is_socket).
        if is_socket then (case pidfdinfo pid fd of
            Some s \<Rightarrow> if sf_is_tcp s then Some \<lparr>si_local = get_local_addr s,
                si_remote = get_foreign_addr s\<rparr> else None
          | None \<Rightarrow> None) else None) fds))"

fun darwin_socks :: "bool \<Rightarrow> (int \<Rightarrow> socket_info list outcome) \<Rightarrow> int list \<Rightarrow> (int \<times> socket_info list) list outcome" where
  "darwin_socks keep_empty list_addrs [] = Ok []"
| "darwin_socks keep_empty list_addrs (pid # pids) =
     chain (list_addrs pid) (\<lambda>is. chain (darwin_socks keep_empty list_addrs pids) (\<lambda>m.
       Ok (if keep_empty \<or> is \<noteq> [] then (pid, is) # m else m)))"

definition list_user_proc_socks_darwin ::
  "(u32 \<Rightarrow> error_kind + int list) \<Rightarrow> (int \<Rightarrow> socket_info list outcome) \<Rightarrow> u32 \<Rightarrow> (int \<times> socket_info list) list outcome" where
  "list_user_proc_socks_darwin listpids list_addrs uid = (case listpids uid of
      Inl e \<Rightarrow> Err e
    | Inr pids \<Rightarrow> darwin_socks False list_addrs pids)"

definition list_system_proc_socks_darwin ::
  "error_kind + int list \<Rightarrow> (int \<Rightarrow> socket_info list outcome) \<Rightarrow> (int \<times> socket_info list) list outcome" where
  "list_system_proc_socks_darwin listpids list_addrs = (case listpids of
      Inl e \<Rightarrow> Err e
    | Inr pids \<Rightarrow> darwin_socks True list_addrs pids)"

subsection \<open>Settings are restored\<close>

text \<open>The resolver's file is replaced by the program's own server while the program runs; when the
  program ends, the old content is written over it without shortening it, so the file is restored
  exactly if the old content was at least as long as the line that replaced it.\<close>

lemma resolv_conf_restored:
  assumes "DNSSetup_new_linux logged (Some old) = (Ok d, file)"
  shows "file = Some NAMESERVER \<and> DNSSetup_drop_linux d file = (Ok (), Some (old @ drop (length old) NAMESERVER)) \<and>
    (DNSSetup_drop_linux d file = (Ok (), Some old) \<longleftrightarrow> length NAMESERVER \<le> length old)"
  using assms by (auto simp: DNSSetup_new_linux_def DNSSetup_drop_linux_def write_over_def split: if_splits)

lemma resolv_conf_restored_instance:
  "\<exists>d. DNSSetup_new_linux False (Some (as_bytes ''options rotate'')) = (Ok d, Some NAMESERVER) \<and>
    DNSSetup_drop_linux d (Some NAMESERVER) \<noteq> (Ok (), Some (as_bytes ''options rotate''))"
proof -
  obtain d where d: "DNSSetup_new_linux False (Some (as_bytes ''options rotate'')) = (Ok d, Some NAMESERVER)"
    by (simp add: DNSSetup_new_linux_def write_over_def)
  have "\<not> length NAMESERVER \<le> length (as_bytes ''options rotate'')" by code_simp
  with resolv_conf_restored [OF d] d show ?thesis by blast
qed

text \<open>What is used of \<^verbatim>\<open>sysctl\<close>: it prints the value of the key and a newline, and sets it.\<close>

definition sysctl_laws :: "'w exec \<Rightarrow> string \<Rightarrow> ('w \<Rightarrow> nat) \<Rightarrow> bool" where
  "sysctl_laws exec key setting \<longleftrightarrow>
     (\<forall>w. \<exists>err. exec ''sysctl'' [''-n'', key] w =
        (Inr \<lparr>success = True, stdout = as_bytes (show_nat (setting w) @ [CHR 0x0A]), stderr = err\<rparr>, w)) \<and>
     (\<forall>w n. \<exists>out w'. exec ''sysctl'' [''-w'', key @ ''='' @ show_nat n] w = (Inr out, w') \<and>
        success out \<and> from_utf8 (stdout out) \<noteq> None \<and> setting w' = n)"

lemma show_nat_space: "c \<in> set (show_nat n) \<Longrightarrow> \<not> is_space c"
proof -
  assume "c \<in> set (show_nat n)"
  then have "is_digit c" using show_nat_digits [of n] by (auto simp: list_all_iff)
  then show ?thesis by (auto simp: is_digit_def is_space_def)
qed

lemma trim_show_nat: "trim (show_nat n @ [CHR 0x0A]) = show_nat n"
proof -
  have ne: "show_nat n \<noteq> []" using show_nat_digits by blast
  then have "\<not> is_space (hd (show_nat n))" "\<not> is_space (last (show_nat n))"
    by (simp_all add: show_nat_space [of _ n])
  with ne have "dropWhile is_space (show_nat n @ [CHR 0x0A]) = show_nat n @ [CHR 0x0A]" by (cases "show_nat n") auto
  moreover have "is_space CHR 0x0A" by code_simp
  ultimately have "trim (show_nat n @ [CHR 0x0A]) = rev (dropWhile is_space (rev (show_nat n)))" by (simp add: trim_def)
  also have "dropWhile is_space (rev (show_nat n)) = rev (show_nat n)"
    using ne \<open>\<not> is_space (last (show_nat n))\<close> by (cases "show_nat n" rule: rev_cases) auto
  finally show ?thesis by simp
qed

lemma newline_ascii: "is_ascii (show_nat n @ [CHR 0x0A])"
  using show_nat_ascii [of n] by (simp add: is_ascii_def)

lemma sysctl_set:
  assumes "sysctl_laws exec key setting"
  shows "\<exists>out w'. run_cmd exec ''sysctl'' [''-w'', key @ ''='' @ show_nat n] w = (Ok out, w') \<and> setting w' = n"
proof -
  from assms obtain out w' where "exec ''sysctl'' [''-w'', key @ ''='' @ show_nat n] w = (Inr out, w')"
    "success out" "from_utf8 (stdout out) \<noteq> None" "setting w' = n" unfolding sysctl_laws_def by blast
  then show ?thesis by (auto simp: run_cmd_def)
qed

lemma sysctl_get:
  assumes "sysctl_laws exec key setting"
  shows "run_cmd exec ''sysctl'' [''-n'', key] w = (Ok (show_nat (setting w) @ [CHR 0x0A]), w)"
proof -
  from assms obtain err where "exec ''sysctl'' [''-n'', key] w =
      (Inr \<lparr>success = True, stdout = as_bytes (show_nat (setting w) @ [CHR 0x0A]), stderr = err\<rparr>, w)"
    unfolding sysctl_laws_def by blast
  then show ?thesis using from_utf8_ascii [OF newline_ascii] by (simp add: run_cmd_def del: from_utf8_ascii)
qed

text \<open>In gateway mode forwarding is switched on while the program runs, and set back to what it was
  when the program ends.\<close>

lemma ip_forward_restored:
  assumes "sysctl_laws exec key setting" "setting w < 2 ^ 64"
  shows "\<exists>f w'. IpForward_new exec key w = (Ok f, w') \<and> setting w' = 1 \<and>
    (\<forall>v. \<exists>v'. IpForward_drop exec key f v = (Ok (), v') \<and> setting v' = setting w)"
proof -
  obtain out w' where on: "run_cmd exec ''sysctl'' [''-w'', key @ ''='' @ show_nat 1] w = (Ok out, w')" "setting w' = 1"
    using sysctl_set [OF assms(1)] by blast
  have "IpForward_new exec key w = (Ok \<lparr>original_option = setting w\<rparr>, w')"
    using on(1) parse_show_nat [OF assms(2)] by (simp add: IpForward_new_def bind_def sysctl_get [OF assms(1)] trim_show_nat)
  moreover have "\<exists>v'. IpForward_drop exec key \<lparr>original_option = setting w\<rparr> v = (Ok (), v') \<and> setting v' = setting w" for v
    using sysctl_set [OF assms(1), of "setting w" v] by (auto simp: IpForward_drop_def bind_def)
  ultimately show ?thesis using on(2) by blast
qed

text \<open>A system with one key, whose state is its value.\<close>

definition one_key :: "nat exec" where
  "one_key cmd args n = (if args = [''-n'', ''k'']
     then (Inr \<lparr>success = True, stdout = as_bytes (show_nat n @ [CHR 0x0A]), stderr = []\<rparr>, n)
     else (Inr \<lparr>success = True, stdout = [], stderr = []\<rparr>, digits_val (drop 2 (last args))))"

lemma one_key_laws: "sysctl_laws one_key ''k'' (\<lambda>n. n)"
  using show_nat_digits by (auto simp: sysctl_laws_def one_key_def from_utf8_def utf8_valid.simps)

lemma ip_forward_restored_instance:
  "\<exists>f w'. IpForward_new one_key ''k'' 0 = (Ok f, w') \<and> w' = 1 \<and> (\<exists>v'. IpForward_drop one_key ''k'' f 5 = (Ok (), v') \<and> v' = 0)"
  using ip_forward_restored [OF one_key_laws, of 0] by fastforce

subsection \<open>Sockets are found by their owner\<close>

definition holds_socket :: "process \<Rightarrow> u64 \<Rightarrow> bool" where
  "holds_socket p inode \<longleftrightarrow> (\<exists>fds. proc_fds p = Some fds \<and> FD_Socket inode \<in> set fds)"

lemma fold_fds:
  "fold (\<lambda>fd m. case fd of FD_Socket inode \<Rightarrow> m(inode \<mapsto> p) | FD_Other \<Rightarrow> m) fds m =
     (\<lambda>i. if FD_Socket i \<in> set fds then Some p else m i)"
  by (induction fds arbitrary: m) (auto split: fd_target.splits)

lemma fold_procs:
  "fold (\<lambda>p m. case proc_fds p of
       Some fds \<Rightarrow> fold (\<lambda>fd m. case fd of FD_Socket inode \<Rightarrow> m(inode \<mapsto> p) | FD_Other \<Rightarrow> m) fds m
     | None \<Rightarrow> m) procs m i \<noteq> None \<longleftrightarrow> m i \<noteq> None \<or> (\<exists>p \<in> set procs. holds_socket p i)"
  by (induction procs arbitrary: m) (auto simp: fold_fds holds_socket_def split: option.splits)

lemma socket_inodes_iff: "(\<exists>p. socket_inodes procs i = Some p) \<longleftrightarrow> (\<exists>p \<in> set procs. holds_socket p i)"
  using fold_procs [of procs Map.empty i] by (simp add: socket_inodes_def)

definition listed :: "(int \<times> 'i list) list \<Rightarrow> 'i set" where
  "listed m = (\<Union>(_, is) \<in> set m. set is)"

lemma listed_push: "listed (push_sock pid i m) = insert i (listed m)"
  by (induction pid i m rule: push_sock.induct) (auto simp: listed_def)

lemma listed_fold:
  "listed (fold (\<lambda>e m. case f e of Some p \<Rightarrow> push_sock (g p) (h e) m | None \<Rightarrow> m) es m) =
     listed m \<union> h ` {e \<in> set es. \<exists>p. f e = Some p}"
  by (induction es arbitrary: m) (auto simp: listed_push split: option.splits)

lemma proc_socks_listed:
  assumes "proc_socks procs (Some tcp) (Some tcp6) = Ok m"
  shows "(\<exists>i \<in> listed m. si_local i = a) \<longleftrightarrow> (\<exists>e \<in> set (tcp @ tcp6). te_local e = a \<and> (\<exists>p \<in> set procs. holds_socket p (te_inode e)))"
proof -
  have "listed m = (\<lambda>e. \<lparr>si_local = te_local e, si_remote = te_remote e\<rparr>) ` {e \<in> set (tcp @ tcp6). \<exists>p. socket_inodes procs (te_inode e) = Some p}"
    using assms listed_fold [where f = "\<lambda>e. socket_inodes procs (te_inode e)" and g = proc_pid
        and h = "\<lambda>e. \<lparr>si_local = te_local e, si_remote = te_remote e\<rparr>" and es = "tcp @ tcp6" and m = "[]"]
    by (simp add: proc_socks_def listed_def)
  then show ?thesis by (auto simp: socket_inodes_iff)
qed

text \<open>The sockets listed for a user are those of the system's TCP tables that one of the user's
  processes holds; a process whose descriptors cannot be read has none.\<close>

lemma user_socks_iff:
  assumes "list_user_proc_socks procs (Some tcp) (Some tcp6) uid = Ok m"
  shows "(\<exists>i \<in> listed m. si_local i = a) \<longleftrightarrow>
    (\<exists>e \<in> set (tcp @ tcp6). te_local e = a \<and> (\<exists>p \<in> set procs. proc_owner p = uid \<and> holds_socket p (te_inode e)))"
  using proc_socks_listed [OF assms [unfolded list_user_proc_socks_def]] by auto

text \<open>The two bytes of a port in network order are put back in order.\<close>

lemma darwin_port_swaps: "darwin_port (ucast (join16 a b)) = join16 b a"
proof (rule bit_word_eqI)
  fix n assume "n < LENGTH(16)"
  have masks: "(0xff :: 32 word) = mask 8" "(0xff00 :: 32 word) = push_bit 8 (mask 8)" by code_simp+
  have short: "\<not> bit a n" "\<not> bit b n" if "8 \<le> n" for n
    using that bit_imp_le_length [of a n] bit_imp_le_length [of b n] by auto
  show "bit (darwin_port (ucast (join16 a b))) n = bit (join16 b a) n"
    using \<open>n < LENGTH(16)\<close> short
    by (cases "n < 8") (auto simp: darwin_port_def join16_def masks bit_simps)
qed

end
