(* ===== verification/Seeker_Main.thy ===== *)
theory Seeker_Main
  imports Dns_Exchange Ruled_Client Tun_Device Sys_Config
begin

text \<open>
  The program, \<^verbatim>\<open>seeker/src/main.rs\<close>: what it makes of its arguments, and the loop that accepts the
  sockets of the tunnel and gives each to the client with the address it is meant for.  Reading the
  configuration, logging and the registration of signals are left out.
\<close>

subsection \<open>Arguments and configuration\<close>

definition parse_uid :: "string option \<Rightarrow> u32 option outcome" where
  "parse_uid arg = (case arg of
      None \<Rightarrow> Ok None
    | Some uid \<Rightarrow> chain (unwrap (parse_uint (2 ^ 32) uid)) (\<lambda>n. Ok (Some (of_nat n))))"

text \<open>In gateway mode the DNS server has to be reachable from the network.\<close>

definition gateway_config :: "'c config \<Rightarrow> 'c config" where
  "gateway_config conf = (if gateway_mode conf then conf\<lparr>dns_listen := ''0.0.0.0:53''\<rparr> else conf)"

definition start_client :: "v6_ops \<Rightarrow> string option \<Rightarrow> 'c config \<Rightarrow> 'c ruled_client outcome" where
  "start_client ops arg conf = chain (parse_uid arg) (\<lambda>uid. RuledClient_new ops (gateway_config conf) uid)"

subsection \<open>Accepting sockets\<close>

text \<open>What waiting a second for the next socket gives, with the state of the termination flag then.\<close>

datatype next_socket = Next_Socket tun_handle | Stream_Ended | Stream_Failed error_kind bool

fun accept_loop :: "next_socket list \<Rightarrow> tun_handle list \<times> unit outcome option" where
  "accept_loop [] = ([], None)"
| "accept_loop (Next_Socket h # xs) = (case accept_loop xs of (hs, r) \<Rightarrow> (h # hs, r))"
| "accept_loop (Stream_Ended # xs) = ([], Some (Ok ()))"
| "accept_loop (Stream_Failed e terminate # xs) =
     (if e = TimedOut then (if terminate then ([], Some (Ok ())) else accept_loop xs) else ([], Some Panic))"

text \<open>The address a connection is meant for: the tunnel's end of it, looked up among the made-up ones.\<close>

definition target_host :: "'d kv \<Rightarrow> v6_ops \<Rightarrow> socket_addr \<Rightarrow> ('d inner, address) rust" where
  "target_host kv ops remote_addr =
     bind (lookup_host kv (show_ip ops (socket_ip remote_addr))) (\<lambda>found. return (case found of
         Some s \<Rightarrow> DomainNameAddress s (socket_port remote_addr)
       | None \<Rightarrow> SocketAddress remote_addr))"

text \<open>\<open>tcp\<close> and \<open>udp\<close> are the client's handlers with the socket.\<close>

definition handle_socket ::
  "'d kv \<Rightarrow> v6_ops \<Rightarrow> (address \<Rightarrow> 'c \<Rightarrow> unit outcome option \<times> 'c) \<Rightarrow> (address \<Rightarrow> 'c \<Rightarrow> unit outcome option \<times> 'c) \<Rightarrow>
    tun_handle \<Rightarrow> socket_addr \<Rightarrow> 'd inner \<times> 'c \<Rightarrow> unit outcome option \<times> 'd inner \<times> 'c" where
  "handle_socket kv ops tcp udp h remote_addr = (\<lambda>(s, c). case target_host kv ops remote_addr s of
      (Ok addr, s') \<Rightarrow> (case (case h of Handle_Tcp _ \<Rightarrow> tcp addr c | Handle_Udp _ \<Rightarrow> udp addr c) of (r, c') \<Rightarrow> (r, s', c'))
    | (Err e, s') \<Rightarrow> (Some (Err e), s', c)
    | (Panic, s') \<Rightarrow> (Some Panic, s', c)
    | (Diverge, s') \<Rightarrow> (Some Diverge, s', c))"

text \<open>The sockets of a user as the client is given them.\<close>

definition socks_of_user :: "process list \<Rightarrow> tcp_net_entry list \<Rightarrow> tcp_net_entry list \<Rightarrow> u32 \<Rightarrow>
    error_kind + (int \<times> socket_addr list) list" where
  "socks_of_user procs tcp tcp6 uid = (case list_user_proc_socks procs (Some tcp) (Some tcp6) uid of
      Ok m \<Rightarrow> Inr (map (\<lambda>(pid, is). (pid, map si_local is)) m)
    | Err e \<Rightarrow> Inl e
    | _ \<Rightarrow> Inl Other)"

definition owns :: "process list \<Rightarrow> tcp_net_entry list \<Rightarrow> u32 \<Rightarrow> socket_addr \<Rightarrow> bool" where
  "owns procs entries uid a \<longleftrightarrow> (\<exists>e \<in> set entries. te_local e = a \<and> (\<exists>p \<in> set procs. proc_owner p = uid \<and> holds_socket p (te_inode e)))"

lemma foreign_iff_owner:
  "foreign uid (socks_of_user procs tcp tcp6) a \<longleftrightarrow> (\<exists>u. uid = Some u \<and> \<not> owns procs (tcp @ tcp6) u a)"
  "socks_of_user procs tcp tcp6 u \<noteq> Inl e"
proof -
  have ok: "\<exists>m. list_user_proc_socks procs (Some tcp) (Some tcp6) u = Ok m" for u
    by (simp add: list_user_proc_socks_def proc_socks_def)
  then obtain m where "list_user_proc_socks procs (Some tcp) (Some tcp6) u = Ok m" by blast
  then show "socks_of_user procs tcp tcp6 u \<noteq> Inl e" by (simp add: socks_of_user_def)
  have "(\<forall>socks. socks_of_user procs tcp tcp6 u = Inr socks \<longrightarrow> (\<forall>(_, sockets) \<in> set socks. a \<notin> set sockets)) \<longleftrightarrow>
      \<not> owns procs (tcp @ tcp6) u a" for u
  proof -
    obtain m where m: "list_user_proc_socks procs (Some tcp) (Some tcp6) u = Ok m" using ok by blast
    have "(\<forall>(_, sockets) \<in> set (map (\<lambda>(pid, is). (pid, map si_local is)) m). a \<notin> set sockets) \<longleftrightarrow> \<not> (\<exists>i \<in> listed m. si_local i = a)"
      by (auto simp: listed_def; fastforce)
    with user_socks_iff [OF m, of a] show ?thesis unfolding owns_def socks_of_user_def m by simp
  qed
  moreover have "\<exists>socks. socks_of_user procs tcp tcp6 u = Inr socks" for u
    using ok [of u] by (auto simp: socks_of_user_def)
  ultimately show "foreign uid (socks_of_user procs tcp tcp6) a \<longleftrightarrow> (\<exists>u. uid = Some u \<and> \<not> owns procs (tcp @ tcp6) u a)"
    unfolding foreign_def by (metis sum.inject(2))
qed

lemma target_host_name:
  assumes "lookup_host kv (show_ipv4 a) s = (Ok (Some d), s)"
  shows "target_host kv ops (V4 a pt) s = (Ok (DomainNameAddress d pt), s)"
  using assms by (simp add: target_host_def bind_def)

lemma accept_loop_ends:
  assumes "accept_loop xs = (hs, Some (Ok ()))"
  shows "\<exists>ys x zs. xs = ys @ x # zs \<and> (x = Stream_Ended \<or> x = Stream_Failed TimedOut True) \<and>
    hs = List.map_filter (\<lambda>y. case y of Next_Socket h \<Rightarrow> Some h | _ \<Rightarrow> None) ys"
  using assms
proof (induction xs arbitrary: hs rule: accept_loop.induct)
  case (2 h xs)
  then obtain hs' where "accept_loop xs = (hs', Some (Ok ()))" "hs = h # hs'" by (auto split: prod.splits)
  moreover from "2.IH" [OF this(1)] obtain ys x zs where "xs = ys @ x # zs" "x = Stream_Ended \<or> x = Stream_Failed TimedOut True"
    "hs' = List.map_filter (\<lambda>y. case y of Next_Socket h \<Rightarrow> Some h | _ \<Rightarrow> None) ys" by blast
  ultimately show ?case by (intro exI [of _ "Next_Socket h # ys"]) (auto simp: map_filter_simps)
next
  case (3 xs)
  then show ?case by (auto simp: map_filter_simps intro: exI [of _ "[]"])
next
  case (4 e terminate xs)
  show ?case
  proof (cases "terminate")
    case True
    with 4 show ?thesis by (auto simp: map_filter_simps intro: exI [of _ "[]"] split: if_splits)
  next
    case False
    with 4 obtain ys x zs where "xs = ys @ x # zs" "x = Stream_Ended \<or> x = Stream_Failed TimedOut True"
      "hs = List.map_filter (\<lambda>y. case y of Next_Socket h \<Rightarrow> Some h | _ \<Rightarrow> None) ys" by (auto split: if_splits)
    then show ?thesis by (intro exI [of _ "Stream_Failed e terminate # ys"]) (auto simp: map_filter_simps)
  qed
qed simp

end
