(* ===== verification/Tun_Phy.thy ===== *)
theory Tun_Phy
  imports Tun_Device Sys_Config
begin

text \<open>
  The tunnel meets its device: the names and sizes of the devices, \<^verbatim>\<open>tun/src/phy/mod.rs\<close> which opens a
  device and polls it through the event loop, \<^verbatim>\<open>Tun::setup\<close> of \<^verbatim>\<open>tun/src/lib.rs\<close> with the commands it
  runs, the deadlines of \<^verbatim>\<open>tun/src/iface/ethernet.rs\<close>, and what the task that writes to the device
  does with the packets queued for it.  The event loop's \<^verbatim>\<open>Watcher\<close> and smoltcp's deadline of a
  socket are arguments; so are the results of the system calls.
\<close>

subsection \<open>Names and sizes\<close>

definition linux_name :: "fd \<times> string \<Rightarrow> string outcome" where
  "linux_name s = Ok (snd s)"

text \<open>The buffer of 256 bytes the system filled and the length it reports, with its final zero; \<open>last_err\<close> is
  the error of an earlier call when the length is zero.\<close>

definition darwin_name :: "error_kind \<Rightarrow> error_kind + (u8 list \<times> u32) \<Rightarrow> string outcome" where
  "darwin_name last_err getsockopt = (case getsockopt of
      Inl e \<Rightarrow> Err e
    | Inr (tunnel_name, tunnel_name_len) \<Rightarrow>
        if tunnel_name_len = 0 then Err last_err
        else if unat (tunnel_name_len - 1) > length tunnel_name then Panic
        else Ok (from_utf8_lossy (take (unat (tunnel_name_len - 1)) tunnel_name)))"

definition linux_mtu :: "fd \<times> string \<Rightarrow> error_kind + fd \<Rightarrow> (u8 list \<Rightarrow> error_kind + nat) \<Rightarrow> (fd set, nat) rust" where
  "linux_mtu s = device_mtu (linux_name s)"

definition darwin_mtu ::
  "error_kind \<Rightarrow> error_kind + (u8 list \<times> u32) \<Rightarrow> error_kind + fd \<Rightarrow> (u8 list \<Rightarrow> error_kind + nat) \<Rightarrow> (fd set, nat) rust" where
  "darwin_mtu last_err getsockopt = device_mtu (darwin_name last_err getsockopt)"

definition AF_INET6_DARWIN :: u8 where "AF_INET6_DARWIN = 30"

definition write6 :: "(u8 list \<Rightarrow> error_kind + nat) \<Rightarrow> u8 list \<Rightarrow> u64 outcome" where
  "write6 sendmsg src = af_write sendmsg src AF_INET6_DARWIN"

definition device_drop :: "fd \<Rightarrow> (fd set, unit) rust" where
  "device_drop fd = (\<lambda>fds. (Ok (), fds - {fd}))"

subsection \<open>The device in the event loop\<close>

record phy_socket =
  phy_mtu :: nat
  phy_name :: string
  phy_fd :: fd

text \<open>\<^verbatim>\<open>expect\<close>: an error is a panic.\<close>

definition expecting :: "('s, 'a) rust \<Rightarrow> ('s, 'a) rust" where
  "expecting m = (\<lambda>s. case m s of (Err _, s') \<Rightarrow> (Panic, s') | (r, s') \<Rightarrow> (r, s'))"

text \<open>A panic while a local variable owns the device drops it, which closes its descriptor.\<close>

definition owning :: "fd \<Rightarrow> (fd set, 'a) rust \<Rightarrow> (fd set, 'a) rust" where
  "owning fd m = (\<lambda>fds. case m fds of
      (Panic, fds') \<Rightarrow> (Panic, snd (device_drop fd fds'))
    | (r, fds') \<Rightarrow> (r, fds'))"

text \<open>The device by the functions of its system: opening it, its name and the size of its packets.\<close>

definition phy_new ::
  "(fd set, 'd) rust \<Rightarrow> ('d \<Rightarrow> fd) \<Rightarrow> ('d \<Rightarrow> string outcome) \<Rightarrow> ('d \<Rightarrow> (fd set, nat) rust) \<Rightarrow> (fd set, phy_socket) rust" where
  "phy_new open_device fd_of name mtu =
     bind (expecting open_device) (\<lambda>d.
     owning (fd_of d)
      (bind (expecting (lifted (name d))) (\<lambda>nm.
       bind (expecting (mtu d)) (\<lambda>m.
       return \<lparr>phy_mtu = m, phy_name = nm, phy_fd = fd_of d\<rparr>))))"

definition phy_new_linux ::
  "string \<Rightarrow> error_kind + fd \<Rightarrow> (u8 list \<Rightarrow> error_kind option) \<Rightarrow> error_kind option \<Rightarrow>
    error_kind + fd \<Rightarrow> (u8 list \<Rightarrow> error_kind + nat) \<Rightarrow> (fd set, phy_socket) rust" where
  "phy_new_linux name opened ioctl nonblock_err sock mtu_ioctl =
     phy_new (TunSocket_new_linux name opened ioctl nonblock_err) fst linux_name (\<lambda>d. linux_mtu d sock mtu_ioctl)"

text \<open>\<open>W\<close> is the watcher: it runs the operation when the device is ready and waits when it would block.\<close>

definition phy_poll_read :: "(u8 list outcome \<Rightarrow> u8 list outcome poll) \<Rightarrow> nat \<Rightarrow> error_kind + u8 list \<Rightarrow> u8 list outcome poll" where
  "phy_poll_read W n got = W (linux_read n got)"

definition phy_poll_write :: "(nat outcome \<Rightarrow> nat outcome poll) \<Rightarrow> error_kind + nat \<Rightarrow> nat outcome poll" where
  "phy_poll_write W put = W (linux_write put)"

definition phy_poll_flush :: "(unit outcome \<Rightarrow> unit outcome poll) \<Rightarrow> unit outcome poll" where
  "phy_poll_flush W = W (Ok ())"

definition phy_poll_close :: "unit outcome poll" where
  "phy_poll_close = Ready (Ok ())"

text \<open>A device that was opened is one more open descriptor: the socket used to ask for the size of the
  packets is closed again.\<close>

lemma phy_new_one_descriptor:
  assumes "phy_new_linux name (Inr fd) ioctl nonblock_err (Inr sock) mtu_ioctl fds = (Ok s, fds')" "sock \<notin> insert fd fds"
  shows "fds' = insert fd fds \<and> phy_name s = name \<and> phy_fd s = fd \<and> length name < IFNAMSIZ \<and>
    mtu_ioctl (ifr_name name) = Inr (phy_mtu s)"
  using assms
  by (auto simp: phy_new_linux_def phy_new_def expecting_def owning_def TunSocket_new_linux_def set_non_blocking_def linux_name_def
      linux_mtu_def device_mtu_def bind_def lifted_def return_def Let_def IFNAMSIZ_def
      split: outcome.splits prod.splits option.splits if_splits sum.splits)

subsection \<open>Setting up the tunnel\<close>

text \<open>The text of a block and the block of an address under a mask are smoltcp's.\<close>

record 'c block_ops =
  show_block :: "'c \<Rightarrow> string"
  block_addr :: "'c \<Rightarrow> ipv4"
  from_netmask :: "ipv4 \<Rightarrow> 'c \<Rightarrow> 'c option"     \<comment> \<open>an address with the mask of a block\<close>

definition setup_device_ip :: "'c block_ops \<Rightarrow> 'w exec \<Rightarrow> bool \<Rightarrow> string \<Rightarrow> ipv4 \<Rightarrow> 'c \<Rightarrow> ('w, unit) rust" where
  "setup_device_ip B exec macos tun_name tun_ip tun_cidr =
     (if macos then setup_ip_darwin exec tun_name (show_ipv4 tun_ip) (show_block B tun_cidr)
      else bind (lifted (unwrap (from_netmask B tun_ip tun_cidr))) (\<lambda>new_ip.
        setup_ip_linux exec tun_name (show_block B new_ip) (show_block B tun_cidr)))"

text \<open>The state: the descriptors, the system the commands change, and the global tunnel, which owns the
  device from then on.\<close>

definition setup_tunnel ::
  "'c block_ops \<Rightarrow> 'w exec \<Rightarrow> bool \<Rightarrow> (fd set, phy_socket) rust \<Rightarrow> 'r ring_ops \<Rightarrow> bool \<Rightarrow> ipv4 \<Rightarrow> 'c \<Rightarrow> 'set \<Rightarrow>
    (fd set \<times> 'w \<times> ('r, 'set, 'k) tun option, unit) rust" where
  "setup_tunnel B exec macos new_device R locked tun_ip tun_cidr empty_set = (\<lambda>(fds, w, t).
     case new_device fds of
       (Ok tun, fds') \<Rightarrow>
         (case setup_device_ip B exec macos (phy_name tun) tun_ip tun_cidr w of
            (Ok _, w') \<Rightarrow>
              (case Tun_setup locked R (phy_mtu tun) (block_addr B tun_cidr) empty_set t of
                 (r, t') \<Rightarrow> (case owning (phy_fd tun) (lifted r) fds' of (r', fds'') \<Rightarrow> (r', (fds'', w', t'))))
          | (r, w') \<Rightarrow> (case owning (phy_fd tun) (lifted r) fds' of (r', fds'') \<Rightarrow> (r', (fds'', w', t))))
     | (Err e, fds') \<Rightarrow> (Err e, (fds', w, t))
     | (Panic, fds') \<Rightarrow> (Panic, (fds', w, t))
     | (Diverge, fds') \<Rightarrow> (Diverge, (fds', w, t)))"

subsection \<open>Deadlines\<close>

datatype poll_at = PollNow | PollTime int | PollIngress

definition iface_poll_at :: "(('t, 'u) tun_socket \<Rightarrow> poll_at) \<Rightarrow> ('set, 't, 'u, 'tr) net \<Rightarrow> 'set \<Rightarrow> int option" where
  "iface_poll_at at N s =
     (let ts = List.map_filter (\<lambda>(_, k). case at k of PollNow \<Rightarrow> Some 0 | PollTime t \<Rightarrow> Some t | PollIngress \<Rightarrow> None) (set_iter N s) in
      if ts = [] then None else Some (Min (set ts)))"

definition iface_poll_delay :: "(('t, 'u) tun_socket \<Rightarrow> poll_at) \<Rightarrow> ('set, 't, 'u, 'tr) net \<Rightarrow> 'set \<Rightarrow> int \<Rightarrow> int option" where
  "iface_poll_delay at N s timestamp = (case iface_poll_at at N s of
      Some t \<Rightarrow> if timestamp < t then Some (t - timestamp) else Some 0
    | None \<Rightarrow> None)"

definition ipv4_address :: "interface_inner \<Rightarrow> ipv4 option" where
  "ipv4_address i = (case ip_addrs i of [] \<Rightarrow> None | a # _ \<Rightarrow> Some a)"

text \<open>Waiting for the delay misses no socket's deadline, and no delay is given only when no socket has one.\<close>

lemma poll_delay_in_time:
  assumes "(h, k) \<in> set (set_iter N s)" "at k = PollTime t" "timestamp \<le> t"
  shows "\<exists>d. iface_poll_delay at N s timestamp = Some d \<and> 0 \<le> d \<and> timestamp + d \<le> t"
proof -
  let ?ts = "List.map_filter (\<lambda>(_, k). case at k of PollNow \<Rightarrow> Some 0 | PollTime t \<Rightarrow> Some t | PollIngress \<Rightarrow> None) (set_iter N s)"
  have "t \<in> set ?ts" using assms(1,2) by (force simp: List.map_filter_def)
  then have "?ts \<noteq> []" "Min (set ?ts) \<le> t" by (metis empty_iff empty_set, simp)
  with assms(3) show ?thesis by (auto simp: iface_poll_delay_def iface_poll_at_def Let_def)
qed

subsection \<open>Writing to the device\<close>

definition tx_queue :: "('r \<Rightarrow> u8 list list) \<Rightarrow> ('r, 'set, 'w) tun_writer \<Rightarrow> u8 list list" where
  "tx_queue contents x = packets contents (tx (t_device (tw_tun x)))"

lemma vacate_tx_packets:
  assumes "ring_laws R contents capacity"
  shows "\<exists>d'. vacate_tx R d = (Ok (case packets contents (tx d) of [] \<Rightarrow> None | v # _ \<Rightarrow> Some v), d') \<and>
    packets contents (tx d') = tl (packets contents (tx d))"
  using deque_packets [OF assms, of "tx d"] by (auto simp: vacate_tx_def)

lemma packets_not_empty: "v \<in> set (packets contents r) \<Longrightarrow> v \<noteq> []"
  by (simp add: packets_def)

text \<open>Packets the device takes in full, one result of a write after the other.\<close>

definition takes_all :: "u8 list list \<Rightarrow> (error_kind + nat) list \<Rightarrow> bool" where
  "takes_all vs ws \<longleftrightarrow> map (\<lambda>v. Inr (length v)) vs = ws"

definition drained ::
  "('r \<Rightarrow> u8 list list) \<Rightarrow> ('r, 'set, 'w) tun_writer \<Rightarrow> unit poll outcome \<Rightarrow> ('r, 'set, 'w) tun_writer \<Rightarrow> bool" where
  "drained contents x r x' \<longleftrightarrow> (\<exists>out ws.
     written x' = written x @ out \<and> takes_all out ws \<and>
     (case r of
        Ok (Ready _) \<Rightarrow> tx_queue contents x = out \<and> tx_queue contents x' = [] \<and> writes x = ws @ writes x'
      | Ok Pending \<Rightarrow> (\<exists>lost. tx_queue contents x = out @ lost # tx_queue contents x') \<and> writes x = ws \<and> writes x' = []
      | Panic \<Rightarrow> (\<exists>v y. tx_queue contents x = out @ v # tx_queue contents x' \<and> writes x = ws @ y # writes x' \<and> y \<noteq> Inr (length v))
      | _ \<Rightarrow> False))"

lemma drained_step:
  assumes "drained contents x1 r x'" "tx_queue contents x = v # tx_queue contents x1"
    "writes x = Inr (length v) # writes x1" "written x1 = written x @ [v]"
  shows "drained contents x r x'"
proof -
  from assms(1) obtain out ws where "written x' = written x1 @ out" "takes_all out ws"
    "(case r of
        Ok (Ready _) \<Rightarrow> tx_queue contents x1 = out \<and> tx_queue contents x' = [] \<and> writes x1 = ws @ writes x'
      | Ok Pending \<Rightarrow> (\<exists>lost. tx_queue contents x1 = out @ lost # tx_queue contents x') \<and> writes x1 = ws \<and> writes x' = []
      | Panic \<Rightarrow> (\<exists>v y. tx_queue contents x1 = out @ v # tx_queue contents x' \<and> writes x1 = ws @ y # writes x' \<and> y \<noteq> Inr (length v))
      | _ \<Rightarrow> False)" unfolding drained_def by blast
  with assms(2-4) show ?thesis
    unfolding drained_def
    by (intro exI [of _ "v # out"] exI [of _ "Inr (length v) # ws"]) (auto simp: takes_all_def split: outcome.splits poll.splits)
qed

text \<open>C36: The task that writes to the device always comes to an end of a round.  The packets the device took
  are the first of the queued ones, in order and each once.  The round finishes only when all of them
  were written and the queue is empty; when the device would block, exactly the packet it refused is
  gone and the ones behind it stay queued; it panics only when the device took a packet in part or
  reported an error.\<close>

theorem device_written_in_order:
  assumes "ring_laws R contents capacity"
  shows "\<exists>r x'. drain_tx R x = Some (r, x') \<and> drained contents x r x'"
proof (induction "tx_queue contents x" arbitrary: x)
  case Nil
  from vacate_tx_packets [OF assms, of "t_device (tw_tun x)"] Nil obtain d where
    "vacate_tx R (t_device (tw_tun x)) = (Ok None, d)" "packets contents (tx d) = []"
    by (auto simp: tx_queue_def)
  with Nil show ?case
    by (subst drain_tx.simps) (auto simp: drained_def takes_all_def tx_queue_def Let_def)
next
  case (Cons v vs)
  from vacate_tx_packets [OF assms, of "t_device (tw_tun x)"] Cons.hyps(2) [symmetric] obtain d where
    d: "vacate_tx R (t_device (tw_tun x)) = (Ok (Some v), d)" "packets contents (tx d) = vs"
    by (auto simp: tx_queue_def)
  have v: "v \<noteq> []" using Cons.hyps(2) packets_not_empty by (metis list.set_intros(1) tx_queue_def)
  define x0 where "x0 = x\<lparr>tw_tun := (tw_tun x)\<lparr>t_device := d\<rparr>\<rparr>"
  have x0: "tx_queue contents x0 = vs" "writes x0 = writes x" "written x0 = written x"
    by (simp_all add: x0_def tx_queue_def d)
  show ?case
  proof (cases "writes x")
    case Nil
    with d v x0 Cons.hyps(2) [symmetric] show ?thesis
      by (subst drain_tx.simps) (auto simp: drained_def takes_all_def Let_def simp flip: x0_def)
  next
    case (Cons y ys)
    note writes = this
    show ?thesis
    proof (cases "y = Inr (length v)")
      case True
      let ?x1 = "x0\<lparr>writes := ys, written := written x @ [v]\<rparr>"
      have "tx_queue contents ?x1 = vs" using x0(1) by (simp add: tx_queue_def)
      from Cons.hyps(1) [OF this [symmetric]] obtain r x' where
        run: "drain_tx R ?x1 = Some (r, x')" "drained contents ?x1 r x'" by blast
      have "drained contents x r x'"
        by (rule drained_step [OF run(2), where v = v])
          (use True writes Cons.hyps(2) \<open>tx_queue contents ?x1 = vs\<close> in simp_all)
      moreover have "drain_tx R x = Some (r, x')"
        using run(1) d v True writes x0 by (subst drain_tx.simps) (simp add: Let_def flip: x0_def)
      ultimately show ?thesis by blast
    next
      case False
      with d v x0 writes Cons.hyps(2) [symmetric] show ?thesis
        by (subst drain_tx.simps) (auto simp: drained_def takes_all_def tx_queue_def Let_def simp flip: x0_def)
    qed
  qed
qed

declare drain_tx.simps [code]

text \<open>Three packets behind an empty slot, and a device that takes one of them: the second is lost.\<close>

definition sample_writer ::
  "(u8 list list \<times> nat, (plain_socket, plain_socket) tun_socket list, nat) tun_writer" where
  "sample_writer = (let t = plain_tun [] [] Map.empty Map.empty in
     \<lparr>tw_tun = t\<lparr>t_device := (t_device t)\<lparr>tx := ([[], [1, 2], [3], [4]], MAX_PACKETS)\<rparr>\<rparr>, writes = [Inr 2], written = []\<rparr>)"

theorem device_written_in_order_witness:
  "\<exists>x'. drain_tx list_ring sample_writer = Some (Ok Pending, x') \<and> drained fst sample_writer (Ok Pending) x' \<and>
    written x' = [[1, 2]] \<and> tx_queue fst x' = [[4]]"
proof -
  obtain r x' where run: "drain_tx list_ring sample_writer = Some (r, x')" "drained fst sample_writer r x'"
    using device_written_in_order [OF list_ring_laws, of sample_writer] by blast
  have "fst (the (drain_tx list_ring sample_writer)) = Ok Pending"
    "written (snd (the (drain_tx list_ring sample_writer))) = [[1, 2]]"
    "tx_queue fst (snd (the (drain_tx list_ring sample_writer))) = [[4]]"
    by code_simp+
  with run show ?thesis by auto
qed

end
