(* ===== verification/Seeker_Program.thy ===== *)
theory Seeker_Program
  imports Seeker_Main Tun_Phy
begin

text \<open>
  The whole run of the program, \<^verbatim>\<open>seeker/src/main.rs\<close>, on Linux: the configuration file of
  \<^verbatim>\<open>config/src/lib.rs\<close>, the settings it changes and the guards that set them back, and the connections it
  handles in between.  Parsing YAML, opening files, the log and the registration of signals are
  arguments.  A guard is dropped in the reverse order of its creation, also while a panic unwinds the
  stack; a panic in a guard that is dropped while unwinding aborts the program at once.
\<close>

subsection \<open>The configuration file\<close>

definition cidr_deserialize :: "'c cidr_ops \<Rightarrow> string outcome \<Rightarrow> 'c outcome" where
  "cidr_deserialize ops s = chain s (parse_cidr ops)"

definition duration_deserialize :: "(string \<Rightarrow> bool) \<Rightarrow> string outcome \<Rightarrow> duration outcome" where
  "duration_deserialize is_numeric s = chain s (parse_duration is_numeric)"

definition from_config_file :: "(string \<Rightarrow> u8 list option) \<Rightarrow> (u8 list \<Rightarrow> 'c config option) \<Rightarrow> string \<Rightarrow> 'c config outcome" where
  "from_config_file open_file yaml path = chain (unwrap (open_file path)) (\<lambda>file. unwrap (yaml file))"

subsection \<open>Guards\<close>

text \<open>The outcome of a block, whether the program was aborted, and the state.  A guard is not dropped by a
  block that never ends.\<close>

definition dropping :: "('s, unit) rust \<Rightarrow> 'a outcome \<times> bool \<times> 's \<Rightarrow> 'a outcome \<times> bool \<times> 's" where
  "dropping m = (\<lambda>(r, aborted, s).
     if aborted \<or> r = Diverge then (r, aborted, s)
     else (case m s of
         (Panic, s') \<Rightarrow> (Panic, r = Panic, s')
       | (Diverge, s') \<Rightarrow> (Diverge, False, s')
       | (_, s') \<Rightarrow> (r, False, s')))"

definition on_world :: "('w, 'a) rust \<Rightarrow> ('w \<times> 'f, 'a) rust" where
  "on_world m = (\<lambda>(w, f). case m w of (r, w') \<Rightarrow> (r, (w', f)))"

definition on_file :: "('f, 'a) rust \<Rightarrow> ('w \<times> 'f, 'a) rust" where
  "on_file m = (\<lambda>(w, f). case m f of (r, f') \<Rightarrow> (r, (w, f')))"

text \<open>Creating a value whose drop is \<open>release\<close>, then running the rest of the block.\<close>

definition guarded ::
  "('s, 'g) rust \<Rightarrow> ('g \<Rightarrow> ('s, unit) rust) \<Rightarrow> ('s \<Rightarrow> 'a outcome \<times> bool \<times> 's) \<Rightarrow> 's \<Rightarrow> 'a outcome \<times> bool \<times> 's" where
  "guarded create release rest s = (case create s of
      (Ok g, s') \<Rightarrow> dropping (release g) (rest s')
    | (Err e, s') \<Rightarrow> (Err e, False, s')
    | (Panic, s') \<Rightarrow> (Panic, False, s')
    | (Diverge, s') \<Rightarrow> (Diverge, False, s'))"

definition gateway_guard :: "'w exec \<Rightarrow> string \<Rightarrow> bool \<Rightarrow> ('w, ip_forward option) rust" where
  "gateway_guard exec key gateway =
     (if gateway then bind (IpForward_new exec key) (\<lambda>f. return (Some f)) else return None)"

definition gateway_release :: "'w exec \<Rightarrow> string \<Rightarrow> ip_forward option \<Rightarrow> ('w, unit) rust" where
  "gateway_release exec key g = (case g of Some f \<Rightarrow> IpForward_drop exec key f | None \<Rightarrow> return ())"

text \<open>The block of \<^verbatim>\<open>main\<close> in which the settings are changed, over the system and the resolver's file.\<close>

definition with_settings ::
  "'w exec \<Rightarrow> string \<Rightarrow> bool \<Rightarrow> bool \<Rightarrow> ('w \<times> u8 list option, 'a) rust \<Rightarrow> 'w \<times> u8 list option \<Rightarrow>
    'a outcome \<times> bool \<times> 'w \<times> u8 list option" where
  "with_settings exec key logged gateway body =
     guarded (on_file (DNSSetup_new_linux logged)) (\<lambda>d. on_file (DNSSetup_drop_linux d))
    (guarded (on_world (gateway_guard exec key gateway)) (\<lambda>g. on_world (gateway_release exec key g))
      (\<lambda>s. case body s of (r, s') \<Rightarrow> (r, False, s')))"

subsection \<open>The program\<close>

text \<open>The sockets of the tunnel as they come, and what happens to the settings meanwhile; a list of
  sockets that is used up is a program that still runs.\<close>

definition handle_connections ::
  "'d kv \<Rightarrow> 'd \<Rightarrow> string option \<Rightarrow> 'c config \<Rightarrow> next_socket list \<Rightarrow> ('s \<Rightarrow> 's) \<Rightarrow> ('s, unit) rust" where
  "handle_connections kv store hosts_file conf events meanwhile = (\<lambda>s.
     case create_dns_server kv store hosts_file (dns_listen conf) (dns_start_ip conf) of
       Ok _ \<Rightarrow> (case snd (accept_loop events) of Some r \<Rightarrow> (r, meanwhile s) | None \<Rightarrow> (Diverge, meanwhile s))
     | Err e \<Rightarrow> (Err e, s)
     | Panic \<Rightarrow> (Panic, s)
     | Diverge \<Rightarrow> (Diverge, s))"

definition start_and_serve ::
  "v6_ops \<Rightarrow> u32 option \<Rightarrow> 'c config \<Rightarrow> ('c config \<Rightarrow> ('s, unit) rust) \<Rightarrow> ('s, unit) rust" where
  "start_and_serve ops uid conf serving =
     andthen (lifted (RuledClient_new ops conf uid)) (serving conf)"

definition main_linux ::
  "v6_ops \<Rightarrow> string option \<Rightarrow> unit outcome \<Rightarrow> 'c config outcome \<Rightarrow> unit outcome \<Rightarrow>
    ('c config \<Rightarrow> (fd set \<times> 'w \<times> 't, unit) rust) \<Rightarrow> 'w exec \<Rightarrow> string \<Rightarrow> bool \<Rightarrow>
    ('c config \<Rightarrow> ('w \<times> u8 list option, unit) rust) \<Rightarrow>
    fd set \<times> 'w \<times> 't \<times> u8 list option \<Rightarrow> unit outcome \<times> bool \<times> fd set \<times> 'w \<times> 't \<times> u8 list option" where
  "main_linux ops uid_arg logging config handlers set_up exec key logged serving = (\<lambda>(fds, w, t, resolv).
     case chain (parse_uid uid_arg) (\<lambda>uid. chain logging (\<lambda>_. chain config (\<lambda>conf. chain handlers (\<lambda>_. Ok (uid, conf))))) of
       Ok (uid, conf) \<Rightarrow>
         (case set_up conf (fds, w, t) of
            (Ok _, (fds', w', t')) \<Rightarrow>
              (case with_settings exec key logged (gateway_mode conf)
                  (start_and_serve ops uid (gateway_config conf) serving) (w', resolv) of
                 (r, aborted, w'', resolv') \<Rightarrow> (r, aborted, fds', w'', t', resolv'))
          | (Err e, (fds', w', t')) \<Rightarrow> (Err e, False, fds', w', t', resolv)
          | (Panic, (fds', w', t')) \<Rightarrow> (Panic, False, fds', w', t', resolv)
          | (Diverge, (fds', w', t')) \<Rightarrow> (Diverge, False, fds', w', t', resolv))
     | Err e \<Rightarrow> (Err e, False, fds, w, t, resolv)
     | Panic \<Rightarrow> (Panic, False, fds, w, t, resolv)
     | Diverge \<Rightarrow> (Diverge, False, fds, w, t, resolv))"

text \<open>\<^verbatim>\<open>Tun::setup\<close> with the arguments \<^verbatim>\<open>main\<close> gives it.\<close>

record 'c linux_calls =
  opened :: "error_kind + fd"
  tun_ioctl :: "u8 list \<Rightarrow> error_kind option"
  nonblock_err :: "error_kind option"
  mtu_sock :: "error_kind + fd"
  mtu_ioctl :: "u8 list \<Rightarrow> error_kind + nat"
  blocks :: "'c block_ops"

definition linux_set_up ::
  "'c linux_calls \<Rightarrow> 'w exec \<Rightarrow> 'r ring_ops \<Rightarrow> bool \<Rightarrow> 'set \<Rightarrow> 'c config \<Rightarrow>
    (fd set \<times> 'w \<times> ('r, 'set, 'k) tun option, unit) rust" where
  "linux_set_up L exec R locked empty_set conf =
     setup_tunnel (blocks L) exec False
       (phy_new_linux (tun_name conf) (opened L) (tun_ioctl L) (nonblock_err L) (mtu_sock L) (mtu_ioctl L))
       R locked (tun_ip conf) (tun_cidr conf) empty_set"

subsection \<open>Settings are set back\<close>

lemma run_cmd_keeps:
  assumes "\<And>args w. setting (snd (exec cmd args w)) = setting w" "run_cmd exec cmd args w = (r, w')"
  shows "setting w' = setting w"
  using assms(1) [of args w] assms(2) by (auto simp: run_cmd_def split: prod.splits sum.splits)

lemma device_ip_keeps:
  assumes ip: "\<And>args w. setting (snd (exec ''ip'' args w)) = setting w"
    and run: "setup_device_ip B exec False nm tip c w = (r, w')"
  shows "setting w' = setting w"
proof (cases "from_netmask B tip c")
  case None
  with run show ?thesis by (simp add: setup_device_ip_def bind_def)
next
  case (Some ip')
  note cmd = run_cmd_keeps [where setting = setting and exec = exec, OF ip]
  let ?add = "[''addr'', ''add'', show_block B ip', ''dev'', nm]"
  obtain r1 w1 where c1: "run_cmd exec ''ip'' ?add w = (r1, w1)" by fastforce
  obtain r2 w2 where c2: "run_cmd exec ''ip'' [''link'', ''set'', nm, ''up''] w1 = (r2, w2)" by fastforce
  have "w' = w1 \<or> w' = w2"
    using run c1 c2 Some by (cases r1; cases r2) (simp_all add: setup_device_ip_def setup_ip_linux_def bind_def)
  with cmd [OF c1] cmd [OF c2] show ?thesis by auto
qed

lemma set_up_keeps:
  assumes ip: "\<And>args w. setting (snd (exec ''ip'' args w)) = setting w"
    and run: "linux_set_up L exec R locked empty_set conf (fds, w, t) = (r, (fds', w', t'))"
  shows "setting w' = setting w"
proof -
  obtain q fds1 where dev: "phy_new_linux (tun_name conf) (opened L) (tun_ioctl L) (nonblock_err L) (mtu_sock L) (mtu_ioctl L) fds =
    (q, fds1)" by fastforce
  show ?thesis
  proof (cases q)
    case (Ok tun)
    obtain r1 w1 where "setup_device_ip (blocks L) exec False (phy_name tun) (tun_ip conf) (tun_cidr conf) w = (r1, w1)" by fastforce
    moreover from this have "setting w1 = setting w" by (rule device_ip_keeps [where setting = setting and exec = exec, OF ip])
    ultimately show ?thesis
      using run by (cases r1) (auto simp: linux_set_up_def setup_tunnel_def dev Ok split: prod.splits)
  qed (use run in \<open>auto simp: linux_set_up_def setup_tunnel_def dev\<close>)
qed

lemma forwarding_guard:
  assumes "sysctl_laws exec key setting" "setting w < 2 ^ 64"
  shows "\<exists>g w'. gateway_guard exec key gateway w = (Ok g, w') \<and>
    (\<forall>v. \<exists>v'. gateway_release exec key g v = (Ok (), v') \<and> (gateway \<longrightarrow> setting v' = setting w))"
proof (cases gateway)
  case True
  from ip_forward_restored [OF assms] obtain f w' where
    "IpForward_new exec key w = (Ok f, w')" "\<forall>v. \<exists>v'. IpForward_drop exec key f v = (Ok (), v') \<and> setting v' = setting w" by blast
  with True show ?thesis by (auto simp: gateway_guard_def gateway_release_def bind_def intro!: exI [of _ "Some f"])
qed (auto simp: gateway_guard_def gateway_release_def intro!: exI [of _ None])

text \<open>A block that ends leaves the settings as they were, whatever its outcome, if it does not touch the
  resolver's file.\<close>

lemma with_settings_runs:
  assumes laws: "sysctl_laws exec key setting" "setting w < 2 ^ 64" and old: "length NAMESERVER \<le> length old"
    and keeps: "\<And>s. snd (snd (body s)) = snd s" and valid: "\<not> (logged \<and> from_utf8 old = None)"
  shows "\<exists>w1 w2 w3. with_settings exec key logged gateway body (w, Some old) =
      (let r = fst (body (w1, Some NAMESERVER)) in
       if r = Diverge then (r, False, w2, Some NAMESERVER) else (r, False, w3, Some old)) \<and>
    (gateway \<longrightarrow> setting w3 = setting w)"
proof -
  have new: "DNSSetup_new_linux logged (Some old) = (Ok \<lparr>original = old\<rparr>, Some NAMESERVER)"
    using valid by (auto simp: DNSSetup_new_linux_def write_over_def)
  have drop: "DNSSetup_drop_linux \<lparr>original = old\<rparr> (Some NAMESERVER) = (Ok (), Some old)"
    using old by (simp add: DNSSetup_drop_linux_def write_over_def)
  from forwarding_guard [OF laws, of gateway] obtain g w1 where
    g: "gateway_guard exec key gateway w = (Ok g, w1)"
      "\<And>v. \<exists>v'. gateway_release exec key g v = (Ok (), v') \<and> (gateway \<longrightarrow> setting v' = setting w)" by blast
  obtain r1 w2 f2 where body: "body (w1, Some NAMESERVER) = (r1, (w2, f2))" by (metis prod.exhaust)
  have f2: "f2 = Some NAMESERVER" using keeps [of "(w1, Some NAMESERVER)"] body by simp
  from g(2) [of w2] obtain w3 where w3: "gateway_release exec key g w2 = (Ok (), w3)" "gateway \<longrightarrow> setting w3 = setting w" by blast
  show ?thesis
    by (intro exI [of _ w1] exI [of _ w2] exI [of _ w3])
      (simp add: with_settings_def guarded_def on_file_def on_world_def new g(1) body f2 w3 drop dropping_def)
qed

lemma with_settings_restored:
  assumes laws: "sysctl_laws exec key setting" "setting w < 2 ^ 64" and old: "length NAMESERVER \<le> length old"
    and keeps: "\<And>s. snd (snd (body s)) = snd s"
    and run: "with_settings exec key logged gateway body (w, Some old) = (r, aborted, w', resolv')" and ends: "r \<noteq> Diverge"
  shows "resolv' = Some old \<and> \<not> aborted \<and> (gateway \<longrightarrow> setting w' = setting w)"
proof (cases "logged \<and> from_utf8 old = None")
  case True
  with run show ?thesis
    by (auto simp: with_settings_def guarded_def on_file_def DNSSetup_new_linux_def)
next
  case False
  from with_settings_runs [OF laws old keeps False, of gateway] run ends show ?thesis
    by (auto simp: Let_def split: if_splits)
qed

lemma serving_keeps_file:
  assumes "\<And>s. snd (meanwhile s) = snd s"
  shows "snd (snd (start_and_serve ops uid conf (\<lambda>c. handle_connections kv store hosts_file c events meanwhile) s)) = snd s"
  using assms by (auto simp: start_and_serve_def handle_connections_def bind_def split: prod.splits outcome.splits option.splits)


text \<open>A system with one key that the commands for addresses leave alone, and a run in gateway mode that
  panics on an error of the stream of sockets after somebody set forwarding to 5.\<close>

definition small_system :: "nat exec" where
  "small_system cmd args n =
     (if cmd = ''ip'' then (Inr \<lparr>success = True, stdout = [], stderr = []\<rparr>, n) else one_key cmd args n)"

lemma small_system_laws: "sysctl_laws small_system ''k'' (\<lambda>n. n)"
  using one_key_laws by (simp add: sysctl_laws_def small_system_def)

definition sample_calls :: "ipv4 linux_calls" where
  "sample_calls = \<lparr>opened = Inr 3, tun_ioctl = \<lambda>_. None, nonblock_err = None, mtu_sock = Inr 4, mtu_ioctl = \<lambda>_. Inr 2,
     blocks = \<lparr>show_block = show_ipv4, block_addr = \<lambda>a. a, from_netmask = \<lambda>a _. Some a\<rparr>\<rparr>"

definition old_resolv :: "u8 list" where
  "old_resolv = as_bytes ''nameserver 192.168.1.1''"

type_synonym plain_tunnel = "(u8 list list \<times> nat, (plain_socket, plain_socket) tun_socket list, nat) tun"

definition sample_run ::
  "unit outcome \<times> bool \<times> fd set \<times> nat \<times> plain_tunnel option \<times> u8 list option" where
  "sample_run = main_linux demo_v6 None (Ok ()) (Ok ((demo_config (Ipv4Addr 11 0 0 0))\<lparr>gateway_mode := True\<rparr>)) (Ok ())
     (linux_set_up sample_calls small_system list_ring True []) small_system ''k'' False
     (\<lambda>c. handle_connections map_kv Map.empty (Some []) c [Next_Socket (Handle_Tcp 0), Stream_Failed Other False] (\<lambda>(n, f). (5, f)))
     ({}, 0, None, Some old_resolv)"

lemma sample_set_up:
  "\<exists>t. linux_set_up sample_calls small_system list_ring True [] ((demo_config (Ipv4Addr 11 0 0 0))\<lparr>gateway_mode := True\<rparr>)
     ({}, 0, None :: plain_tunnel option) = (Ok (), ({3}, 0, Some t))"
  by (simp add: linux_set_up_def setup_tunnel_def sample_calls_def demo_config_def phy_new_linux_def phy_new_def expecting_def owning_def
      TunSocket_new_linux_def set_non_blocking_def linux_name_def linux_mtu_def device_mtu_def IFNAMSIZ_def ifr_name_def
      setup_device_ip_def setup_ip_linux_def run_cmd_def small_system_def Tun_setup_def bind_def from_utf8_def utf8_valid.simps)

lemma sample_serving:
  "fst (with_settings small_system ''k'' False True
      (start_and_serve demo_v6 uid (gateway_config ((demo_config (Ipv4Addr 11 0 0 0))\<lparr>gateway_mode := True\<rparr>))
        (\<lambda>c. handle_connections map_kv Map.empty (Some []) c [Next_Socket (Handle_Tcp 0), Stream_Failed Other False] (\<lambda>(n, f). (5, f))))
      (0, Some old_resolv)) = Panic" (is "fst (with_settings _ _ _ _ ?body _) = _")
proof -
  have old: "length NAMESERVER \<le> length old_resolv" by code_simp
  have "fst (handle_connections map_kv Map.empty (Some []) c [Next_Socket (Handle_Tcp 0), Stream_Failed Other False]
      (\<lambda>(n, f). (5, f)) s) = Panic" for c :: "ipv4 config" and s :: "nat \<times> u8 list option"
    by (simp add: handle_connections_def create_dns_server_def Inner_new_def map_kv_def Hosts_load_def)
  moreover have "\<exists>c. RuledClient_new demo_v6 (gateway_config ((demo_config (Ipv4Addr 11 0 0 0))\<lparr>gateway_mode := True\<rparr>)) uid = Ok c"
    by (simp add: RuledClient_new_def new_ssclient_def demo_config_def gateway_config_def)
  ultimately have "fst (?body s) = Panic" for s
    by (cases s) (auto simp: start_and_serve_def bind_def)
  moreover have "snd (snd (?body s)) = snd s" for s by (rule serving_keeps_file) (simp add: split_beta)
  ultimately show ?thesis
    using with_settings_runs [OF small_system_laws _ old, of 0 ?body False True] by (auto simp: Let_def)
qed

lemma sample_run_panics: "fst sample_run = Panic"
proof -
  let ?conf = "(demo_config (Ipv4Addr 11 0 0 0))\<lparr>gateway_mode := True\<rparr>"
  have args: "parse_uid None = Ok None" by (simp add: parse_uid_def)
  have mode: "gateway_mode ?conf" by simp
  obtain t where "linux_set_up sample_calls small_system list_ring True [] ?conf ({}, 0, None :: plain_tunnel option) = (Ok (), ({3}, 0, Some t))"
    using sample_set_up by blast
  then show ?thesis
    using sample_serving [of None] unfolding sample_run_def main_linux_def
    by (simp add: args mode split_beta del: config.simps)
qed


end
