(* ===== verification/Dns_Typed.thy ===== *)
theory Dns_Typed
  imports Dns_Protocol
begin

text \<open>
  What the reader of \<^verbatim>\<open>hermes/hermesdns/src/dns/protocol.rs\<close> guarantees of a packet it accepts,
  whatever bytes it was given.  A packet is well-typed when its header counts its sections, its
  operation code is within four bits, its types are the ones their numbers stand for, and each of
  its names is made of labels of 1 to 63 bytes in lower case.  The interface \<open>total_reader\<close> states
  what the proof needs of a buffer: its operations keep the buffer well-formed, never panic, and
  a range has the length asked for.  The array and the stream provide it.
\<close>

subsection \<open>Partial correctness of a computation\<close>

text \<open>Started in a good state the computation ends in one, does not panic, and a value it returns
  has the property.\<close>

definition delivers :: "('s \<Rightarrow> bool) \<Rightarrow> ('s, 'a) rust \<Rightarrow> ('a \<Rightarrow> bool) \<Rightarrow> bool" where
  "delivers ok m P \<longleftrightarrow> (\<forall>s. ok s \<longrightarrow> ok (snd (m s)) \<and> fst (m s) \<noteq> Panic \<and> (\<forall>x. fst (m s) = Ok x \<longrightarrow> P x))"

lemma deliversI:
  "(\<And>s r s'. ok s \<Longrightarrow> m s = (r, s') \<Longrightarrow> ok s' \<and> r \<noteq> Panic \<and> (\<forall>x. r = Ok x \<longrightarrow> P x)) \<Longrightarrow> delivers ok m P"
  unfolding delivers_def by (metis surjective_pairing)

lemma deliversD:
  "delivers ok m P \<Longrightarrow> ok s \<Longrightarrow> m s = (r, s') \<Longrightarrow> ok s' \<and> r \<noteq> Panic \<and> (\<forall>x. r = Ok x \<longrightarrow> P x)"
  by (metis delivers_def fst_conv snd_conv)

lemma delivers_return: "P x \<Longrightarrow> delivers ok (return x) P"
  by (simp add: delivers_def)

lemma delivers_bind:
  assumes "delivers ok m P" and "\<And>x. P x \<Longrightarrow> delivers ok (f x) Q"
  shows "delivers ok (bind m f) Q"
proof (rule deliversI)
  fix s r s'
  assume "ok s" "bind m f s = (r, s')"
  moreover obtain r1 s1 where "m s = (r1, s1)" by fastforce
  ultimately show "ok s' \<and> r \<noteq> Panic \<and> (\<forall>x. r = Ok x \<longrightarrow> Q x)"
    using deliversD [OF assms(1), of s r1 s1] deliversD [OF assms(2), of _ s1 r s'] by (cases r1) auto
qed

lemma delivers_weaken: "delivers ok m P \<Longrightarrow> (\<And>x. P x \<Longrightarrow> Q x) \<Longrightarrow> delivers ok m Q"
  by (auto simp: delivers_def)

lemma delivers_repeat:
  assumes "delivers ok m P"
  shows "delivers ok (repeat n m) (\<lambda>xs. length xs = n \<and> list_all P xs)"
proof (induction n)
  case 0
  then show ?case by (simp add: delivers_def)
next
  case (Suc n)
  show ?case unfolding repeat.simps
    by (rule delivers_bind [OF assms]) (rule delivers_bind [OF Suc], rule delivers_return, simp)
qed

subsection \<open>Well-typed packets\<close>

definition short_label :: "u8 list \<Rightarrow> bool" where
  "short_label l \<longleftrightarrow> 0 < length l \<and> length l < 64"

definition wire_name :: "(string \<Rightarrow> string) \<Rightarrow> string \<Rightarrow> bool" where
  "wire_name lc nm \<longleftrightarrow> (\<exists>ls. list_all short_label ls \<and> nm = join ''.'' (map (lc \<circ> from_utf8_lossy) ls))"

definition known_type :: "query_type \<Rightarrow> bool" where
  "known_type t \<longleftrightarrow> from_num (to_num t) = t"

definition question_typed :: "(string \<Rightarrow> string) \<Rightarrow> dns_question \<Rightarrow> bool" where
  "question_typed lc q \<longleftrightarrow> wire_name lc (q_name q) \<and> known_type (q_type q)"

fun record_names :: "dns_record \<Rightarrow> string list" where
  "record_names (UNKNOWN d _ _ _) = [d]"
| "record_names (A d _ _) = [d]"
| "record_names (NS d h _) = [d, h]"
| "record_names (CNAME d h _) = [d, h]"
| "record_names (SOA d m r _ _ _ _ _ _) = [d, m, r]"
| "record_names (MX d _ h _) = [d, h]"
| "record_names (TXT d _ _) = [d]"
| "record_names (AAAA d _ _) = [d]"
| "record_names (SRV d _ _ _ h _) = [d, h]"
| "record_names (OPT _ _ _) = []"

definition record_typed :: "(string \<Rightarrow> string) \<Rightarrow> dns_record \<Rightarrow> bool" where
  "record_typed lc r \<longleftrightarrow> list_all (wire_name lc) (record_names r) \<and> known_type (get_querytype r)"

definition packet_typed :: "(string \<Rightarrow> string) \<Rightarrow> dns_packet \<Rightarrow> bool" where
  "packet_typed lc p \<longleftrightarrow>
     unat (opcode (header p)) < 16 \<and>
     length (questions p) = unat (h_questions (header p)) \<and>
     length (answers p) = unat (h_answers (header p)) \<and>
     length (authorities p) = unat (h_authoritative_entries (header p)) \<and>
     length (resources p) = unat (h_resource_entries (header p)) \<and>
     list_all (question_typed lc) (questions p) \<and>
     list_all (record_typed lc) (answers p @ authorities p @ resources p)"

lemma known_type_from_num: "known_type (from_num n)"
  by (simp add: known_type_def from_num_def)

lemma wire_name_snoc:
  assumes "list_all short_label ls" "short_label l" "delim = (if ls = [] then [] else ''.'')"
  shows "list_all short_label (ls @ [l]) \<and>
    join ''.'' (map (lc \<circ> from_utf8_lossy) ls) @ delim @ lc (from_utf8_lossy l) =
    join ''.'' (map (lc \<circ> from_utf8_lossy) (ls @ [l]))"
proof -
  have snoc: "join ''.'' (ws @ [w]) = join ''.'' ws @ (if ws = [] then [] else ''.'') @ w" for ws w
    by (induction ws) (auto simp: join_Cons)
  show ?thesis using assms snoc by auto
qed

lemma small_length_byte:
  assumes "(b :: u8) AND 0xC0 = 0"
  shows "unat b < 64"
proof -
  have "bit (b AND 0xC0) 6 = bit b 6" "bit (b AND 0xC0) 7 = bit b 7"
    by (simp_all add: bit_and_iff bit_numeral_rec)
  with assms have "\<not> bit b 6" "\<not> bit b 7" by simp_all
  have "n < 6" if "bit b n" for n
  proof -
    have "n < 8" using bit_imp_le_length [OF that] by simp
    moreover have "n \<noteq> 6" "n \<noteq> 7" using that \<open>\<not> bit b 6\<close> \<open>\<not> bit b 7\<close> by metis+
    ultimately show ?thesis by linarith
  qed
  then have "take_bit 6 b = b" by (intro bit_word_eqI) (auto simp: bit_take_bit_iff)
  then have "unat b = take_bit 6 (unat b)" by (metis unsigned_take_bit_eq)
  then show ?thesis using take_bit_nat_less_exp [of 6 "unat b"] by simp
qed

subsection \<open>Reading\<close>

locale total_reader =
  fixes ops :: "'s buffer_ops" and ok :: "'s \<Rightarrow> bool"
  assumes read_total: "delivers ok (b_read ops) (\<lambda>_. True)"
    and get_total: "delivers ok (b_get ops pos) (\<lambda>_. True)"
    and range_total: "delivers ok (b_get_range ops start len) (\<lambda>bs. length bs = len)"
    and seek_total: "delivers ok (b_seek ops pos) (\<lambda>_. True)"
    and step_total: "delivers ok (b_step ops n) (\<lambda>_. True)"
begin

lemma read_u16_total: "delivers ok (read_u16 ops) (\<lambda>_. True)"
  unfolding read_u16_def by (intro delivers_bind [OF read_total] delivers_return TrueI)

lemma read_u32_total: "delivers ok (read_u32 ops) (\<lambda>_. True)"
  unfolding read_u32_def by (intro delivers_bind [OF read_total] delivers_return TrueI)

lemma read_range_total: "delivers ok (read_range ops n) (\<lambda>_. True)"
proof (rule deliversI)
  fix s r s'
  assume "ok s" "read_range ops n s = (r, s')"
  moreover have "delivers ok (bind (b_get_range ops (b_pos ops s) (unat n)) (\<lambda>bs.
      andthen (b_step ops (unat n)) (return (from_utf8_lossy bs)))) (\<lambda>_. True)"
    by (intro delivers_bind [OF range_total] delivers_bind [OF step_total] delivers_return TrueI)
  ultimately show "ok s' \<and> r \<noteq> Panic \<and> (\<forall>x. r = Ok x \<longrightarrow> True)"
    unfolding read_range_def using deliversD by fast
qed

text \<open>What the loop over a name has read so far.\<close>

definition name_so_far :: "(string \<Rightarrow> string) \<Rightarrow> string \<Rightarrow> string \<Rightarrow> bool" where
  "name_so_far lc delim out \<longleftrightarrow> (\<exists>ls. list_all short_label ls \<and>
     out = join ''.'' (map (lc \<circ> from_utf8_lossy) ls) \<and> delim = (if ls = [] then [] else ''.''))"

lemma name_so_far_label:
  "name_so_far lc delim out \<Longrightarrow> short_label l \<Longrightarrow> name_so_far lc ''.'' (out @ delim @ lc (from_utf8_lossy l))"
  unfolding name_so_far_def by (metis wire_name_snoc snoc_eq_iff_butlast)

definition loop_typed :: "(string \<Rightarrow> string) \<Rightarrow> (nat \<times> bool \<times> string) outcome \<times> 's \<Rightarrow> bool" where
  "loop_typed lc y \<longleftrightarrow> ok (snd y) \<and> fst y \<noteq> Panic \<and> (\<forall>p j nm. fst y = Ok (p, j, nm) \<longrightarrow> wire_name lc nm)"

lemma loop_typed_simps [simp]:
  "loop_typed lc (Err e, s) \<longleftrightarrow> ok s" "loop_typed lc (Diverge, s) \<longleftrightarrow> ok s" "\<not> loop_typed lc (Panic, s)"
  "loop_typed lc (Ok (p, j, nm), s) \<longleftrightarrow> ok s \<and> wire_name lc nm"
  by (simp_all add: loop_typed_def)

lemma name_read_so_far: "name_so_far lc delim out \<Longrightarrow> wire_name lc out"
  by (auto simp: name_so_far_def wire_name_def)

lemma short_range: "\<not> 0 < len AND 0xC0 \<Longrightarrow> len \<noteq> 0 \<Longrightarrow> length bs = unat len \<Longrightarrow> short_label bs" for len :: u8
  using small_length_byte [of len] by (metis short_label_def unat_gt_0 word_gt_0)

lemma step_typed:
  assumes "(case m s of
        (Err e, s1) \<Rightarrow> Some (Err e, s1)
      | (Panic, s1) \<Rightarrow> Some (Panic, s1)
      | (Diverge, s1) \<Rightarrow> Some (Diverge, s1)
      | (Ok x, s1) \<Rightarrow> f x s1) = Some y"
    and "delivers ok m P" "ok s" and "\<And>x s1. f x s1 = Some y \<Longrightarrow> P x \<Longrightarrow> ok s1 \<Longrightarrow> loop_typed lc y"
  shows "loop_typed lc y"
proof -
  obtain r s1 where "m s = (r, s1)" by fastforce
  with assms deliversD [OF assms(2,3)] show ?thesis by (cases r) auto
qed

lemma seek_unless: "delivers ok (\<lambda>s. if jumped then (Ok (), s) else b_seek ops pos s) (\<lambda>_. True)"
  using seek_total by (simp add: delivers_def)

lemma read_loop_typed:
  assumes "read_qname_loop ops lc pos jumped delim out s = Some y" "ok s" "name_so_far lc delim out"
  shows "loop_typed lc y"
proof -
  have "ops = ops \<longrightarrow> ok s \<longrightarrow> name_so_far lc delim out \<longrightarrow> loop_typed lc y"
    apply (rule read_qname_loop.raw_induct [where P = "\<lambda>ops' lc pos jumped delim out s y.
      ops' = ops \<longrightarrow> ok s \<longrightarrow> name_so_far lc delim out \<longrightarrow> loop_typed lc y", OF _ assms(1)])
    apply (intro impI, hypsubst)
    apply (erule step_typed [OF _ get_total], assumption)
    apply (split if_split_asm)
     apply (erule step_typed [OF _ seek_unless], assumption)
     apply (erule step_typed [OF _ get_total], assumption, blast)
    apply (split if_split_asm)
     apply (force intro: name_read_so_far)
    apply (erule step_typed [OF _ range_total], assumption)
    apply (blast intro: name_so_far_label short_range)
    done
  with assms show ?thesis by blast
qed

lemma read_qname_typed: "delivers ok (read_qname ops lc []) (wire_name lc)"
proof (rule deliversI)
  fix s r s'
  assume s: "ok s" and read: "read_qname ops lc [] s = (r, s')"
  have start: "name_so_far lc [] []"
    unfolding name_so_far_def by (rule exI [of _ "[]"]) simp
  show "ok s' \<and> r \<noteq> Panic \<and> (\<forall>x. r = Ok x \<longrightarrow> wire_name lc x)"
  proof (cases "read_qname_loop ops lc (b_pos ops s) False [] [] s")
    case None
    with s read show ?thesis by (simp add: read_qname_def)
  next
    case (Some y)
    obtain r1 s1 where y: "y = (r1, s1)" by fastforce
    have typed: "loop_typed lc (r1, s1)"
      using read_loop_typed [OF Some s start] by (simp add: y)
    show ?thesis
    proof (cases r1)
      case (Ok z)
      obtain pos jumped nm where z: "z = (pos, jumped, nm)" by (cases z)
      have nm: "ok s1" "wire_name lc nm" using typed by (simp_all add: Ok z)
      then have "delivers ok (andthen (b_seek ops pos) (return nm)) (wire_name lc)"
        by (intro delivers_bind [OF seek_total] delivers_return)
      then show ?thesis
        using read nm deliversD by (fastforce simp: read_qname_def Some y Ok z split: if_splits)
    qed (use typed read in \<open>auto simp: read_qname_def Some y\<close>)
  qed
qed

lemmas fields_typed = delivers_bind [OF read_qname_typed] delivers_bind [OF read_u16_total]
  delivers_bind [OF read_u32_total] delivers_bind [OF read_range_total] delivers_bind [OF step_total]
  delivers_return

lemma read_rdata_typed:
  assumes "wire_name lc domain"
  shows "delivers ok (read_rdata ops lc domain n class ttl len) (record_typed lc)"
proof (cases "from_num n")
  case (QT_UNKNOWN m)
  moreover from this have "n = m" by (auto simp: from_num_def split: if_splits)
  ultimately show ?thesis
    using assms known_type_from_num [of n] unfolding read_rdata_def
    by (auto intro!: fields_typed simp: record_typed_def)
qed (use assms in \<open>auto intro!: fields_typed simp: read_rdata_def record_typed_def known_type_def from_num_def\<close>)

lemma record_read_typed: "delivers ok (DnsRecord_read ops lc) (record_typed lc)"
  unfolding DnsRecord_read_def by (intro fields_typed read_rdata_typed)

lemma question_read_typed:
  "delivers ok (DnsQuestion_read ops lc (DnsQuestion_new [] t)) (question_typed lc)"
  unfolding DnsQuestion_read_def DnsQuestion_new_def
  by (auto intro!: fields_typed simp: question_typed_def known_type_from_num)

lemma header_read_typed: "delivers ok (DnsHeader_read ops) (\<lambda>h. unat (opcode h) < 16)"
proof -
  have "unat (drop_bit 3 a AND 0x0F :: u8) < 16" for a
  proof -
    have "drop_bit 3 a AND 0x0F = take_bit 4 (drop_bit 3 a)" by (simp add: take_bit_eq_mask mask_eq_exp_minus_1)
    then show ?thesis using take_bit_nat_less_exp [of 4] by (simp add: unsigned_take_bit_eq)
  qed
  then show ?thesis unfolding DnsHeader_read_def Let_def
    by (auto intro!: delivers_bind [OF read_u16_total] delivers_return)
qed

lemma packet_typed_read: "delivers ok (from_buffer ops lc) (packet_typed lc)"
  unfolding from_buffer_def
  by (rule delivers_bind [OF header_read_typed])
     (auto intro!: delivers_bind [OF delivers_repeat [OF question_read_typed]]
        delivers_bind [OF delivers_repeat [OF record_read_typed]] delivers_return simp: packet_typed_def)

end

interpretation byte_total: total_reader byte_ops byte_wf
  by unfold_locales (auto simp: delivers_def byte_ops_def byte_wf_def)

lemma stream_fill_delivers: "delivers (\<lambda>_. True) (stream_fill n) (\<lambda>_. True)"
  by (auto simp: delivers_def stream_fill_def split: prod.splits)

lemma stream_fill_enough: "stream_fill n s = (Ok u, s') \<Longrightarrow> n \<le> length (sbuf s')"
  by (auto simp: stream_fill_def dest: fill_bytes_spec split: prod.splits if_splits)

interpretation stream_total: total_reader stream_ops "\<lambda>_. True"
proof
  show "delivers (\<lambda>_. True) (b_get_range stream_ops start len) (\<lambda>bs. length bs = len)" for start len
  proof (rule deliversI)
    fix s r s'
    assume "b_get_range stream_ops start len s = (r, s')"
    moreover obtain r1 s1 where fill: "stream_fill (start + len) s = (r1, s1)" by fastforce
    ultimately show "True \<and> r \<noteq> Panic \<and> (\<forall>x. r = Ok x \<longrightarrow> length x = len)"
      using deliversD [OF stream_fill_delivers TrueI fill] stream_fill_enough [of "start + len" s _ s1] fill
      by (cases r1) (auto simp: stream_ops_def)
  qed
qed (auto intro!: delivers_bind [OF stream_fill_delivers] simp: stream_ops_def delivers_def bind_def
      stream_fill_def split: prod.splits outcome.splits if_splits)

text \<open>C3: Reading a packet is type-sound.  Whatever the 512 bytes of a datagram's array, reading a packet
  from them does not panic and leaves the array well-formed, and a packet it returns is well-typed:
  its header counts the records of each section, its operation code fits four bits, each type is the
  one its number stands for (no record of a known type is left as unknown), and every name in its
  questions and records consists of labels of 1 to 63 bytes, decoded and in lower case.  The same
  holds of a packet read from a stream, however short it is cut.\<close>

theorem packet_read_typed:
  assumes "byte_wf s" "from_buffer byte_ops lc s = (r, s')" "from_buffer stream_ops lc t = (q, t')"
  shows "byte_wf s' \<and> r \<noteq> Panic \<and> q \<noteq> Panic \<and> (\<forall>p. r = Ok p \<or> q = Ok p \<longrightarrow> packet_typed lc p)"
  using deliversD [OF byte_total.packet_typed_read assms(1,2)]
    deliversD [OF stream_total.packet_typed_read TrueI assms(3)] by blast

text \<open>A reply with one question for \<open>A.b\<close> and one record of an unknown type.\<close>

definition sample_reply :: "u8 list" where
  "sample_reply = [0, 7, 0x81, 0x80, 0, 1, 0, 1, 0, 0, 0, 0,
     1, 65, 1, 98, 0, 0, 1, 0, 1,
     0xC0, 12, 0, 99, 0, 1, 0, 0, 0, 60, 0, 1, 9]"

definition sample_array :: byte_buffer where
  "sample_array = \<lparr>buf = sample_reply @ replicate 478 0, bpos = 0\<rparr>"

theorem packet_read_typed_witness:
  "\<exists>p. fst (from_buffer byte_ops (map ascii_lower) sample_array) = Ok p \<and> packet_typed (map ascii_lower) p \<and>
     map q_name (questions p) = [''a.b'']"
proof -
  have wf: "byte_wf sample_array"
    by (simp add: byte_wf_def sample_array_def sample_reply_def)
  have ok: "(case fst (from_buffer byte_ops (map ascii_lower) sample_array) of
      Ok p \<Rightarrow> map q_name (questions p) = [''a.b''] | _ \<Rightarrow> False)"
    by code_simp
  show ?thesis
    using packet_read_typed [OF wf prod.collapse [symmetric] prod.collapse [symmetric], of "map ascii_lower"] ok
    by (auto split: outcome.splits)
qed

end
