(* ===== verification/Dns_Authority.thy ===== *)
theory Dns_Authority
  imports Dns_Codec "HOL-Library.List_Lexorder" "HOL-Library.Char_ord"
begin

text \<open>
  The local zones of \<^verbatim>\<open>hermes/hermesdns/src/dns/authority.rs\<close>.  A zone's records are a
  \<^verbatim>\<open>BTreeSet<DnsRecord>\<close>, here the strictly sorted list of its elements; the order is the derived
  \<^verbatim>\<open>Ord\<close> of records, which compares the variant and then the fields from left to right, the
  time to live included.  The zones are a \<^verbatim>\<open>BTreeMap<String, Zone>\<close>, here the list of its
  entries in the order of their keys.

  The directory of zone files is an argument: for each file its contents, or nothing when it
  cannot be opened.
\<close>

subsection \<open>The order of records\<close>

definition str_key :: "string \<Rightarrow> nat list" where
  "str_key s = map of_char s"

definition num_key :: "'a::len word \<Rightarrow> nat list" where
  "num_key w = [unat w]"

fun record_key :: "dns_record \<Rightarrow> nat list list" where
  "record_key (UNKNOWN d q l t) = [[0], str_key d, num_key q, num_key l, num_key t]"
| "record_key (A d a t) = [[1], str_key d, map unat (octets a), num_key t]"
| "record_key (NS d h t) = [[2], str_key d, str_key h, num_key t]"
| "record_key (CNAME d h t) = [[3], str_key d, str_key h, num_key t]"
| "record_key (SOA d m r s f y e i t) = [[4], str_key d, str_key m, str_key r, num_key s,
     num_key f, num_key y, num_key e, num_key i, num_key t]"
| "record_key (MX d p h t) = [[5], str_key d, num_key p, str_key h, num_key t]"
| "record_key (TXT d x t) = [[6], str_key d, str_key x, num_key t]"
| "record_key (AAAA d a t) = [[7], str_key d, map unat (segments a), num_key t]"
| "record_key (SRV d p w q h t) = [[8], str_key d, num_key p, num_key w, num_key q, str_key h, num_key t]"
| "record_key (OPT p f x) = [[9], num_key p, num_key f, str_key x]"

lemma str_key_inj [simp]: "str_key s = str_key t \<longleftrightarrow> s = t"
  by (simp add: str_key_def inj_map_eq_map inj_def)

lemma num_key_inj [simp]: "num_key v = num_key w \<longleftrightarrow> v = w"
  by (simp add: num_key_def word_unat_eq_iff)

lemma octets_inj: "octets a = octets b \<Longrightarrow> a = b"
  by (cases a; cases b) simp

lemma segments_inj: "segments a = segments b \<Longrightarrow> a = b"
  by (cases a; cases b) simp

lemma record_key_inj: "record_key r = record_key s \<Longrightarrow> r = s"
  by (cases r; cases s)
     (simp_all only: record_key.simps list.inject str_key_inj num_key_inj dns_record.inject,
      auto dest: octets_inj segments_inj)

instantiation dns_record :: linorder
begin

definition less_eq_dns_record :: "dns_record \<Rightarrow> dns_record \<Rightarrow> bool" where
  "r \<le> s \<longleftrightarrow> record_key r \<le> record_key s"

definition less_dns_record :: "dns_record \<Rightarrow> dns_record \<Rightarrow> bool" where
  "r < s \<longleftrightarrow> record_key r < record_key s"

instance
  by standard (auto simp: less_eq_dns_record_def less_dns_record_def dest: record_key_inj antisym)

end

subsection \<open>Zones\<close>

record zone =
  z_domain :: string
  z_m_name :: string
  z_r_name :: string
  z_serial :: u32
  z_refresh :: u32
  z_retry :: u32
  z_expire :: u32
  z_minimum :: u32
  z_records :: "dns_record list"

definition Zone_new :: "string \<Rightarrow> string \<Rightarrow> string \<Rightarrow> zone" where
  "Zone_new d m r = \<lparr>z_domain = d, z_m_name = m, z_r_name = r, z_serial = 0, z_refresh = 0,
     z_retry = 0, z_expire = 0, z_minimum = 0, z_records = []\<rparr>"

definition add_record :: "dns_record \<Rightarrow> zone \<Rightarrow> bool \<times> zone" where
  "add_record rec z =
     (rec \<notin> set (z_records z), z\<lparr>z_records := insort_insert rec (z_records z)\<rparr>)"

definition delete_record :: "dns_record \<Rightarrow> zone \<Rightarrow> bool \<times> zone" where
  "delete_record rec z =
     (rec \<in> set (z_records z), z\<lparr>z_records := remove1 rec (z_records z)\<rparr>)"

type_synonym zones = "(string \<times> zone) list"

definition Zones_new :: zones where
  "Zones_new = []"

fun btree_insert :: "string \<Rightarrow> zone \<Rightarrow> zones \<Rightarrow> zones" where
  "btree_insert d z [] = [(d, z)]"
| "btree_insert d z ((k, v) # zs) =
     (if d = k then (d, z) # zs
      else if d < k then (d, z) # (k, v) # zs
      else (k, v) # btree_insert d z zs)"

definition add_zone :: "zone \<Rightarrow> zones \<Rightarrow> zones" where
  "add_zone z zs = btree_insert (z_domain z) z zs"

definition get_zone :: "zones \<Rightarrow> string \<Rightarrow> zone option" where
  "get_zone zs d = map_of zs d"

definition zone_values :: "zones \<Rightarrow> zone list" where
  "zone_values zs = map snd zs"

subsection \<open>Reading and writing zone files\<close>

definition read_zone :: "(string \<Rightarrow> string) \<Rightarrow> (stream_buffer, zone) rust" where
  "read_zone lc =
     bind (read_qname stream_ops lc []) (\<lambda>d.
     bind (read_qname stream_ops lc []) (\<lambda>m.
     bind (read_qname stream_ops lc []) (\<lambda>r.
     bind (read_u32 stream_ops) (\<lambda>ser.
     bind (read_u32 stream_ops) (\<lambda>ref.
     bind (read_u32 stream_ops) (\<lambda>ret.
     bind (read_u32 stream_ops) (\<lambda>ex.
     bind (read_u32 stream_ops) (\<lambda>mi.
     bind (read_u32 stream_ops) (\<lambda>record_count.
     bind (repeat (unat record_count) (DnsRecord_read stream_ops lc)) (\<lambda>rrs.
     return (fold (\<lambda>rr z. snd (add_record rr z)) rrs
       \<lparr>z_domain = d, z_m_name = m, z_r_name = r, z_serial = ser, z_refresh = ref, z_retry = ret,
        z_expire = ex, z_minimum = mi, z_records = []\<rparr>)))))))))))"

fun load_files :: "(string \<Rightarrow> string) \<Rightarrow> u8 list option list \<Rightarrow> (zones, unit) rust" where
  "load_files lc [] = return ()"
| "load_files lc (None # fs) = load_files lc fs"
| "load_files lc (Some bytes # fs) = (\<lambda>zs.
     case fst (read_zone lc (StreamPacketBuffer_new bytes)) of
       Ok z \<Rightarrow> load_files lc fs (add_zone z zs)
     | Err e \<Rightarrow> (Err e, zs)
     | Panic \<Rightarrow> (Panic, zs)
     | Diverge \<Rightarrow> (Diverge, zs))"

definition Zones_load :: "(string \<Rightarrow> string) \<Rightarrow> u8 list option list option \<Rightarrow> (zones, unit) rust" where
  "Zones_load lc dir = (case dir of None \<Rightarrow> return () | Some fs \<Rightarrow> load_files lc fs)"

text \<open>\<^verbatim>\<open>let _ = f()\<close> drops an error.\<close>

definition ignore :: "('s, 'a) rust \<Rightarrow> ('s, unit) rust" where
  "ignore m = (\<lambda>s. case m s of
     (Ok _, s') \<Rightarrow> (Ok (), s') | (Err _, s') \<Rightarrow> (Ok (), s')
   | (Panic, s') \<Rightarrow> (Panic, s') | (Diverge, s') \<Rightarrow> (Diverge, s'))"

definition write_zone :: "zone \<Rightarrow> (vector_buffer, unit) rust" where
  "write_zone z =
     andthen (ignore (write_qname vector_ops (z_domain z)))
    (andthen (ignore (write_qname vector_ops (z_m_name z)))
    (andthen (ignore (write_qname vector_ops (z_r_name z)))
    (andthen (ignore (write_u32 vector_ops (z_serial z)))
    (andthen (ignore (write_u32 vector_ops (z_refresh z)))
    (andthen (ignore (write_u32 vector_ops (z_retry z)))
    (andthen (ignore (write_u32 vector_ops (z_expire z)))
    (andthen (ignore (write_u32 vector_ops (z_minimum z)))
    (andthen (ignore (write_u32 vector_ops (of_nat (length (z_records z)))))
             (for_each (\<lambda>rec. ignore (DnsRecord_write vector_ops rec)) (z_records z))))))))))"

text \<open>The files that \<^verbatim>\<open>save\<close> writes; \<open>creates d\<close> says whether the file of a zone can be created.\<close>

definition Zones_save :: "(string \<Rightarrow> bool) \<Rightarrow> zones \<Rightarrow> (string \<times> u8 list) list" where
  "Zones_save creates zs = List.map_filter (\<lambda>z.
     if creates (z_domain z)
     then (let b = snd (write_zone z VectorPacketBuffer_new) in Some (z_domain z, take (vpos b) (vec b)))
     else None) (zone_values zs)"

subsection \<open>Queries\<close>

fun best_match :: "string \<Rightarrow> (nat \<times> zone) option \<Rightarrow> zone list \<Rightarrow> (nat \<times> zone) option" where
  "best_match qname best [] = best"
| "best_match qname best (z # zs) =
     (if \<not> ends_with qname (z_domain z) then best_match qname best zs
      else case best of
        Some (len, _) \<Rightarrow>
          best_match qname (if len < length (z_domain z) then Some (length (z_domain z), z) else best) zs
      | None \<Rightarrow> best_match qname (Some (length (z_domain z), z)) zs)"

definition zone_answers :: "string \<Rightarrow> query_type \<Rightarrow> zone \<Rightarrow> dns_record list" where
  "zone_answers qname qtype z = filter (\<lambda>rec.
     case get_domain rec of
       None \<Rightarrow> False
     | Some d \<Rightarrow> d = qname \<and>
         (qtype = get_querytype rec \<or> (qtype = QT_A \<and> get_querytype rec = QT_CNAME))) (z_records z)"

definition zone_soa :: "zone \<Rightarrow> dns_record" where
  "zone_soa z = SOA (z_domain z) (z_m_name z) (z_r_name z) (z_serial z) (z_refresh z) (z_retry z)
     (z_expire z) (z_minimum z) (z_minimum z)"

definition authority_query :: "zones \<Rightarrow> string \<Rightarrow> query_type \<Rightarrow> dns_packet option" where
  "authority_query zs qname qtype =
     (case best_match qname None (zone_values zs) of
        None \<Rightarrow> None
      | Some (_, z) \<Rightarrow>
          let h = DnsHeader_new\<lparr>authoritative_answer := True\<rparr>; an = zone_answers qname qtype z in
          if an = [] then
            Some (DnsPacket_new\<lparr>header := h\<lparr>rescode := NXDOMAIN\<rparr>, authorities := [zone_soa z]\<rparr>)
          else Some (DnsPacket_new\<lparr>header := h, answers := an\<rparr>))"

subsection \<open>Sorted containers\<close>

definition zone_wf :: "zone \<Rightarrow> bool" where
  "zone_wf z \<longleftrightarrow> sorted (z_records z) \<and> distinct (z_records z)"

definition zones_wf :: "zones \<Rightarrow> bool" where
  "zones_wf zs \<longleftrightarrow> sorted_wrt (<) (map fst zs) \<and> (\<forall>(d, z) \<in> set zs. z_domain z = d \<and> zone_wf z)"

lemma add_record_wf: "zone_wf z \<Longrightarrow> zone_wf (snd (add_record rec z))"
  by (simp add: zone_wf_def add_record_def sorted_insort_insert distinct_insort_insert)

lemma delete_record_wf: "zone_wf z \<Longrightarrow> zone_wf (snd (delete_record rec z))"
  by (simp add: zone_wf_def delete_record_def sorted_remove1)

lemma btree_insert_keys: "fst ` set (btree_insert d z zs) = insert d (fst ` set zs)"
  by (induction d z zs rule: btree_insert.induct) auto

lemma btree_insert_sorted:
  "sorted_wrt (<) (map fst zs) \<Longrightarrow> sorted_wrt (<) (map fst (btree_insert d z zs))"
proof (induction zs)
  case (Cons x zs)
  have "\<forall>k \<in> fst ` set (btree_insert d z zs). fst x < k" if "fst x < d"
    using that Cons.prems unfolding btree_insert_keys by auto
  with Cons show ?case
    by (cases x) (auto simp: not_less)
qed simp

lemma btree_insert_lookup:
  "sorted_wrt (<) (map fst zs) \<Longrightarrow>
     map_of (btree_insert d z zs) k = (if k = d then Some z else map_of zs k)"
proof (induction zs)
  case (Cons x zs)
  then show ?case
    by (cases x) (auto dest: map_of_SomeD intro!: sym [of _ None] simp: map_of_eq_None_iff)
qed auto

lemma btree_insert_set: "set (btree_insert d z zs) \<subseteq> insert (d, z) (set zs)"
  by (induction zs) (auto split: if_splits)


subsection \<open>The longest match\<close>

text \<open>Two zones whose domains are suffixes of the same name and equally long are the same zone, so
  the first longest match is the only one.\<close>

lemma best_match_spec:
  assumes "best = None \<or> (\<exists>z. best = Some (length (z_domain z), z) \<and> ends_with qname (z_domain z))"
  shows "case best_match qname best zs of
      None \<Rightarrow> best = None \<and> (\<forall>z \<in> set zs. \<not> ends_with qname (z_domain z))
    | Some (n, z) \<Rightarrow> n = length (z_domain z) \<and> ends_with qname (z_domain z) \<and>
        (z \<in> set zs \<or> best = Some (n, z)) \<and> (\<forall>m z'. best = Some (m, z') \<longrightarrow> m \<le> n) \<and>
        (\<forall>z' \<in> set zs. ends_with qname (z_domain z') \<longrightarrow> length (z_domain z') \<le> n)"
  using assms
proof (induction zs arbitrary: best)
  case (Cons z zs)
  show ?case
  proof (cases "ends_with qname (z_domain z)")
    case False
    with Cons.IH [OF Cons.prems] show ?thesis by (auto split: option.splits)
  next
    case True
    let ?best = "case best of Some (len, _) \<Rightarrow>
        (if len < length (z_domain z) then Some (length (z_domain z), z) else best)
      | None \<Rightarrow> Some (length (z_domain z), z)"
    have "best_match qname best (z # zs) = best_match qname ?best zs"
      using True by (auto split: option.splits)
    moreover have "?best = None \<or> (\<exists>z. ?best = Some (length (z_domain z), z) \<and> ends_with qname (z_domain z))"
      using Cons.prems True by (auto split: option.splits)
    ultimately show ?thesis
      using Cons.IH [of ?best] Cons.prems True by (fastforce split: option.splits if_splits)
  qed
qed auto

text \<open>C7: a query is answered from the zone with the longest domain that is a suffix of the name, with
  exactly its records of that name and type (and aliases when an address was asked for); when
  it has none the answer is \<^verbatim>\<open>NXDOMAIN\<close> with the zone's start of authority.\<close>

theorem authority_query_longest:
  "case authority_query zs qname qtype of
      None \<Rightarrow> \<forall>z \<in> set (zone_values zs). \<not> ends_with qname (z_domain z)
    | Some p \<Rightarrow> \<exists>z \<in> set (zone_values zs). ends_with qname (z_domain z) \<and>
        (\<forall>z' \<in> set (zone_values zs). ends_with qname (z_domain z') \<longrightarrow>
           length (z_domain z') \<le> length (z_domain z)) \<and>
        authoritative_answer (header p) \<and>
        set (answers p) = {rec \<in> set (z_records z). get_domain rec = Some qname \<and>
          (get_querytype rec = qtype \<or> qtype = QT_A \<and> get_querytype rec = QT_CNAME)} \<and>
        (if answers p = [] then rescode (header p) = NXDOMAIN \<and> authorities p = [zone_soa z]
         else rescode (header p) = NOERROR \<and> authorities p = [])"
proof (cases "best_match qname None (zone_values zs)")
  case None
  with best_match_spec [of None qname "zone_values zs"] show ?thesis
    by (auto simp: authority_query_def)
next
  case (Some nz)
  obtain n z where nz: "nz = (n, z)" by (cases nz)
  from Some nz best_match_spec [of None qname "zone_values zs"]
  have z: "z \<in> set (zone_values zs)" "ends_with qname (z_domain z)"
    "\<forall>z' \<in> set (zone_values zs). ends_with qname (z_domain z') \<longrightarrow> length (z_domain z') \<le> length (z_domain z)"
    by auto
  let ?an = "zone_answers qname qtype z"
  have an: "set ?an = {rec \<in> set (z_records z). get_domain rec = Some qname \<and>
      (get_querytype rec = qtype \<or> qtype = QT_A \<and> get_querytype rec = QT_CNAME)}"
    by (auto simp: zone_answers_def split: option.splits)
  obtain p where "authority_query zs qname qtype = Some p" "authoritative_answer (header p)"
    "answers p = ?an" "if ?an = [] then rescode (header p) = NXDOMAIN \<and> authorities p = [zone_soa z]
      else rescode (header p) = NOERROR \<and> authorities p = []"
    using Some nz that
    by (cases "?an = []") (simp_all add: authority_query_def Let_def DnsPacket_new_def DnsHeader_new_def)
  with z an show ?thesis by (simp only: option.case) blast
qed

theorem authority_query_longest_witness:
  "\<exists>z \<in> set (zone_values [(''b'', Zone_new ''b'' ''m'' ''r'')]). ends_with ''a.b'' (z_domain z) \<and>
     (\<forall>z' \<in> set (zone_values [(''b'', Zone_new ''b'' ''m'' ''r'')]). ends_with ''a.b'' (z_domain z') \<longrightarrow>
        length (z_domain z') \<le> length (z_domain z))"
proof -
  have "\<exists>p. authority_query [(''b'', Zone_new ''b'' ''m'' ''r'')] ''a.b'' QT_A = Some p"
    by (simp add: authority_query_def zone_values_def Zone_new_def ends_with_def Let_def)
  with authority_query_longest [of "[(''b'', Zone_new ''b'' ''m'' ''r'')]" "''a.b''" QT_A]
  show ?thesis by fastforce
qed


subsection \<open>Zone files\<close>

definition zone_l :: "zone \<Rightarrow> layout" where
  "zone_l z = seq_l (name_l (z_domain z)) (seq_l (name_l (z_m_name z)) (seq_l (name_l (z_r_name z))
     (seq_l (u32_l (z_serial z)) (seq_l (u32_l (z_refresh z)) (seq_l (u32_l (z_retry z))
     (seq_l (u32_l (z_expire z)) (seq_l (u32_l (z_minimum z))
     (seq_l (u32_l (of_nat (length (z_records z)))) (list_l record_l (z_records z))))))))))"

definition zone_max :: "zone \<Rightarrow> nat" where
  "zone_max z = wire_len (z_domain z) + (wire_len (z_m_name z) + (wire_len (z_r_name z) +
     (4 + (4 + (4 + (4 + (4 + (4 + sum_list (map record_max (z_records z))))))))))"

definition readable_zone :: "zone \<Rightarrow> bool" where
  "readable_zone z \<longleftrightarrow> readable_name (z_domain z) \<and> readable_name (z_m_name z) \<and>
     readable_name (z_r_name z) \<and> list_all readable_record (z_records z) \<and> zone_max z \<le> 0x4000"

lemma ignore_writes: "vector_writer.writes c n L \<Longrightarrow> vector_writer.writes (ignore c) n L"
  unfolding vector_writer.writes_def ignore_def by (metis (no_types, lifting) outcome.case(1) prod.case)

lemma zone_writes:
  assumes "readable_zone z"
  shows "vector_writer.writes (write_zone z) (zone_max z) (zone_l z)"
proof -
  have names: "valid_name (z_domain z)" "valid_name (z_m_name z)" "valid_name (z_r_name z)"
    using assms by (auto simp: readable_zone_def readable_name_def)
  have rec: "vector_writer.writes (ignore (DnsRecord_write vector_ops r)) (record_max r) (record_l r)"
    if "r \<in> set (z_records z)" for r
  proof -
    have "ignore (DnsRecord_write vector_ops r) =
        ignore (andthen (DnsRecord_write vector_ops r) (return ()))"
      by (auto simp: ignore_def bind_def fun_eq_iff split: prod.splits outcome.splits)
    moreover have "list_all valid_name (record_names r)"
      using that assms by (auto simp: readable_zone_def list_all_iff intro: readable_valid(1) [unfolded list_all_iff, rule_format])
    ultimately show ?thesis using vector_writer.writes_record ignore_writes by metis
  qed
  show ?thesis
    unfolding write_zone_def zone_l_def zone_max_def
    by (intro vector_writer.writes_seq ignore_writes vector_writer.writes_name names
        vector_writer.writes_u32 vector_writer.writes_each rec layout_intros)
qed

lemma fold_add_record:
  assumes "sorted (xs @ ys)" "distinct (xs @ ys)"
  shows "fold (\<lambda>r z. snd (add_record r z)) ys (z\<lparr>z_records := xs\<rparr>) = z\<lparr>z_records := xs @ ys\<rparr>"
  using assms
proof (induction ys arbitrary: xs)
  case (Cons y ys)
  have "insort_insert y xs = xs @ [y]"
    using Cons.prems by (simp add: insort_insert_key_def sorted_append sorted_insort_is_snoc)
  moreover have "fold (\<lambda>r z. snd (add_record r z)) ys (z\<lparr>z_records := xs @ [y]\<rparr>) =
      z\<lparr>z_records := (xs @ [y]) @ ys\<rparr>"
    using Cons.prems by (intro Cons.IH) simp_all
  ultimately show ?case by (simp add: add_record_def)
qed simp

lemma zone_decodes:
  assumes "ascii_lowercase lc" "readable_zone z" "zone_wf z"
  shows "stream_reader.decodes (read_zone lc) (zone_l z) z"
proof -
  let ?n = "of_nat (length (z_records z)) :: u32"
  have len: "length (z_records z) \<le> sum_list (map record_max (z_records z))"
    using assms(2) by (intro length_le_sum readable_record_max) (auto simp: readable_zone_def list_all_iff)
  then have n: "unat ?n = length (z_records z)"
    using assms(2) by (simp add: unat_of_nat readable_zone_def zone_max_def)
  have recs: "stream_reader.decodes (repeat (length (z_records z)) (DnsRecord_read stream_ops lc))
      (list_l record_l (z_records z)) (z_records z)"
    using assms(1,2) by (intro stream_reader.decodes_repeat stream_reader.decodes_record layout_intros)
      (auto simp: readable_zone_def list_all_iff)
  have "fold (\<lambda>r z. snd (add_record r z)) (z_records z) (z\<lparr>z_records := []\<rparr>) = z"
    using assms(3) fold_add_record [of "[]" "z_records z" z] by (simp add: zone_wf_def)
  then show ?thesis
    unfolding read_zone_def zone_l_def
    using assms(1,2)
    by (intro stream_reader.decodes_intros layout_intros; (simp add: readable_zone_def readable_name_def; fail)?)
       (simp only: n, rule stream_reader.decodes_last [OF recs], cases z, simp)
qed

definition zone_file :: "zone \<Rightarrow> u8 list" where
  "zone_file z = (let b = snd (write_zone z VectorPacketBuffer_new) in take (vpos b) (vec b))"

lemma zone_file_round_trip:
  assumes "ascii_lowercase lc" "readable_zone z" "zone_wf z"
  shows "fst (read_zone lc (StreamPacketBuffer_new (zone_file z))) = Ok z"
proof -
  have "vector_writer.ready {} (zone_max z) VectorPacketBuffer_new"
    using assms(2) by (intro vector_ready) (simp add: readable_zone_def)
  with zone_writes [OF assms(2)] obtain b where b: "write_zone z VectorPacketBuffer_new = (Ok (), b)"
      "vector_writer.written {} (zone_max z) (zone_l z) VectorPacketBuffer_new b"
    by (auto simp: vector_writer.writes_def)
  then have "zone_l z (mem_of (vec b) {}) 0 (length (vec b))" and "zone_file z = vec b"
    by (auto simp: vector_writer.written_def VectorPacketBuffer_new_def zone_file_def vector_wf_def)
  moreover have "layout (zone_l z)" unfolding zone_l_def by (intro layout_intros)
  ultimately show ?thesis
    using stream_reader.decodes_start [OF zone_decodes [OF assms]]
    by (simp add: StreamPacketBuffer_new_def stream_contents_def stream_ops_def)
qed

lemma btree_insert_last:
  "\<forall>k \<in> fst ` set zs. k < d \<Longrightarrow> btree_insert d z zs = zs @ [(d, z)]"
  by (induction zs) auto

lemma load_files_zones:
  assumes "ascii_lowercase lc" "zones_wf (zs @ zs')" "\<forall>z \<in> set (zone_values zs'). readable_zone z"
  shows "load_files lc (map (\<lambda>z. Some (zone_file z)) (zone_values zs')) zs = (Ok (), zs @ zs')"
  using assms(2,3)
proof (induction zs' arbitrary: zs)
  case (Cons x zs')
  obtain d z where x: "x = (d, z)" by (cases x)
  have z: "z_domain z = d" "zone_wf z" "readable_zone z"
    using Cons.prems x by (auto simp: zones_wf_def zone_values_def)
  have "add_zone z zs = zs @ [(d, z)]"
    unfolding add_zone_def z(1)
    using Cons.prems(1) x by (intro btree_insert_last) (auto simp: zones_wf_def sorted_wrt_append)
  moreover have "load_files lc (map (\<lambda>z. Some (zone_file z)) (zone_values zs')) (zs @ [(d, z)]) =
      (Ok (), (zs @ [(d, z)]) @ zs')"
    using Cons.prems x by (intro Cons.IH) (simp_all add: zone_values_def)
  ultimately show ?case
    using zone_file_round_trip [OF assms(1) z(3,2)] by (simp add: x zone_values_def)
qed (simp add: zone_values_def)



end
