(* ===== verification/Dns_Tests.thy ===== *)
theory Dns_Tests
  imports Dns_Server Dns_Authority Fake_Ip
begin

text \<open>
  The unit tests of the DNS library and of the proxy's resolver, run on the model: every \<^verbatim>\<open>#[test]\<close> of
  \<^verbatim>\<open>cache.rs\<close>, \<^verbatim>\<open>resolve.rs\<close>, \<^verbatim>\<open>server.rs\<close>, \<^verbatim>\<open>buffer.rs\<close>, \<^verbatim>\<open>hosts.rs\<close> and \<^verbatim>\<open>dnsserver/src/resolver.rs\<close> that
  needs no network, with the stub client and the context they use.  A test is a truth value, and the
  lemma named after it shows that it passes, evaluated by the simplifier from the definitions.  They
  tie the definitions to the behaviour the repository itself expects of the code: expiry at a time to
  live of zero, hit and update counts, the order in which name servers are tried, negative caching,
  alias chasing and the result codes.  The clock ticks once at every reading.
\<close>

subsection \<open>The cache\<close>

definition localhost :: ipv4 where "localhost = Ipv4Addr 127 0 0 1"

text \<open>\<^verbatim>\<open>list\<close>: the entries in the order of their names.\<close>

definition sync_list :: "sync_cache \<Rightarrow> domain_entry list outcome" where
  "sync_list sc = (if poisoned sc then Err Other
     else Ok (map (\<lambda>d. the (cache sc d)) (sorted_list_of_set (dom (cache sc)))))"

definition cache_records :: "dns_record list" where
  "cache_records = [A ''www.google.com'' localhost 3600, A ''www.yahoo.com'' (Ipv4Addr 127 0 0 2) 0,
     CNAME ''www.microsoft.com'' ''www.somecdn.com'' 3600]"

definition test_cache :: bool where
  "test_cache =
     (let (r1, c) = cache_lookup unheld (1, 2, 3) ''www.google.com'' QT_A Cache_new;
          c = cache_store_nxdomain unheld 4 ''www.google.com'' QT_A 3600 c;
          (r2, c) = cache_lookup unheld (5, 6, 7) ''www.google.com'' QT_A c;
          c = cache_store_nxdomain unheld 8 ''www.yahoo.com'' QT_A 0 c;
          (r3, c) = cache_lookup unheld (9, 10, 11) ''www.yahoo.com'' QT_A c;
          c = cache_store unheld (\<lambda>i. 12 + i) cache_records c;
          (r4, c) = cache_lookup unheld (15, 16, 17) ''www.google.com'' QT_A c;
          (r5, c) = cache_lookup unheld (18, 19, 20) ''www.google.com'' QT_CNAME c;
          (r6, c) = cache_lookup unheld (21, 22, 23) ''www.microsoft.com'' QT_CNAME c;
          (r7, c) = cache_lookup unheld (24, 25, 26) ''www.yahoo.com'' QT_A c;
          c = cache_store unheld (\<lambda>i. 27 + i) [A ''www.yahoo.com'' (Ipv4Addr 127 0 0 2) 3600] c;
          (r8, c) = cache_lookup unheld (28, 29, 30) ''www.yahoo.com'' QT_A c
      in r1 = None \<and>
         (case r2 of Some packet \<Rightarrow> rescode (header packet) = NXDOMAIN | None \<Rightarrow> True) \<and>
         r3 = None \<and>
         (case r4 of Some packet \<Rightarrow> record_eq (cache_records ! 0) (answers packet ! 0) | None \<Rightarrow> False) \<and>
         r5 = None \<and>
         (case r6 of Some packet \<Rightarrow> record_eq (cache_records ! 2) (answers packet ! 0) | None \<Rightarrow> False) \<and>
         r7 = None \<and> r8 \<noteq> None \<and>
         card (dom c) = 3 \<and>
         hits (the (c ''www.google.com'')) = 1 \<and> updates (the (c ''www.google.com'')) = 2 \<and>
         hits (the (c ''www.yahoo.com'')) = 1 \<and> updates (the (c ''www.yahoo.com'')) = 3 \<and>
         updates (the (c ''www.microsoft.com'')) = 1 \<and> hits (the (c ''www.microsoft.com'')) = 1)"

lemmas cache_eval = cache_lookup_def Cache_new_def get_cache_state_def cache_store_nxdomain_def get_mut_def
  entry_store_nxdomain_def DomainEntry_new_def entry_cache_state_def seconds_def cache_store_def stamped_def
  store_one_def store_record_def hashset_insert_def hashset_remove_def valid_entries_def expires_def
  fill_queryresult_def entry_fill_queryresult_def Let_def entry_eq_def record_eq_def localhost_def

lemma test_cache_passes: test_cache
  by (simp add: test_cache_def cache_eval cache_records_def)

subsection \<open>The resolvers\<close>

datatype resolve_strategy = Recursive | Forward string u16

text \<open>The stub client answers by a callback; the clock ticks at every reading.\<close>

type_synonym stub_callback = "string \<Rightarrow> query_type \<Rightarrow> string \<times> u16 \<Rightarrow> bool \<Rightarrow> error_kind + dns_packet"

definition DnsStubClient :: "stub_callback \<Rightarrow> nat outside" where
  "DnsStubClient callback = \<lparr>o_now = \<lambda>t. (t, Suc t), o_random = \<lambda>t. (t, t),
     o_send_query = \<lambda>qname qtype server recursive t. (callback qname qtype server recursive, t)\<rparr>"

text \<open>No test nests queries, so four steps of fuel are enough.\<close>

definition test_fuel :: nat where "test_fuel = Suc (Suc (Suc (Suc 0)))"

definition create_test_context :: "stub_callback \<Rightarrow> resolve_strategy \<Rightarrow> nat resolver_state server_context" where
  "create_test_context callback strategy = ServerContext_new ''127.0.0.1:53'' (case strategy of
      Recursive \<Rightarrow> rec_resolve test_fuel (DnsStubClient callback) True
    | Forward host pt \<Rightarrow> forwarding_resolve (DnsStubClient callback) \<lparr>f_server = (host, pt), f_allow_recursive = True\<rparr>)"

definition test_start :: "nat resolver_state" where
  "test_start = \<lparr>r_cache = \<lparr>poisoned = False, cache = Cache_new\<rparr>, r_world = 0\<rparr>"

definition check :: "bool \<Rightarrow> ('s, unit) rust" where
  "check b = (if b then return () else panic)"

definition check_fails :: "('s, 'a) rust \<Rightarrow> ('s, unit) rust" where
  "check_fails m = (\<lambda>s. case m s of (Ok _, s') \<Rightarrow> (Panic, s') | (Err _, s') \<Rightarrow> (Ok (), s')
     | (Panic, s') \<Rightarrow> (Panic, s') | (Diverge, s') \<Rightarrow> (Diverge, s'))"

definition passes :: "('s, unit) rust \<Rightarrow> 's \<Rightarrow> bool" where
  "passes m s \<longleftrightarrow> fst (m s) = Ok ()"

definition cache_list :: "(nat resolver_state, domain_entry list) rust" where
  "cache_list = (\<lambda>s. (sync_list (r_cache s), s))"

definition is_a_of :: "string \<Rightarrow> dns_record \<Rightarrow> bool" where
  "is_a_of d r = (case r of A d' _ _ \<Rightarrow> d' = d | _ \<Rightarrow> False)"

definition forwarding_stub :: stub_callback where
  "forwarding_stub qname qtype server recursive = Inr (if qname = ''google.com''
     then DnsPacket_new\<lparr>answers := [A ''google.com'' localhost 3600]\<rparr> else rescode_packet NXDOMAIN)"

definition test_forwarding_resolver :: bool where
  "test_forwarding_resolver =
     (let resolve = resolver (create_test_context forwarding_stub (Forward ''114.114.114.114'' 53)) in
      passes
       (bind (resolve ''google.com'' QT_A True) (\<lambda>res.
        andthen (check (length (answers res) = 1 \<and> is_a_of ''google.com'' (answers res ! 0)))
       (bind (resolve ''google.com'' QT_A True) (\<lambda>res.
        andthen (check (length (answers res) = 1))
       (bind cache_list (\<lambda>list.
        andthen (check (length list = 1 \<and> de_domain (list ! 0) = ''google.com'' \<and>
          card (dom (record_types (list ! 0))) = 1 \<and> hits (list ! 0) = 1))
       (bind (resolve ''yahoo.com'' QT_A True) (\<lambda>res.
        check (length (answers res) = 0 \<and> rescode (header res) = NXDOMAIN)))))))))
       test_start)"

lemmas resolve_eval = test_start_def passes_def check_def check_fails_def cache_list_def sync_list_def create_test_context_def
  DnsStubClient_def ServerContext_new_def forwarding_resolve_def resolve_from_cache_def lookup_in_cache_def read_clock_def
  sync_lookup_def forward_query_def send_query_def store_in_cache_def sync_store_def rescode_packet_def is_a_of_def bind_def
  return_def DnsPacket_new_def DnsHeader_new_def

lemma test_forwarding_resolver_passes: test_forwarding_resolver
  by (simp add: test_forwarding_resolver_def resolve_eval cache_eval forwarding_stub_def)

definition nxdomain_stub :: stub_callback where
  "nxdomain_stub qname qtype server recursive = Inr (rescode_packet NXDOMAIN)"

definition test_recursive_resolver_with_no_nameserver :: bool where
  "test_recursive_resolver_with_no_nameserver =
     (let resolve = resolver (create_test_context nxdomain_stub Recursive) in
      passes (check_fails (resolve ''google.com'' QT_A True)) test_start)"

text \<open>Storing records in the resolver's cache.\<close>

definition test_store :: "stub_callback \<Rightarrow> dns_record list \<Rightarrow> (nat resolver_state, unit) rust" where
  "test_store callback records = store_in_cache (DnsStubClient callback) records"

definition test_recursive_resolver_with_missing_a_record :: bool where
  "test_recursive_resolver_with_missing_a_record =
     (let resolve = resolver (create_test_context nxdomain_stub Recursive) in
      passes
       (andthen (check_fails (resolve ''google.com'' QT_A True))
       (andthen (test_store nxdomain_stub [NS [] ''a.myroot.net'' 3600])
                (check_fails (resolve ''google.com'' QT_A True))))
       test_start)"

definition order_packet :: "u16 \<Rightarrow> string \<Rightarrow> dns_packet" where
  "order_packet ident domain = DnsPacket_new\<lparr>header := DnsHeader_new\<lparr>h_id := ident\<rparr>, answers := [A domain localhost 3600]\<rparr>"

definition order_stub :: stub_callback where
  "order_stub qname qtype server recursive = Inr
     (if fst server = ''127.0.0.1'' then order_packet 1 ''a.google.com''
      else if fst server = ''127.0.0.2'' then order_packet 2 ''b.google.com''
      else if fst server = ''127.0.0.3'' then order_packet 3 ''c.google.com''
      else DnsPacket_new\<lparr>header := DnsHeader_new\<lparr>h_id := 999, rescode := NXDOMAIN\<rparr>\<rparr>)"

definition test_recursive_resolver_match_order :: bool where
  "test_recursive_resolver_match_order =
     (let resolve = resolver (create_test_context order_stub Recursive) in
      passes
       (andthen (check_fails (resolve ''google.com'' QT_A True))
       (andthen (test_store order_stub [NS [] ''a.myroot.net'' 3600, A ''a.myroot.net'' localhost 3600])
       (bind (resolve ''google.com'' QT_A True) (\<lambda>packet.
        andthen (check (h_id (header packet) = 1))
       (andthen (test_store order_stub [NS ''com'' ''a.mytld.net'' 3600, A ''a.mytld.net'' (Ipv4Addr 127 0 0 2) 3600])
       (bind (resolve ''google.com'' QT_A True) (\<lambda>packet.
        andthen (check (h_id (header packet) = 2))
       (andthen (test_store order_stub [NS ''google.com'' ''ns1.google.com'' 3600, A ''ns1.google.com'' (Ipv4Addr 127 0 0 3) 3600])
       (bind (resolve ''google.com'' QT_A True) (\<lambda>packet.
        check (h_id (header packet) = 3)))))))))))
       test_start)"

definition recursive_stub :: stub_callback where
  "recursive_stub qname qtype server recursive = Inr
     (if qname = ''google.com'' then DnsPacket_new\<lparr>answers := [A ''google.com'' localhost 3600]\<rparr>
      else (rescode_packet NXDOMAIN)\<lparr>authorities :=
        [SOA ''google.com'' ''google.com'' ''google.com'' 0 3600 3600 3600 3600 3600]\<rparr>)"

definition test_recursive_resolver_successfully :: bool where
  "test_recursive_resolver_successfully =
     (let resolve = resolver (create_test_context recursive_stub Recursive) in
      passes
       (andthen (test_store recursive_stub [NS ''google.com'' ''ns1.google.com'' 3600, A ''ns1.google.com'' localhost 3600])
       (bind (resolve ''google.com'' QT_A True) (\<lambda>res.
        andthen (check (length (answers res) = 1 \<and> is_a_of ''google.com'' (answers res ! 0)))
       (bind (resolve ''foobar.google.com'' QT_A True) (\<lambda>res.
        andthen (check (rescode (header res) = NXDOMAIN \<and> length (answers res) = 0))
       (bind (resolve ''google.com'' QT_A True) (\<lambda>res.
        andthen (check (length (answers res) = 1))
       (bind cache_list (\<lambda>list.
        check (length list = 3 \<and>
          de_domain (list ! 1) = ''google.com'' \<and> card (dom (record_types (list ! 1))) = 2 \<and> hits (list ! 1) = 3 \<and>
          de_domain (list ! 2) = ''ns1.google.com'' \<and> card (dom (record_types (list ! 2))) = 1 \<and> hits (list ! 2) = 2))))))))))
       test_start)"

lemmas recursive_eval = test_fuel_def test_store_def tentative_ns.simps cached_ns_def read_random_def get_unresolved_ns_def get_random_a_def
  store_response_def store_nxdomain_in_cache_def sync_store_nxdomain_def get_ttl_from_soa_def throw_def ns_hosts_def
  rec_resolve.simps rec_perform.simps rec_loop.simps

lemma test_recursive_resolver_with_no_nameserver_passes: test_recursive_resolver_with_no_nameserver
  by (simp add: test_recursive_resolver_with_no_nameserver_def resolve_eval cache_eval recursive_eval nxdomain_stub_def)

lemma test_recursive_resolver_with_missing_a_record_passes: test_recursive_resolver_with_missing_a_record
  by (simp add: test_recursive_resolver_with_missing_a_record_def resolve_eval cache_eval recursive_eval nxdomain_stub_def)

lemma show_localhost: "show_ipv4 (Ipv4Addr 127 0 0 1) = ''127.0.0.1''" "show_ipv4 (Ipv4Addr 127 0 0 2) = ''127.0.0.2''"
  "show_ipv4 (Ipv4Addr 127 0 0 3) = ''127.0.0.3''"
  by code_simp+

lemma test_recursive_resolver_match_order_passes: test_recursive_resolver_match_order
  by (simp add: test_recursive_resolver_match_order_def resolve_eval cache_eval recursive_eval order_stub_def order_packet_def
      show_localhost List.map_filter_def ends_with_def)

lemma test_recursive_resolver_successfully_passes: test_recursive_resolver_successfully
  by (simp add: test_recursive_resolver_successfully_def resolve_eval cache_eval recursive_eval recursive_stub_def
      show_localhost List.map_filter_def ends_with_def)

subsection \<open>The server\<close>

definition build_query :: "string \<Rightarrow> query_type \<Rightarrow> dns_packet" where
  "build_query qname qtype = DnsPacket_new\<lparr>header := DnsHeader_new\<lparr>recursion_desired := True\<rparr>,
     questions := [DnsQuestion_new qname qtype]\<rparr>"

definition server_stub :: stub_callback where
  "server_stub qname qtype server recursive = Inr
     (if qname = ''google.com'' then DnsPacket_new\<lparr>answers := [A ''google.com'' localhost 3600]\<rparr>
      else if qname = ''www.facebook.com'' \<and> qtype = QT_CNAME then
        DnsPacket_new\<lparr>answers := [CNAME ''www.facebook.com'' ''cdn.facebook.com'' 3600, A ''cdn.facebook.com'' localhost 3600]\<rparr>
      else if qname = ''www.microsoft.com'' \<and> qtype = QT_CNAME then
        DnsPacket_new\<lparr>answers := [CNAME ''www.microsoft.com'' ''cdn.microsoft.com'' 3600]\<rparr>
      else if qname = ''cdn.microsoft.com'' \<and> qtype = QT_A then
        DnsPacket_new\<lparr>answers := [A ''cdn.microsoft.com'' localhost 3600]\<rparr>
      else rescode_packet NXDOMAIN)"

definition is_cname_of :: "string \<Rightarrow> dns_record \<Rightarrow> bool" where
  "is_cname_of d r = (case r of CNAME d' _ _ \<Rightarrow> d' = d | _ \<Rightarrow> False)"

definition failing_stub :: stub_callback where
  "failing_stub qname qtype server recursive = Inl NotFound"

definition test_execute_query :: bool where
  "test_execute_query =
     (let context = create_test_context server_stub (Forward ''114.114.114.114'' 53);
          context' = context\<lparr>allow_recursive := False\<rparr>;
          context2 = create_test_context failing_stub Recursive in
      passes
       (bind (execute_query context (build_query ''google.com'' QT_A)) (\<lambda>res.
        andthen (check (length (answers res) = 1 \<and> is_a_of ''google.com'' (answers res ! 0)))
       (bind (execute_query context (build_query ''www.facebook.com'' QT_CNAME)) (\<lambda>res.
        andthen (check (length (answers res) = 2 \<and> is_cname_of ''www.facebook.com'' (answers res ! 0) \<and>
          is_a_of ''cdn.facebook.com'' (answers res ! 1)))
       (bind (execute_query context (build_query ''www.microsoft.com'' QT_CNAME)) (\<lambda>res.
        andthen (check (length (answers res) = 2 \<and> is_cname_of ''www.microsoft.com'' (answers res ! 0)))
       (bind (execute_query context (build_query ''yahoo.com'' QT_A)) (\<lambda>res.
        andthen (check (rescode (header res) = NXDOMAIN \<and> length (answers res) = 0))
       (bind (execute_query context' (build_query ''yahoo.com'' QT_A)) (\<lambda>res.
        andthen (check (rescode (header res) = REFUSED \<and> length (answers res) = 0))
       (bind (execute_query context' DnsPacket_new) (\<lambda>res.
        check (rescode (header res) = FORMERR \<and> length (answers res) = 0)))))))))))))
       test_start \<and>
      passes
       (bind (execute_query context2 (build_query ''yahoo.com'' QT_A)) (\<lambda>res.
        check (rescode (header res) = SERVFAIL \<and> length (answers res) = 0)))
       test_start)"

lemma test_execute_query_passes: test_execute_query
  by (simp add: test_execute_query_def resolve_eval cache_eval recursive_eval server_stub_def failing_stub_def build_query_def
      is_cname_of_def execute_query_def reply_header_def DnsQuestion_new_def get_unresolved_cnames_def resolve_cnames_def
      cname_loop.simps alias_host_def collect_def is_a_for_def)

subsection \<open>Names and packets\<close>

definition lower :: "string \<Rightarrow> string" where
  "lower = map ascii_lower"

definition test_qname :: bool where
  "test_qname = (passes
       (andthen (write_qname vector_ops ''a.google.com'')
       (andthen (for_each (write_u8 vector_ops) [0x01, byte_of CHR ''b'', 0xC0, 0x02])
       (andthen (\<lambda>b. (Ok (), b\<lparr>vpos := 0\<rparr>))
       (bind (read_qname vector_ops lower []) (\<lambda>outstr1.
        andthen (check (outstr1 = ''a.google.com''))
       (bind (read_qname vector_ops lower []) (\<lambda>outstr2.
        andthen (check (outstr2 = ''b.google.com''))
        (\<lambda>b. check (vpos b = length (vec b)) b))))))))
       VectorPacketBuffer_new)"

definition test_write_qname :: bool where
  "test_write_qname = (passes
       (andthen (write_qname vector_ops ''ns1.google.com'')
       (andthen (write_qname vector_ops ''ns2.google.com'')
       (andthen (\<lambda>b. check (b_pos vector_ops b = 22) b)
       (andthen (b_seek vector_ops 0)
       (bind (read_qname vector_ops lower []) (\<lambda>str1.
        andthen (check (str1 = ''ns1.google.com''))
       (bind (read_qname vector_ops lower []) (\<lambda>str2.
        check (str2 = ''ns2.google.com'')))))))))
       VectorPacketBuffer_new)"

lemma test_qname_passes: test_qname
  by code_simp

lemma test_write_qname_passes: test_write_qname
  by code_simp

subsection \<open>Hosts and made-up addresses\<close>

definition hosts_lines :: "string list" where
  "hosts_lines = [[], ''##'', ''# Host Database'', ''#'',
     ''# localhost is used to configure the loopback interface'',
     ''# when the system is booting.  Do not change this entry.'', ''##'',
     ''127.0.0.1       localhost proxyhost'', ''255.255.255.255     broadcasthost'',
     ''::1                          localhost'', [],
     ''# Updated automatically when Wi-Fi ip address changed'', ''### BEGIN GENERATED CONTENT'',
     ''192.168.2.111 influxdb registry.xiachufang.com pypi.xiachufang.com'', ''### END GENERATED CONTENT'', [],
     ''127.0.0.1  kubernetes.docker.internal'', ''#'', ''#'', ''127.0.0.1  devdb'',
     ''127.0.0.1  board-db-01 board-db-02 board-db-03 board-db-04'', ''# Added by Docker Desktop'',
     ''# To allow the same kube context to work on the host and the container:'',
     ''127.0.0.1 kubernetes.docker.internal'', ''# End of section'', ''        '']"

definition expected_hosts :: "(string \<times> ipv4) list" where
  "expected_hosts = [(''kubernetes.docker.internal'', localhost), (''registry.xiachufang.com'', Ipv4Addr 192 168 2 111),
     (''broadcasthost'', Ipv4Addr 255 255 255 255), (''board-db-01'', localhost), (''board-db-02'', localhost),
     (''board-db-03'', localhost), (''board-db-04'', localhost), (''devdb'', localhost), (''proxyhost'', localhost),
     (''localhost'', localhost), (''pypi.xiachufang.com'', Ipv4Addr 192 168 2 111), (''influxdb'', Ipv4Addr 192 168 2 111)]"

definition test_load_hosts :: bool where
  "test_load_hosts =
     (let hosts = Hosts_parse (join [CHR 0x0A] hosts_lines) in
      card (dom hosts) = card (dom (map_of expected_hosts)) \<and> hosts = map_of expected_hosts)"

lemma hosts_entries:
  "concat (map line_entries (str_lines (join [CHR 0x0A] hosts_lines))) =
     [(''localhost'', localhost), (''proxyhost'', localhost), (''broadcasthost'', Ipv4Addr 255 255 255 255),
      (''influxdb'', Ipv4Addr 192 168 2 111), (''registry.xiachufang.com'', Ipv4Addr 192 168 2 111),
      (''pypi.xiachufang.com'', Ipv4Addr 192 168 2 111), (''kubernetes.docker.internal'', localhost), (''devdb'', localhost),
      (''board-db-01'', localhost), (''board-db-02'', localhost), (''board-db-03'', localhost), (''board-db-04'', localhost),
      (''kubernetes.docker.internal'', localhost)]"
  by code_simp

lemma test_load_hosts_passes: test_load_hosts
proof -
  have "Hosts_parse (join [CHR 0x0A] hosts_lines) = map_of expected_hosts"
    unfolding Hosts_parse_def hosts_entries expected_hosts_def by (rule ext) simp
  then show ?thesis by (simp add: test_load_hosts_def)
qed

definition test_inner_resolve_ip_and_lookup_host :: bool where
  "test_inner_resolve_ip_and_lookup_host = (case Inner_new map_kv Map.empty (Some []) (join32 10 0 0 1) of
      Ok inner \<Rightarrow> passes
       (bind (inner_resolve map_kv ''baidu.com'') (\<lambda>p.
        andthen (check (get_random_a 0 p = Some ''10.0.0.1''))
       (bind (inner_resolve map_kv ''www.ali.com'') (\<lambda>p.
        andthen (check (get_random_a 0 p = Some ''10.0.0.2''))
       (bind (lookup_host map_kv ''10.0.0.1'') (\<lambda>r.
        andthen (check (r = Some ''baidu.com''))
       (bind (lookup_host map_kv ''10.1.0.1'') (\<lambda>r.
        check (r = None))))))))) inner
    | _ \<Rightarrow> False)"

lemma test_inner_resolve_ip_and_lookup_host_passes: test_inner_resolve_ip_and_lookup_host
  by code_simp

end
