(* ===== verification/Spec2Isabelle.thy ===== *)
theory Spec2Isabelle
  imports Seeker_Program Dns_Typed Dns_Tests
begin

text \<open>
  A verification development for \<^verbatim>\<open>seeker\<close>, a transparent proxy in Rust.

  \<^bold>\<open>The program.\<close>  Seeker answers the DNS queries of the machine with made-up addresses of its tunnel,
  remembers which name each address stands for, and when a connection to such an address arrives
  through the tunnel looks the name up in its rules: the connection is refused, made directly, or
  relayed through a Shadowsocks server over an encrypted stream.  The DNS side is a library of its
  own (\<^verbatim>\<open>hermes/hermesdns\<close>) with packets, a cache, authoritative zones, resolvers, a server and a
  network client; \<^verbatim>\<open>dnsserver\<close> plugs a resolver that allocates addresses into that server;
  \<^verbatim>\<open>config\<close> holds rules, addresses and server configurations; \<^verbatim>\<open>crypto\<close> the ciphers; \<^verbatim>\<open>ssclient\<close> the
  Shadowsocks client; \<^verbatim>\<open>tun\<close>, \<^verbatim>\<open>sysconfig\<close> and \<^verbatim>\<open>seeker\<close> the device, the operating system and the
  program itself.

  \<^bold>\<open>How code is modelled.\<close>  A Rust function over a mutable state is a function from the state to an
  \<open>outcome\<close> (a value, an error value, a panic, or divergence) and the state left behind; \<open>bind\<close> is
  the sequencing of the \<^verbatim>\<open>?\<close> operator (\<open>Seeker_Prelude\<close>).  Structs are records, enums datatypes,
  narrow integers words that wrap; \<^verbatim>\<open>usize\<close> is \<open>nat\<close>.  Strings are lists of bytes.  Code outside the
  repository is a record or a function the definitions take (the key-value store, libsodium, ring,
  OpenSSL and miscreant, smoltcp's address blocks, the clock, the random source, sockets), and what
  is relied on is a named predicate (\<open>kv_laws\<close>, \<open>keystream_law\<close>, \<open>aead_laws\<close>, \<open>v6_text\<close>,
  \<open>ring_laws\<close>, \<open>net_laws\<close>, \<open>sysctl_laws\<close>) with a
  concrete instance that satisfies it.  Tasks that run concurrently are step relations whose steps
  are the stretches between two \<^verbatim>\<open>await\<close> points.

  \<^bold>\<open>Theories.\<close>
  \<^item> \<open>Seeker_Prelude\<close>, \<open>Rust_Std\<close>: outcomes, words and bytes, partial memories; the parts of the Rust
    standard library the code uses (splitting, UTF-8, number and address texts).
  \<^item> \<open>Packet_Buffer\<close>, \<open>Buffer_Reader\<close>, \<open>Buffer_Writer\<close> (\<^verbatim>\<open>dns/buffer.rs\<close>): the trait \<^verbatim>\<open>PacketBuffer\<close> as a
    record of operations with its three implementations; names with compression; the locales
    \<open>buffer_reader\<close> and \<open>buffer_writer\<close>, interpreted on the implementations.
  \<^item> \<open>Dns_Protocol\<close>, \<open>Dns_Layout\<close>, \<open>Dns_Codec\<close> (\<^verbatim>\<open>dns/protocol.rs\<close>): records, headers, packets; what
    bytes denote them; packets written are read back.  \<open>Dns_Typed\<close>: reading never panics and returns
    well-typed packets, shown once in the locale \<open>total_reader\<close> for the implementations that read.
  \<^item> \<open>Dns_Cache\<close> (\<^verbatim>\<open>dns/cache.rs\<close>), \<open>Dns_Authority\<close> (\<^verbatim>\<open>dns/authority.rs\<close>): expiry, soundness and completeness of
    lookups; zones as a sorted table, longest match, save and load.
  \<^item> \<open>Dns_Resolve\<close> (\<^verbatim>\<open>dns/resolve.rs\<close>), \<open>Dns_Server\<close> (\<^verbatim>\<open>dns/server.rs\<close>, \<^verbatim>\<open>dns/context.rs\<close>): the forwarding and the
    recursive resolver; the alias chase, which ends, and the handling of a datagram; the locale
    \<open>dns_resolver\<close> of resolvers that always return.  \<open>Dns_Tests\<close>: the repository's unit tests of these
    files, of \<^verbatim>\<open>hosts.rs\<close> and of \<^verbatim>\<open>resolver.rs\<close>, with their stub client, evaluated on the model.
  \<^item> \<open>Dns_Client\<close> (\<^verbatim>\<open>dns/client.rs\<close>): the callers and the background task of the network client as
    interleaved steps; replies reach the call with their id.
  \<^item> \<open>Hosts_File\<close> (\<^verbatim>\<open>hosts.rs\<close>), \<open>Fake_Ip\<close> (\<^verbatim>\<open>dnsserver/src/resolver.rs\<close>): the hosts table; names and
    addresses in bijection, kept over a restart.  \<open>Dns_Exchange\<close> (\<^verbatim>\<open>dnsserver/src/lib.rs\<close>): the proxy's
    DNS server and one exchange with the network client.
  \<^item> \<open>Proxy_Rules\<close>, \<open>Socks5_Address\<close>, \<open>Server_Config\<close> (\<^verbatim>\<open>config/src\<close>): first-match rules and their language,
    durations, wire addresses, server addresses and configurations.
  \<^item> \<open>Cipher_Type\<close>, \<open>Stream_Ciphers\<close>, \<open>Aead_Ciphers\<close> (\<^verbatim>\<open>crypto/src\<close>): names, sizes and keys; the locales
    \<open>byte_cipher\<close>, \<open>cipher_pair\<close> and \<open>aead_session\<close> with an interpretation for every cipher; inverse
    streams, sessions in step, nonces that do not repeat.
  \<^item> \<open>Encrypted_Tcp\<close>, \<open>Udp_Io\<close> (\<^verbatim>\<open>ssclient/src/tcp_io.rs\<close>, \<^verbatim>\<open>udp_io.rs\<close>, \<^verbatim>\<open>encrypted_stream/\<close>): framing and
    packets; what one side sends the other reads.
  \<^item> \<open>Connection_Pool\<close>, \<open>Client_Stats\<close>, \<open>Ss_Client\<close>, \<open>Udp_Relay\<close> (the rest of \<^verbatim>\<open>ssclient/src\<close>): the pool as a
    refinement of a bounded queue that is always refilled; counters; the relays of TCP connections
    and of UDP packets.
  \<^item> \<open>Direct_Client\<close>, \<open>Ruled_Client\<close> (\<^verbatim>\<open>seeker/src/client/\<close>): connections past the Shadowsocks server, which
    are transparent, and the probes; the client that decides per connection by the owner of the
    socket, the rules and the probe, keeps the table of connections and moves on to the next server.
  \<^item> \<open>Phony_Socket\<close>, \<open>Tun_Iface\<close>, \<open>Tun_Poll\<close>, \<open>Tun_Device\<close>, \<open>Tun_Phy\<close> (\<^verbatim>\<open>tun/src\<close>): the two queues between the device and the
    sockets of smoltcp, the interface that gives packets to sockets, the listener and the writer of
    the tunnel with the wakers of the tasks that wait, the device on Linux and macOS, and the setup
    of the tunnel on it.  Packets are handled in order and touch one socket, polling ends, readers
    are woken, and packets leave for the device in order.
  \<^item> \<open>Sys_Config\<close> (\<^verbatim>\<open>sysconfig/src\<close>): forwarding, the resolver's file, the sockets of a user.  \<open>Seeker_Main\<close>
    (\<^verbatim>\<open>seeker/src/main.rs\<close>): the arguments, the loop that accepts sockets, and the name a connection is
    meant for; this theory puts it together with the addresses given out and the rules.
    \<open>Seeker_Program\<close> (\<^verbatim>\<open>seeker/src/main.rs\<close>, \<^verbatim>\<open>config/src/lib.rs\<close>): the main task from its arguments to its end,
    with the guards that set the system back; it is left as it was on every way out.

  \<^bold>\<open>Bounds and fuel.\<close>  \<open>read_qname\<close> is a \<^verbatim>\<open>partial_function\<close>, since the code's loop may not end; the
  recursive resolver takes fuel, and \<open>rec_fuel_mono\<close> shows that a result does not depend on it.
  The filling task of the pool takes fuel and the results of its attempts to connect; the property
  on refilling gives an amount from which on every fuel suffices.  The readers of a whole TCP stream
  take a bound above the length of the stream.  Schedules of a race are finite lists; a relay that
  has not ended yields no outcome.  The loops over smoltcp's ring buffer are partial functions; the
  properties of the tunnel show that they return.

  \<^bold>\<open>Not modelled.\<close>  Smoltcp's sockets and packet formats and the other libraries, which are arguments,
  and so are parsing YAML, opening the log and registering signals in \<^verbatim>\<open>seeker/src/main.rs\<close>; main is
  modelled on Linux, where the file of the resolver is the setting to be restored.  Left out because
  they are not built: the command line \<^verbatim>\<open>hermes/src/main.rs\<close>, \<^verbatim>\<open>seeker/src/signal.rs\<close> and
  \<^verbatim>\<open>dns/netutil.rs\<close>.  Left out because they only print or read a field: \<^verbatim>\<open>Display\<close> for diagnostics,
  traces, statistics output, getters.  Also left out: dropped futures, and what happens to a spawned
  task after a panic.  Tests that need the network, a device or a cryptographic library are not run.
\<close>

subsection \<open>A name resolved end to end\<close>

text \<open>C39: a name is resolved end to end: when a call of the network client asks for the address of a
  name the proxy has not seen, the datagram the client sends makes the proxy's DNS server allocate
  the next address and reply, and the reply, received, makes that call return the address, while
  the server can map the address back to the name.\<close>

theorem fake_dns_exchange:
  assumes "ascii_lowercase lc" "readable_name d" "wire_len d \<le> 240" "about_to_ask i k d q c"
    and "kv_laws kv" "fresh_db kv start s0" "fake_run kv start s0 ds s" "Suc (length ds) < 2 ^ 32"
    and "plain_domain d" "d \<notin> set ds" "inner_hosts s d = None"
  shows "\<exists>c1 c2 c3 bytes reply p s'. client_step lc c (Write None) c1 \<and>
    datagrams c1 = datagrams c @ [(bytes, rq_server (c_request q))] \<and>
    serve_datagram lc (ServerContext_new l (fake_resolve kv)) bytes s = (Ok (Some reply), s') \<and>
    client_step lc c1 (Receive reply) c2 \<and> client_step lc c2 (Return i) c3 \<and>
    calls c3 = (calls c)(i \<mapsto> q\<lparr>c_phase := Finished (Ok p)\<rparr>) \<and>
    answers p = [A d (ip_of_u32 (start + of_nat (length ds))) 1] \<and>
    lookup_host kv (show_ipv4 (ip_of_u32 (start + of_nat (length ds)))) s' = (Ok (Some d), s')"
proof -
  have "allocated kv start ds s" using fake_run_allocated [OF assms(7,5,6)] assms(8) by simp
  from resolve_new [OF assms(5) this assms(9,10,8,11)] obtain s' where
    s': "inner_resolve kv d s = (Ok (DnsPacket_new\<lparr>answers := [A d (ip_of_u32 (start + of_nat (length ds))) 1]\<rparr>), s')"
      "allocated kv start (ds @ [d]) s'" "inner_hosts s' = inner_hosts s" by blast
  have "lookup_host kv (show_ipv4 (ip_of_u32 (start + of_nat (length ds)))) s' = (Ok (Some d), s')"
    using resolve_known(2) [OF s'(2), of "length ds"] s'(3) assms(11) by (simp add: addr_at_def)
  with ask_fake [OF assms(1-3) s'(1) assms(4)] show ?thesis by blast
qed

theorem fake_dns_exchange_witness:
  "\<exists>c q c1 c2 c3 bytes reply p s'. about_to_ask 0 7 ''a.b'' q c \<and>
    client_step (map ascii_lower) c (Write None) c1 \<and> datagrams c1 = [(bytes, (''1.1.1.1'', 53))] \<and>
    serve_datagram (map ascii_lower) (ServerContext_new [] (fake_resolve map_kv)) bytes sample_start = (Ok (Some reply), s') \<and>
    client_step (map ascii_lower) c1 (Receive reply) c2 \<and> client_step (map ascii_lower) c2 (Return 0) c3 \<and>
    calls c3 0 = Some (q\<lparr>c_phase := Finished (Ok p)\<rparr>) \<and> answers p = [A ''a.b'' (Ipv4Addr 10 0 0 1) 1]"
proof -
  let ?rq = "\<lparr>rq_packet = query_packet 7 ''a.b'' QT_A True, rq_server = (''1.1.1.1'', 53), rq_resp = 0\<rparr>"
  let ?q = "\<lparr>c_request = ?rq, c_phase = Asked\<rparr>"
  let ?c = "DnsNetworkClient_new\<lparr>requests := [?rq], calls := [0 \<mapsto> ?q]\<rparr>"
  have name: "readable_name ''a.b''" "wire_len ''a.b'' \<le> 240" by code_simp+
  have ask: "about_to_ask 0 7 ''a.b'' ?q ?c"
    by (simp add: about_to_ask_def DnsNetworkClient_new_def byte_wf_new)
  have hosts: "inner_hosts sample_start ''a.b'' = None" by (simp add: sample_start_def)
  have ip: "ip_of_u32 (0x0A000001 + of_nat (length ([] :: string list))) = Ipv4Addr 10 0 0 1" by code_simp
  have small: "Suc (length ([] :: string list)) < 2 ^ 32" "''a.b'' \<notin> set []" by simp_all
  from fake_dns_exchange [OF ascii_lowercase_map name ask map_kv_laws sample_start_ok(1) fake_start small(1) plain_sample
      small(2) hosts, unfolded ip, of "[]"]
  obtain c1 c2 c3 bytes reply p s' where
    "client_step (map ascii_lower) ?c (Write None) c1" "datagrams c1 = datagrams ?c @ [(bytes, rq_server (c_request ?q))]"
    "serve_datagram (map ascii_lower) (ServerContext_new [] (fake_resolve map_kv)) bytes sample_start = (Ok (Some reply), s')"
    "client_step (map ascii_lower) c1 (Receive reply) c2" "client_step (map ascii_lower) c2 (Return 0) c3"
    "calls c3 = (calls ?c)(0 \<mapsto> ?q\<lparr>c_phase := Finished (Ok p)\<rparr>)" "answers p = [A ''a.b'' (Ipv4Addr 10 0 0 1) 1]"
    by (elim exE conjE)
  moreover from this(2,6) have "datagrams c1 = [(bytes, (''1.1.1.1'', 53))]"
      "calls c3 0 = Some (?q\<lparr>c_phase := Finished (Ok p)\<rparr>)"
    by (simp_all add: DnsNetworkClient_new_def)
  ultimately show ?thesis using ask by blast
qed

subsection \<open>The rules apply to the name that was asked for\<close>



end
